(* ===== verification/Prelude.thy ===== *)
theory Prelude
  imports Main "HOL-Library.Word" "HOL-Library.Signed_Division"
begin

unbundle bit_operations_syntax

section \<open>Shared vocabulary of the development\<close>

text \<open>
  This theory holds what every component needs: the bytes and fixed-size buffers of C, the
  kinds of undefined behaviour a translated operation can run into, the C string operations the
  sources call (\<open>strlen\<close>, \<open>strcpy\<close>, \<open>memcpy\<close>, \<open>memset\<close>), and the generic facts on
  lists and words the component theories share.

  An operation of the sources that C leaves undefined (a read past an array, a use of an
  indeterminate pointer) is never given a made-up result: the model returns \<open>Inl u\<close>, where
  \<open>u\<close> names what went wrong, and \<open>Inr\<close> of the result otherwise.
\<close>

named_theorems buf_simps \<open>facts that rewrite the buffer operations on in-range arguments\<close>

type_synonym byte = "8 word"

datatype ub =
    Out_of_bounds      \<comment> \<open>an array or buffer accessed outside its object\<close>
  | Uninitialised      \<comment> \<open>an indeterminate value or pointer used\<close>
  | Null_deref         \<comment> \<open>a null pointer dereferenced\<close>
  | Use_after_free     \<comment> \<open>a freed object used\<close>
  | Exit_called        \<comment> \<open>not undefined: the process ended itself by \<open>exit\<close>\<close>
  | Signed_overflow    \<comment> \<open>a signed integer pushed out of its range\<close>
  | Bad_free           \<comment> \<open>a pointer released that no allocation returned\<close>

type_synonym 'a c_result = "ub + 'a"

definition c_bind :: "'a c_result \<Rightarrow> ('a \<Rightarrow> 'b c_result) \<Rightarrow> 'b c_result" where
  "c_bind r f = (case r of Inl u \<Rightarrow> Inl u | Inr a \<Rightarrow> f a)"

definition INT_MAX :: int where
  "INT_MAX = 2147483647"

text \<open>An array element read with C's \<open>int\<close> index: outside the array it is undefined.\<close>

definition arr_get :: "'a list \<Rightarrow> int \<Rightarrow> 'a c_result" where
  "arr_get xs i = (if 0 \<le> i \<and> i < int (length xs) then Inr (xs ! nat i) else Inl Out_of_bounds)"

definition arr_set :: "'a list \<Rightarrow> int \<Rightarrow> 'a \<Rightarrow> 'a list c_result" where
  "arr_set xs i v = (if 0 \<le> i \<and> i < int (length xs) then Inr (xs[nat i := v]) else Inl Out_of_bounds)"

text \<open>
  \<open>memcpy\<close> of the bytes \<open>src\<close> into \<open>buf\<close> at offset \<open>off\<close>, and reading \<open>n\<close> bytes at an
  offset. Both are undefined unless the range lies inside the buffer.
\<close>

definition buf_write :: "nat \<Rightarrow> 'a list \<Rightarrow> 'a list \<Rightarrow> 'a list c_result" where
  "buf_write off src buf =
     (if off + length src \<le> length buf
      then Inr (take off buf @ src @ drop (off + length src) buf) else Inl Out_of_bounds)"

definition buf_read :: "nat \<Rightarrow> nat \<Rightarrow> 'a list \<Rightarrow> 'a list c_result" where
  "buf_read off n buf =
     (if off + n \<le> length buf then Inr (take n (drop off buf)) else Inl Out_of_bounds)"

text \<open>
  A C string is the bytes before the first zero byte; a buffer with no zero byte holds none,
  and scanning it runs off its end.
\<close>

definition c_str :: "byte list \<Rightarrow> byte list c_result" where
  "c_str bs = (if 0 \<in> set bs then Inr (takeWhile (\<lambda>b. b \<noteq> 0) bs) else Inl Out_of_bounds)"

text \<open>\<open>strcpy(dst, src)\<close> into a buffer: the string and its terminating zero must fit.\<close>

definition c_strcpy :: "byte list \<Rightarrow> byte list \<Rightarrow> byte list c_result" where
  "c_strcpy dst src = c_bind (c_str src) (\<lambda>s. buf_write 0 (s @ [0]) dst)"

definition byte_of_char :: "char \<Rightarrow> byte" where
  "byte_of_char c = of_nat (of_char c)"

text \<open>The bytes of a string literal, without the terminating zero.\<close>

definition lit :: "string \<Rightarrow> byte list" where
  "lit s = map byte_of_char s"

text \<open>The decimal digits of a number, as \<open>printf("%d")\<close> and \<open>to_string\<close> write a number that is not negative.\<close>

fun dec_digits :: "nat \<Rightarrow> byte list" where
  "dec_digits n = (if n < 10 then [of_nat (48 + n)] else dec_digits (n div 10) @ [of_nat (48 + n mod 10)])"

declare dec_digits.simps [simp del]

text \<open>The value of a \<open>char\<close> that holds a byte: \<open>char\<close> is signed on the targets of this code.\<close>

definition char_val :: "byte \<Rightarrow> int" where
  "char_val b = sint b"

subsection \<open>Facts\<close>

lemma c_bind_simps [simp]: "c_bind (Inl u) f = Inl u" "c_bind (Inr a) f = f a"
  by (simp_all add: c_bind_def)

lemma c_bind_cong [fundef_cong]: "r = r' \<Longrightarrow> (\<And>a. r' = Inr a \<Longrightarrow> f a = g a) \<Longrightarrow> c_bind r f = c_bind r' g"
  by (cases r') (simp_all add: c_bind_def)

lemma c_bind_Inr_iff: "c_bind r f = Inr b \<longleftrightarrow> (\<exists>a. r = Inr a \<and> f a = Inr b)"
  by (cases r) simp_all

lemma arr_get_Inr [buf_simps]: "0 \<le> i \<Longrightarrow> i < int (length xs) \<Longrightarrow> arr_get xs i = Inr (xs ! nat i)"
  by (simp add: arr_get_def)

lemma arr_set_Inr [buf_simps]: "0 \<le> i \<Longrightarrow> i < int (length xs) \<Longrightarrow> arr_set xs i v = Inr (xs[nat i := v])"
  by (simp add: arr_set_def)

lemma buf_write_Inr [buf_simps]:
  "off + length src \<le> length buf \<Longrightarrow>
     buf_write off src buf = Inr (take off buf @ src @ drop (off + length src) buf)"
  by (simp add: buf_write_def)

lemma buf_read_Inr [buf_simps]:
  "off + n \<le> length buf \<Longrightarrow> buf_read off n buf = Inr (take n (drop off buf))"
  by (simp add: buf_read_def)

lemma buf_write_length: "buf_write off src buf = Inr buf' \<Longrightarrow> length buf' = length buf"
  by (auto simp: buf_write_def split: if_splits)

lemma smod_nonneg [simp]: "0 \<le> (a::int) \<Longrightarrow> 0 \<le> b \<Longrightarrow> a smod b = a mod b"
  by (cases "a = 0") (simp_all add: signed_modulo_int_def)

lemma sdiv_nonneg [simp]: "0 \<le> (a::int) \<Longrightarrow> 0 \<le> b \<Longrightarrow> a sdiv b = a div b"
  by (cases "a = 0"; cases "b = 0") (simp_all add: signed_divide_int_def)

lemma bit_mask_literals [simp]:
  "bit (0xff :: int) n \<longleftrightarrow> n < 8" "bit (0xfff :: int) n \<longleftrightarrow> n < 12"
proof -
  have "(0xff :: int) = mask 8" "(0xfff :: int) = mask 12" by (simp_all add: mask_eq_exp_minus_1)
  then show "bit (0xff :: int) n \<longleftrightarrow> n < 8" "bit (0xfff :: int) n \<longleftrightarrow> n < 12"
    by (simp_all only: bit_mask_iff possible_bit_int simp_thms)
qed

lemma dec_digits_small [simp]: "n < 10 \<Longrightarrow> dec_digits n = [of_nat (48 + n)]"
  by (subst dec_digits.simps) simp

lemma dec_digits_length: "10 \<le> n \<Longrightarrow> 2 \<le> length (dec_digits n)"
proof -
  assume n: "10 \<le> n"
  have "dec_digits m \<noteq> []" for m by (subst dec_digits.simps) simp
  then have "1 \<le> length (dec_digits (n div 10))" by (simp add: Suc_le_eq)
  then show ?thesis using n by (subst dec_digits.simps) simp
qed

lemma dec_digits_bound: "n < 10 ^ k \<Longrightarrow> 0 < k \<Longrightarrow> length (dec_digits n) \<le> k"
proof (induction k arbitrary: n)
  case 0
  then show ?case by simp
next
  case (Suc k)
  show ?case
  proof (cases "n < 10")
    case False
    with Suc.prems have "n div 10 < 10 ^ k" "0 < k" by (auto simp: div_less_iff_less_mult intro: gr0I)
    with Suc.IH False show ?thesis by (subst dec_digits.simps) simp
  qed simp
qed

lemma dec_digit_nonzero: "k < 10 \<Longrightarrow> (of_nat (48 + k) :: byte) \<noteq> 0"
proof
  assume k: "k < 10" and "(of_nat (48 + k) :: byte) = 0"
  then have "unat (of_nat (48 + k) :: byte) = 0" by simp
  then show False using k unfolding unat_of_nat by simp
qed

lemma dec_digits_no_zero: "0 \<notin> set (dec_digits n)"
proof (induction n rule: dec_digits.induct)
  case (1 n)
  show ?case
  proof (cases "n < 10")
    case True
    with dec_digit_nonzero [of n] show ?thesis by (subst dec_digits.simps) auto
  next
    case False
    with 1 dec_digit_nonzero [of "n mod 10"] show ?thesis by (subst dec_digits.simps) auto
  qed
qed

lemma upto_map_int: "[0..int n - 1] = map int [0..<n]"
proof (induction n)
  case 0
  then show ?case by simp
next
  case (Suc n)
  have "[0..int (Suc n) - 1] = [0..int n - 1] @ [int n]" by (simp add: upto_rec2)
  with Suc show ?case by simp
qed

lemma map_upt_nth: "map (\<lambda>i. f (xs ! i)) [0..<length xs] = map f xs"
  by (rule nth_equalityI) simp_all

lemma length_lit [simp]: "length (lit s) = length s"
  by (simp add: lit_def)

end
