(* ===== verification/Fifo_Interface.thy ===== *)
theory Fifo_Interface
  imports Prelude
begin

section \<open>The contract of a bounded first-in first-out queue\<close>

text \<open>
  The interface between the message queue of the infrared driver (the provider) and the
  driver's read and interrupt paths (the clients). A queue implementation has an invariant, a
  list of contents, and a number of dequeues it can still serve before its read index leaves the
  array (\<open>budget\<close>). Enqueueing into a full queue and dequeueing from an empty one are refused
  and change nothing.
\<close>

text \<open>The clients' iteration: at most \<open>n\<close> elements taken from the front.\<close>

fun drain :: "('q \<Rightarrow> ('a \<times> 'q) option) \<Rightarrow> nat \<Rightarrow> 'q \<Rightarrow> 'a list \<times> 'q" where
  "drain deq 0 q = ([], q)"
| "drain deq (Suc n) q =
     (case deq q of None \<Rightarrow> ([], q)
      | Some (x, q') \<Rightarrow> (let (xs, q'') = drain deq n q' in (x # xs, q'')))"

fun fill_all :: "('a \<Rightarrow> 'q \<Rightarrow> 'q option) \<Rightarrow> 'a list \<Rightarrow> 'q \<Rightarrow> 'q" where
  "fill_all enq [] q = q"
| "fill_all enq (x # xs) q =
     fill_all enq xs (case enq x q of None \<Rightarrow> q | Some q' \<Rightarrow> q')"

locale bounded_fifo =
  fixes enq :: "'a \<Rightarrow> 'q \<Rightarrow> 'q option"
    and deq :: "'q \<Rightarrow> ('a \<times> 'q) option"
    and invar :: "'q \<Rightarrow> bool"
    and content :: "'q \<Rightarrow> 'a list"
    and cap :: "'q \<Rightarrow> nat"
    and budget :: "'q \<Rightarrow> nat"
  assumes enq_full: "invar q \<Longrightarrow> length (content q) = cap q \<Longrightarrow> enq x q = None"
    and enq_room: "invar q \<Longrightarrow> length (content q) < cap q \<Longrightarrow>
      \<exists>q'. enq x q = Some q' \<and> invar q' \<and> content q' = content q @ [x] \<and>
           cap q' = cap q \<and> budget q' = budget q"
    and deq_empty: "invar q \<Longrightarrow> content q = [] \<Longrightarrow> deq q = None"
    and deq_front: "invar q \<Longrightarrow> content q \<noteq> [] \<Longrightarrow> 0 < budget q \<Longrightarrow>
      \<exists>q'. deq q = Some (hd (content q), q') \<and> invar q' \<and> content q' = tl (content q) \<and>
           cap q' = cap q \<and> Suc (budget q') = budget q"
    and bounded: "invar q \<Longrightarrow> length (content q) \<le> cap q"
begin

lemma drain_content:
  assumes "invar q" and "min n (length (content q)) \<le> budget q"
  shows "fst (drain deq n q) = take n (content q) \<and>
         invar (snd (drain deq n q)) \<and>
         content (snd (drain deq n q)) = drop n (content q) \<and>
         cap (snd (drain deq n q)) = cap q \<and>
         budget (snd (drain deq n q)) + min n (length (content q)) = budget q"
  using assms
proof (induction n arbitrary: q)
  case 0
  then show ?case by simp
next
  case (Suc n)
  show ?case
  proof (cases "content q")
    case Nil
    with Suc.prems show ?thesis by (simp add: deq_empty)
  next
    case (Cons x xs)
    with Suc.prems have "0 < budget q" by simp
    then obtain q' where q': "deq q = Some (x, q')" "invar q'" "content q' = xs"
        "cap q' = cap q" "Suc (budget q') = budget q"
      using deq_front [of q] Suc.prems(1) Cons by auto
    with Suc.prems(2) Cons have "min n (length (content q')) \<le> budget q'" by simp
    from Suc.IH [OF q'(2) this] q' Cons show ?thesis
      by (auto simp: split_beta)
  qed
qed

lemma fill_all_content:
  assumes "invar q" and "length (content q) + length xs \<le> cap q"
  shows "invar (fill_all enq xs q) \<and> content (fill_all enq xs q) = content q @ xs \<and>
         cap (fill_all enq xs q) = cap q \<and> budget (fill_all enq xs q) = budget q"
  using assms
proof (induction xs arbitrary: q)
  case Nil
  then show ?case by simp
next
  case (Cons x xs)
  then obtain q' where q': "enq x q = Some q'" "invar q'" "content q' = content q @ [x]"
      "cap q' = cap q" "budget q' = budget q"
    using enq_room [of q x] by auto
  with Cons.prems have "length (content q') + length xs \<le> cap q'" by simp
  from Cons.IH [OF q'(2) this] q' show ?case by simp
qed

lemma fill_then_drain:
  assumes "invar q" and "content q = []" and "length xs \<le> cap q" and "length xs \<le> budget q"
  shows "fst (drain deq (length xs) (fill_all enq xs q)) = xs"
  using fill_all_content [of q xs] drain_content [of "fill_all enq xs q" "length xs"] assms
  by simp

end

end
