(* ===== verification/Msg_Queue.thy ===== *)
theory Msg_Queue
  imports Fifo_Interface
begin

section \<open>The circular message queue (ECEN749/lab8/src/msg\_queue.h)\<close>

text \<open>
  The queue that the interrupt handler of the infrared driver fills and its read operation
  empties: a ring over an array, with the index of the slot before the oldest message
  (\<open>head_idx\<close>), the index of the newest message (\<open>tail_idx\<close>) and a count. A queue pointer is an
  \<open>option\<close> whose \<open>None\<close> is \<open>NULL\<close>. What \<open>kmalloc\<close> returns is an argument: whether the small
  allocations succeed, and the array with its indeterminate contents or \<open>None\<close>.

  Definitions come in the order of the header; then the invariant and the list a queue stands
  for, the effect of every operation on them, the interpretation of the queue contract, and the
  read past the array that \<open>dequeue\<close> makes once its index reaches the last slot.
\<close>

named_theorems mq_defs \<open>definitions of the queue operations\<close>

definition QUEUE_LEN :: nat where
  "QUEUE_LEN = 100"

record ir_msg =
  byte_low :: byte
  byte_high :: byte

definition ir_msg_new :: "bool \<Rightarrow> byte \<Rightarrow> byte \<Rightarrow> ir_msg c_result" where
  "ir_msg_new kmalloc_ok high low =
     (if kmalloc_ok then Inr \<lparr>byte_low = low, byte_high = high\<rparr> else Inl Null_deref)"

record msg_queue =
  head_idx :: int
  tail_idx :: int
  q_size :: int
  capacity :: int
  msg_array :: "ir_msg list option"

definition msg_queue_new :: "bool \<Rightarrow> ir_msg list option \<Rightarrow> int \<Rightarrow> msg_queue c_result" where
  "msg_queue_new kmalloc_ok arr cap =
     (if kmalloc_ok
      then Inr \<lparr>head_idx = 0, tail_idx = 0, q_size = 0, capacity = cap, msg_array = arr\<rparr>
      else Inl Null_deref)"

datatype kfree_call = Kfree_msg_array | Kfree_queue

definition msg_queue_destroy :: "msg_queue option \<Rightarrow> kfree_call list" where
  "msg_queue_destroy queue =
     (case queue of None \<Rightarrow> [] | Some q \<Rightarrow> [Kfree_msg_array, Kfree_queue])"

definition is_full :: "msg_queue option \<Rightarrow> int" where
  "is_full queue =
     (case queue of None \<Rightarrow> - 2
      | Some q \<Rightarrow> if q_size q = capacity q then 1 else 0)"

definition is_empty :: "msg_queue option \<Rightarrow> int" where
  "is_empty queue =
     (case queue of None \<Rightarrow> - 2
      | Some q \<Rightarrow> if q_size q = 0 then 1 else 0)"

definition slot_get :: "msg_queue \<Rightarrow> int \<Rightarrow> ir_msg c_result" where
  "slot_get q i = (case msg_array q of None \<Rightarrow> Inl Null_deref | Some a \<Rightarrow> arr_get a i)"

definition slot_set :: "msg_queue \<Rightarrow> int \<Rightarrow> ir_msg \<Rightarrow> msg_queue c_result" where
  "slot_set q i m =
     (case msg_array q of None \<Rightarrow> Inl Null_deref
      | Some a \<Rightarrow> c_bind (arr_set a i m) (\<lambda>a'. Inr (q\<lparr>msg_array := Some a'\<rparr>)))"

text \<open>The pairs \<open>(byte_high, byte_low)\<close> that \<open>print_queue\<close> sends to the kernel log.\<close>

fun print_slots :: "msg_queue \<Rightarrow> int list \<Rightarrow> (byte \<times> byte) list c_result" where
  "print_slots q [] = Inr []"
| "print_slots q (i # is) =
     c_bind (slot_get q i) (\<lambda>m. c_bind (print_slots q is) (\<lambda>ps. Inr ((byte_high m, byte_low m) # ps)))"

definition print_queue :: "msg_queue option \<Rightarrow> (byte \<times> byte) list c_result" where
  "print_queue queue =
     (case queue of None \<Rightarrow> Inr []
      | Some q \<Rightarrow>
          if is_empty queue \<noteq> 0 then Inr []
          else if head_idx q \<le> tail_idx q then print_slots q [head_idx q..tail_idx q]
          else print_slots q [tail_idx q..head_idx q])"

text \<open>The result is the returned value and the queue; \<open>DEBUG\<close> is 0, so nothing is printed.\<close>

definition enqueue :: "msg_queue option \<Rightarrow> ir_msg \<Rightarrow> (int \<times> msg_queue option) c_result" where
  "enqueue queue msg_in =
     (case queue of None \<Rightarrow> Inr (- 2, queue)
      | Some q \<Rightarrow>
          if is_full queue \<noteq> 0 then Inr (- 1, queue)
          else
            let q1 = q\<lparr>tail_idx := (tail_idx q + 1) smod capacity q\<rparr>
            in c_bind (slot_set q1 (tail_idx q1) msg_in)
                 (\<lambda>q2. let q3 = q2\<lparr>q_size := q_size q2 + 1\<rparr> in Inr (q_size q3, Some q3)))"

text \<open>The middle component is what is stored through \<open>msg_out\<close>, if anything is.\<close>

definition dequeue :: "msg_queue option \<Rightarrow> (int \<times> ir_msg option \<times> msg_queue option) c_result" where
  "dequeue queue =
     (case queue of None \<Rightarrow> Inr (- 2, None, queue)
      | Some q \<Rightarrow>
          if is_empty queue \<noteq> 0 then Inr (- 1, None, queue)
          else
            c_bind (slot_get q (head_idx q + 1))
              (\<lambda>m. let q1 = q\<lparr>head_idx := (head_idx q + 1) smod capacity q,
                              q_size := q_size q - 1\<rparr>
                   in Inr (q_size q1, Some m, Some q1)))"

declare is_full_def [mq_defs] is_empty_def [mq_defs] slot_get_def [mq_defs]
  slot_set_def [mq_defs] enqueue_def [mq_defs] dequeue_def [mq_defs]

subsection \<open>Invariant and contents\<close>

definition mq_inv :: "msg_queue \<Rightarrow> bool" where
  "mq_inv q \<longleftrightarrow>
     (case msg_array q of None \<Rightarrow> False | Some a \<Rightarrow> int (length a) = capacity q) \<and>
     0 < capacity q \<and>
     0 \<le> head_idx q \<and> head_idx q < capacity q \<and>
     0 \<le> q_size q \<and> q_size q \<le> capacity q \<and>
     tail_idx q = (head_idx q + q_size q) mod capacity q"

text \<open>The messages in the queue, oldest first.\<close>

definition mq_content :: "msg_queue \<Rightarrow> ir_msg list" where
  "mq_content q =
     map (\<lambda>k. the (msg_array q) ! nat ((head_idx q + 1 + int k) mod capacity q))
       [0..<nat (q_size q)]"

definition mq_budget :: "msg_queue \<Rightarrow> nat" where
  "mq_budget q = nat (capacity q - 1 - head_idx q)"

text \<open>The operations as their caller sees them, on a queue that is not null.\<close>

definition mq_enq :: "ir_msg \<Rightarrow> msg_queue \<Rightarrow> msg_queue option" where
  "mq_enq m q =
     (case enqueue (Some q) m of Inr (r, Some q') \<Rightarrow> if r \<ge> 0 then Some q' else None | _ \<Rightarrow> None)"

definition mq_deq :: "msg_queue \<Rightarrow> (ir_msg \<times> msg_queue) option" where
  "mq_deq q =
     (case dequeue (Some q) of
        Inr (r, Some m, Some q') \<Rightarrow> if r \<ge> 0 then Some (m, q') else None
      | _ \<Rightarrow> None)"

text \<open>
  A sequence of calls on one queue, with the returned value and the delivered message of each
  call, and the same calls on a list that holds at most \<open>cap\<close> messages.
\<close>

datatype mq_op = Enqueue ir_msg | Dequeue

fun mq_run :: "msg_queue option \<Rightarrow> mq_op list \<Rightarrow> (int \<times> ir_msg option) list c_result" where
  "mq_run p [] = Inr []"
| "mq_run p (Enqueue m # ops) =
     c_bind (enqueue p m) (\<lambda>(r, p'). c_bind (mq_run p' ops) (\<lambda>rs. Inr ((r, None) # rs)))"
| "mq_run p (Dequeue # ops) =
     c_bind (dequeue p) (\<lambda>(r, m, p'). c_bind (mq_run p' ops) (\<lambda>rs. Inr ((r, m) # rs)))"

fun spec_run :: "nat \<Rightarrow> ir_msg list \<Rightarrow> mq_op list \<Rightarrow> (int \<times> ir_msg option) list" where
  "spec_run cap xs [] = []"
| "spec_run cap xs (Enqueue m # ops) =
     (if length xs = cap then (- 1, None) # spec_run cap xs ops
      else (int (length xs) + 1, None) # spec_run cap (xs @ [m]) ops)"
| "spec_run cap xs (Dequeue # ops) =
     (case xs of [] \<Rightarrow> (- 1, None) # spec_run cap xs ops
      | x # xs' \<Rightarrow> (int (length xs'), Some x) # spec_run cap xs' ops)"

definition n_dequeue :: "mq_op list \<Rightarrow> nat" where
  "n_dequeue ops = count_list ops Dequeue"

subsection \<open>Ring arithmetic\<close>

lemma ring_index_distinct:
  assumes "0 \<le> k" and "k < s" and "s < (c::int)"
  shows "(h + k) mod c \<noteq> (h + s) mod c"
proof
  assume "(h + k) mod c = (h + s) mod c"
  then have "c dvd s - k" by (metis add_diff_cancel_left mod_eq_dvd_iff)
  with assms show False using zdvd_imp_le [of c "s - k"] by auto
qed

lemma length_mq_content [simp]: "length (mq_content q) = nat (q_size q)"
  by (simp add: mq_content_def)

lemma mq_inv_array: "mq_inv q \<Longrightarrow> \<exists>a. msg_array q = Some a \<and> int (length a) = capacity q"
  by (auto simp: mq_inv_def split: option.splits)

subsection \<open>The operations on the contents\<close>

lemma mq_inv_new:
  assumes "length arr = QUEUE_LEN"
    and "msg_queue_new True (Some arr) (int QUEUE_LEN) = Inr q"
  shows "mq_inv q \<and> mq_content q = [] \<and> capacity q = int QUEUE_LEN \<and> head_idx q = 0"
  using assms by (auto simp: msg_queue_new_def mq_inv_def mq_content_def QUEUE_LEN_def)

lemma enqueue_room:
  assumes inv: "mq_inv q" and room: "q_size q < capacity q"
  shows "\<exists>q'. enqueue (Some q) m = Inr (q_size q + 1, Some q') \<and> mq_inv q' \<and>
           mq_content q' = mq_content q @ [m] \<and>
           capacity q' = capacity q \<and> head_idx q' = head_idx q \<and> q_size q' = q_size q + 1"
proof -
  obtain a where a: "msg_array q = Some a" "int (length a) = capacity q"
    using mq_inv_array [OF inv] by auto
  define t where "t = (tail_idx q + 1) mod capacity q"
  define q' where "q' = q\<lparr>tail_idx := t, msg_array := Some (a[nat t := m]), q_size := q_size q + 1\<rparr>"
  from inv have cap: "0 < capacity q" and tail: "tail_idx q = (head_idx q + q_size q) mod capacity q"
    and hd: "0 \<le> head_idx q" and sz: "0 \<le> q_size q" by (auto simp: mq_inv_def)
  from cap have t: "0 \<le> t" "t < capacity q" by (auto simp: t_def)
  from tail have t_eq: "t = (head_idx q + 1 + q_size q) mod capacity q"
    by (simp add: t_def mod_add_left_eq mod_add_right_eq algebra_simps)
  from tail cap have tl0: "0 \<le> tail_idx q" by simp
  have run: "enqueue (Some q) m = Inr (q_size q + 1, Some q')"
    using room a t tl0 cap by (simp add: mq_defs arr_set_def t_def q'_def)
  have "(head_idx q + 1 + int k) mod capacity q \<noteq> t" if "k < nat (q_size q)" for k
    unfolding t_eq by (rule ring_index_distinct) (use that room in auto)
  then have old: "a[nat t := m] ! nat ((head_idx q + 1 + int k) mod capacity q)
      = a ! nat ((head_idx q + 1 + int k) mod capacity q)" if "k < nat (q_size q)" for k
    using that t(1) cap by (metis eq_nat_nat_iff nth_list_update_neq pos_mod_sign)
  have new: "a[nat t := m] ! nat ((head_idx q + 1 + int (nat (q_size q))) mod capacity q) = m"
    using t a sz by (simp add: t_eq)
  have "mq_content q' = mq_content q @ [m]"
    using a sz new by (simp add: mq_content_def q'_def nat_add_distrib old)
  moreover have "mq_inv q'"
    using inv a room t_eq by (simp add: mq_inv_def q'_def algebra_simps)
  ultimately show ?thesis
    using run by (intro exI [of _ q']) (simp add: q'_def)
qed

lemma enqueue_full: "mq_inv q \<Longrightarrow> q_size q = capacity q \<Longrightarrow> enqueue (Some q) m = Inr (- 1, Some q)"
  by (simp add: mq_defs)

lemma dequeue_empty: "q_size q = 0 \<Longrightarrow> dequeue (Some q) = Inr (- 1, None, Some q)"
  by (simp add: mq_defs)

lemma dequeue_front:
  assumes inv: "mq_inv q" and ne: "0 < q_size q" and idx: "head_idx q + 1 < capacity q"
  shows "\<exists>q'. dequeue (Some q) = Inr (q_size q - 1, Some (hd (mq_content q)), Some q') \<and> mq_inv q' \<and>
           mq_content q' = tl (mq_content q) \<and>
           capacity q' = capacity q \<and> head_idx q' = head_idx q + 1 \<and> q_size q' = q_size q - 1"
proof -
  obtain a where a: "msg_array q = Some a" "int (length a) = capacity q"
    using mq_inv_array [OF inv] by auto
  define q' where "q' = q\<lparr>head_idx := head_idx q + 1, q_size := q_size q - 1\<rparr>"
  from inv have hd: "0 \<le> head_idx q" by (simp add: mq_inv_def)
  have split: "[0..<nat (q_size q)] = 0 # map Suc [0..<nat (q_size q) - 1]"
    using ne by (simp add: map_Suc_upt upt_conv_Cons)
  have front: "hd (mq_content q) = a ! nat (head_idx q + 1)"
    using a hd idx by (simp add: mq_content_def split)
  have "dequeue (Some q) = Inr (q_size q - 1, Some (hd (mq_content q)), Some q')"
    using ne a hd idx by (simp add: mq_defs arr_get_def front q'_def)
  moreover have "mq_inv q'"
    using inv idx ne a by (simp add: mq_inv_def q'_def)
  moreover have "mq_content q' = tl (mq_content q)"
  proof -
    have "nat (q_size q - 1) = nat (q_size q) - 1" using ne by simp
    then show ?thesis by (simp add: mq_content_def split q'_def algebra_simps comp_def)
  qed
  ultimately show ?thesis by (intro exI [of _ q']) (simp add: q'_def)
qed

text \<open>The slot \<open>dequeue\<close> reads is \<open>head_idx + 1\<close>, not reduced modulo the capacity.\<close>

lemma dequeue_last_slot:
  assumes inv: "mq_inv q" and ne: "0 < q_size q" and idx: "head_idx q + 1 = capacity q"
  shows "dequeue (Some q) = Inl Out_of_bounds"
proof -
  obtain a where "msg_array q = Some a" "int (length a) = capacity q"
    using mq_inv_array [OF inv] by auto
  then show ?thesis using ne idx by (simp add: mq_defs arr_get_def)
qed

subsection \<open>The queue contract\<close>

interpretation mq: bounded_fifo mq_enq mq_deq mq_inv mq_content "\<lambda>q. nat (capacity q)" mq_budget
proof
  fix q x
  assume inv: "mq_inv q"
  then have sz: "0 \<le> q_size q" "q_size q \<le> capacity q" by (simp_all add: mq_inv_def)
  show "length (mq_content q) \<le> nat (capacity q)" using sz by simp
  show "length (mq_content q) = nat (capacity q) \<Longrightarrow> mq_enq x q = None"
    using enqueue_full [OF inv, of x] sz by (simp add: mq_enq_def eq_nat_nat_iff)
  show "length (mq_content q) < nat (capacity q) \<Longrightarrow>
      \<exists>q'. mq_enq x q = Some q' \<and> mq_inv q' \<and> mq_content q' = mq_content q @ [x] \<and>
           nat (capacity q') = nat (capacity q) \<and> mq_budget q' = mq_budget q"
    using enqueue_room [OF inv, of x] sz by (fastforce simp: mq_enq_def mq_budget_def)
  show "mq_content q = [] \<Longrightarrow> mq_deq q = None"
    using dequeue_empty [of q] sz length_mq_content [of q]
    by (simp add: mq_deq_def del: length_mq_content)
  show "mq_content q \<noteq> [] \<Longrightarrow> 0 < mq_budget q \<Longrightarrow>
      \<exists>q'. mq_deq q = Some (hd (mq_content q), q') \<and> mq_inv q' \<and> mq_content q' = tl (mq_content q) \<and>
           nat (capacity q') = nat (capacity q) \<and> Suc (mq_budget q') = mq_budget q"
    using dequeue_front [OF inv] sz length_mq_content [of q]
    by (fastforce simp: mq_deq_def mq_budget_def simp del: length_mq_content)
qed

subsection \<open>Sequences of calls\<close>

lemma mq_run_refines_gen:
  "mq_inv q \<Longrightarrow> n_dequeue ops \<le> mq_budget q \<Longrightarrow>
     mq_run (Some q) ops = Inr (spec_run (nat (capacity q)) (mq_content q) ops)"
proof (induction ops arbitrary: q)
  case Nil
  then show ?case by simp
next
  case (Cons op ops)
  then have sz: "0 \<le> q_size q" "q_size q \<le> capacity q" by (simp_all add: mq_inv_def)
  show ?case
  proof (cases op)
    case (Enqueue m)
    with Cons.prems have n: "n_dequeue ops \<le> mq_budget q" by (simp add: n_dequeue_def)
    show ?thesis
    proof (cases "q_size q = capacity q")
      case True
      with Cons Enqueue n sz show ?thesis by (simp add: enqueue_full)
    next
      case False
      with sz obtain q' where q': "enqueue (Some q) m = Inr (q_size q + 1, Some q')" "mq_inv q'"
          "mq_content q' = mq_content q @ [m]" "capacity q' = capacity q" "head_idx q' = head_idx q"
        using enqueue_room [OF Cons.prems(1), of m] by auto
      with n have "n_dequeue ops \<le> mq_budget q'" by (simp add: mq_budget_def)
      from Cons.IH [OF q'(2) this] q' Enqueue False sz show ?thesis by simp
    qed
  next
    case Dequeue
    show ?thesis
    proof (cases "q_size q = 0")
      case True
      then have "mq_content q = []" by (simp add: mq_content_def)
      with True Cons Dequeue show ?thesis
        by (simp add: dequeue_empty n_dequeue_def)
    next
      case False
      with sz have ne: "0 < q_size q" by simp
      from Cons.prems Dequeue have b: "n_dequeue ops < mq_budget q" by (simp add: n_dequeue_def)
      then have "head_idx q + 1 < capacity q" by (auto simp: mq_budget_def)
      then obtain q' where q': "dequeue (Some q) = Inr (q_size q - 1, Some (hd (mq_content q)), Some q')"
          "mq_inv q'" "mq_content q' = tl (mq_content q)" "capacity q' = capacity q"
          "head_idx q' = head_idx q + 1"
        using dequeue_front [OF Cons.prems(1) ne] by auto
      with b have "n_dequeue ops \<le> mq_budget q'" by (simp add: mq_budget_def)
      moreover obtain x xs where "mq_content q = x # xs"
        using ne by (cases "mq_content q") (auto simp: mq_content_def)
      moreover from this have "int (length xs) = q_size q - 1"
        using length_mq_content [of q] by simp
      ultimately show ?thesis using Cons.IH [OF q'(2)] q' Dequeue by simp
    qed
  qed
qed

text \<open>Claim C2: the ring buffer implements a bounded queue. From a freshly created queue, every
  sequence of calls with fewer than 100 dequeues returns, call by call, what the same calls on a
  list of at most 100 messages return: an enqueue returns the new length or, when full, -1 and
  changes nothing; a dequeue delivers the oldest message and returns the remaining length or,
  when empty, -1. No call leaves the array.\<close>

theorem mq_run_refines:
  assumes "length arr = QUEUE_LEN"
    and "msg_queue_new True (Some arr) (int QUEUE_LEN) = Inr q"
    and "n_dequeue ops < QUEUE_LEN"
  shows "mq_run (Some q) ops = Inr (spec_run QUEUE_LEN [] ops)"
proof -
  have q: "mq_inv q" "mq_content q = []" "capacity q = int QUEUE_LEN" "head_idx q = 0"
    using mq_inv_new [OF assms(1,2)] by auto
  with assms(3) have "n_dequeue ops \<le> mq_budget q" by (simp add: mq_budget_def)
  from mq_run_refines_gen [OF q(1) this] q show ?thesis by simp
qed

theorem mq_run_refines_witness:
  "mq_run (Some \<lparr>head_idx = 0, tail_idx = 0, q_size = 0, capacity = 100,
      msg_array = Some (replicate 100 \<lparr>byte_low = 0, byte_high = 0\<rparr>)\<rparr>)
     [Enqueue \<lparr>byte_low = 1, byte_high = 2\<rparr>, Enqueue \<lparr>byte_low = 3, byte_high = 4\<rparr>, Dequeue, Dequeue, Dequeue]
   = Inr [(1, None), (2, None), (1, Some \<lparr>byte_low = 1, byte_high = 2\<rparr>),
          (0, Some \<lparr>byte_low = 3, byte_high = 4\<rparr>), (- 1, None)]"
  using mq_run_refines [of "replicate 100 \<lparr>byte_low = 0, byte_high = 0\<rparr>"
      "\<lparr>head_idx = 0, tail_idx = 0, q_size = 0, capacity = 100,
      msg_array = Some (replicate 100 \<lparr>byte_low = 0, byte_high = 0\<rparr>)\<rparr>"
      "[Enqueue \<lparr>byte_low = 1, byte_high = 2\<rparr>, Enqueue \<lparr>byte_low = 3, byte_high = 4\<rparr>, Dequeue, Dequeue, Dequeue]"]
  by (simp add: QUEUE_LEN_def msg_queue_new_def n_dequeue_def)

lemma ping_pong_out_of_bounds:
  "mq_inv q \<Longrightarrow> q_size q = 0 \<Longrightarrow>
     mq_run (Some q) (concat (map (\<lambda>m. [Enqueue m, Dequeue]) ms)) = Inl Out_of_bounds
       \<longleftrightarrow> mq_budget q < length ms"
proof (induction ms arbitrary: q)
  case Nil
  then show ?case by simp
next
  case (Cons m ms)
  then have cap: "0 < capacity q" and hd: "head_idx q < capacity q" by (simp_all add: mq_inv_def)
  with Cons.prems obtain q1 where q1: "enqueue (Some q) m = Inr (1, Some q1)" "mq_inv q1"
      "capacity q1 = capacity q" "head_idx q1 = head_idx q" "q_size q1 = 1"
    using enqueue_room [OF Cons.prems(1), of m] by auto
  show ?case
  proof (cases "head_idx q + 1 < capacity q")
    case True
    with q1 obtain x q2 where q2: "dequeue (Some q1) = Inr (0, Some x, Some q2)" "mq_inv q2"
        "capacity q2 = capacity q" "head_idx q2 = head_idx q + 1" "q_size q2 = 0"
      using dequeue_front [OF q1(2)] by auto
    from Cons.IH [OF q2(2,5)] q1 q2 True show ?thesis
      by (auto simp: mq_budget_def c_bind_def split: sum.splits)
  next
    case False
    with hd q1 have "dequeue (Some q1) = Inl Out_of_bounds"
      using dequeue_last_slot [OF q1(2)] by simp
    with q1 False show ?thesis by (simp add: mq_budget_def)
  qed
qed

text \<open>Claim C33: \<open>dequeue\<close> reads \<open>msg_array[head_idx + 1]\<close> without reducing the index modulo the
  capacity, so a queue serves 99 dequeues in its life: when messages arrive and are taken one by
  one on a fresh queue, the run reads past the array exactly when there are 100 or more of them.\<close>

theorem dequeue_leaves_array:
  assumes "length arr = QUEUE_LEN"
    and "msg_queue_new True (Some arr) (int QUEUE_LEN) = Inr q"
  shows "mq_run (Some q) (concat (map (\<lambda>m. [Enqueue m, Dequeue]) ms)) = Inl Out_of_bounds
           \<longleftrightarrow> QUEUE_LEN \<le> length ms"
proof -
  have q: "mq_inv q" "capacity q = int QUEUE_LEN" "head_idx q = 0" "q_size q = 0"
    using mq_inv_new [OF assms] assms(2) by (auto simp: msg_queue_new_def)
  then have "mq_budget q = QUEUE_LEN - 1" by (simp add: mq_budget_def nat_diff_distrib)
  with ping_pong_out_of_bounds [OF q(1,4), of ms] show ?thesis by (auto simp: QUEUE_LEN_def)
qed

theorem dequeue_leaves_array_witness:
  "mq_run (Some \<lparr>head_idx = 0, tail_idx = 0, q_size = 0, capacity = 100,
      msg_array = Some (replicate 100 \<lparr>byte_low = 0, byte_high = 0\<rparr>)\<rparr>)
     (concat (map (\<lambda>m. [Enqueue m, Dequeue]) (replicate 100 \<lparr>byte_low = 7, byte_high = 1\<rparr>)))
   = Inl Out_of_bounds"
  using dequeue_leaves_array [of "replicate 100 \<lparr>byte_low = 0, byte_high = 0\<rparr>"
      "\<lparr>head_idx = 0, tail_idx = 0, q_size = 0, capacity = 100,
      msg_array = Some (replicate 100 \<lparr>byte_low = 0, byte_high = 0\<rparr>)\<rparr>"
      "replicate 100 \<lparr>byte_low = 7, byte_high = 1\<rparr>"]
  by (simp add: QUEUE_LEN_def msg_queue_new_def)

end
