(* ===== verification/Ir_Dev.thy ===== *)
theory Ir_Dev
  imports Msg_Queue
begin

unbundle bit_operations_syntax

section \<open>The infrared character device (ECEN749/lab8/src/ir\_dev.c, devtest.c)\<close>

text \<open>
  The kernel module: its static variables are the record \<open>ir_dev\<close>, one definition per file
  operation and one for the interrupt handler. What the kernel and the hardware answer is an
  argument: whether \<open>down_interruptible\<close> was interrupted, the result of \<open>request_irq\<close> and
  \<open>register_chrdev\<close>, the outcomes of \<open>kmalloc\<close>, the value of the demodulator's data register and
  the successive values of its control register. \<open>device_open\<close> is composed of the three
  stretches of its body that other processes and interrupts can come between; the theory
  \<open>Ir_Race\<close> interleaves them.

  \<open>hw_log\<close> records the writes to the device registers, \<open>klog\<close> the interrupt lines of the kernel
  log, and \<open>live_msgs\<close> counts the message objects allocated and not freed.
\<close>

datatype qptr = Q_null | Q_live msg_queue | Q_freed

record ir_dev =
  Major :: int
  Device_Open :: int
  sem :: int
  virt_mapped :: bool
  chrdev_registered :: bool
  irq_on :: bool
  use_count :: int
  interrupt_counter :: int
  msg_queue_Ptr :: qptr
  live_msgs :: nat
  hw_log :: "(nat \<times> 16 word) list"
  klog :: "(int \<times> 32 word) list"

text \<open>The module's statics before it is loaded.\<close>

definition ir_dev_static :: ir_dev where
  "ir_dev_static =
     \<lparr>Major = 0, Device_Open = 0, sem = 0, virt_mapped = False, chrdev_registered = False,
      irq_on = False, use_count = 0, interrupt_counter = 0, msg_queue_Ptr = Q_null,
      live_msgs = 0, hw_log = [], klog = []\<rparr>"

definition EBUSY :: int where "EBUSY = 16"
definition EINVAL :: int where "EINVAL = 22"
definition ERESTARTSYS :: int where "ERESTARTSYS = 512"

definition ir_my_init :: "int \<Rightarrow> ir_dev \<Rightarrow> int \<times> ir_dev" where
  "ir_my_init register_ret s =
     (let s1 = s\<lparr>virt_mapped := True, sem := 1, Major := register_ret\<rparr>
      in if Major s1 < 0 then (Major s1, s1)
         else (0, s1\<lparr>chrdev_registered := True\<rparr>))"

definition ir_my_cleanup :: "ir_dev \<Rightarrow> ir_dev" where
  "ir_my_cleanup s = s\<lparr>chrdev_registered := False, virt_mapped := False\<rparr>"

text \<open>Lines 81 to 91, with the semaphore held.\<close>

definition ir_open_check :: "ir_dev \<Rightarrow> int option \<times> ir_dev" where
  "ir_open_check s =
     (if Device_Open s \<noteq> 0 then (Some (- EBUSY), s\<lparr>sem := sem s + 1\<rparr>)
      else (None, s\<lparr>Device_Open := Device_Open s + 1, sem := sem s + 1\<rparr>))"

text \<open>Lines 93 to 103.\<close>

definition ir_open_irq :: "int \<Rightarrow> ir_dev \<Rightarrow> int option \<times> ir_dev" where
  "ir_open_irq irq_ret s =
     (if irq_ret < 0 then (Some irq_ret, s)
      else (None, s\<lparr>irq_on := True, use_count := use_count s + 1\<rparr>))"

text \<open>Lines 105 and 106.\<close>

definition ir_open_queue :: "bool \<Rightarrow> ir_msg list option \<Rightarrow> ir_dev \<Rightarrow> ir_dev c_result" where
  "ir_open_queue kmalloc_ok arr s =
     c_bind (msg_queue_new kmalloc_ok arr (int QUEUE_LEN)) (\<lambda>q. Inr (s\<lparr>msg_queue_Ptr := Q_live q\<rparr>))"

record open_env =
  down_interrupted :: bool
  irq_ret :: int
  queue_kmalloc :: bool
  array_kmalloc :: "ir_msg list option"

definition ir_device_open :: "open_env \<Rightarrow> ir_dev \<Rightarrow> (int \<times> ir_dev) c_result" where
  "ir_device_open e s =
     (if down_interrupted e then Inr (- ERESTARTSYS, s)
      else case ir_open_check (s\<lparr>sem := sem s - 1\<rparr>) of
        (Some r, s1) \<Rightarrow> Inr (r, s1)
      | (None, s1) \<Rightarrow>
          (case ir_open_irq (irq_ret e) s1 of
             (Some r, s2) \<Rightarrow> Inr (r, s2)
           | (None, s2) \<Rightarrow>
               c_bind (ir_open_queue (queue_kmalloc e) (array_kmalloc e) s2) (\<lambda>s3. Inr (0, s3))))"

text \<open>\<open>msg_queue_destroy(msg_queue_Ptr)\<close>: the pointer keeps its value and dangles.\<close>

definition ir_queue_destroy :: "ir_dev \<Rightarrow> ir_dev c_result" where
  "ir_queue_destroy s =
     (case msg_queue_Ptr s of
        Q_null \<Rightarrow> Inr s
      | Q_live q \<Rightarrow>
          Inr (s\<lparr>msg_queue_Ptr := (if Kfree_queue \<in> set (msg_queue_destroy (Some q)) then Q_freed else Q_live q)\<rparr>)
      | Q_freed \<Rightarrow> Inl Use_after_free)"

definition ir_device_release :: "ir_dev \<Rightarrow> (int \<times> ir_dev) c_result" where
  "ir_device_release s =
     (let s1 = s\<lparr>Device_Open := Device_Open s - 1\<rparr>;
          s2 = s1\<lparr>irq_on := False\<rparr>
      in c_bind (ir_queue_destroy s2) (\<lambda>s3. Inr (0, s3\<lparr>use_count := use_count s3 - 1\<rparr>)))"

text \<open>
  The loop of \<open>device_read\<close>. The result is the bytes stored with \<open>put_user\<close> at consecutive user
  addresses, the number of rounds (\<open>bytes_read\<close>) and the queue.
\<close>

fun ir_read_loop :: "nat \<Rightarrow> msg_queue option \<Rightarrow> (byte list \<times> int \<times> msg_queue option) c_result" where
  "ir_read_loop 0 p = Inr ([], 0, p)"
| "ir_read_loop (Suc len) p =
     c_bind (dequeue p) (\<lambda>(r, m, p').
       if r \<ge> 0 then
         (case m of None \<Rightarrow> Inl Uninitialised
          | Some temp_msg \<Rightarrow>
              c_bind (ir_read_loop len p') (\<lambda>(bs, k, p'').
                Inr (byte_low temp_msg # byte_high temp_msg # bs, k + 1, p'')))
       else Inr ([], 0, p'))"

definition ir_device_read :: "nat \<Rightarrow> ir_dev \<Rightarrow> (int \<times> byte list \<times> ir_dev) c_result" where
  "ir_device_read len s =
     (case msg_queue_Ptr s of
        Q_null \<Rightarrow> c_bind (ir_read_loop len None) (\<lambda>(bs, k, _). Inr (k, bs, s))
      | Q_freed \<Rightarrow> if len = 0 then Inr (0, [], s) else Inl Use_after_free
      | Q_live q \<Rightarrow>
          c_bind (ir_read_loop len (Some q)) (\<lambda>(bs, k, p).
            (case p of None \<Rightarrow> Inr (k, bs, s)
             | Some q' \<Rightarrow> Inr (k, bs, s\<lparr>msg_queue_Ptr := Q_live q'\<rparr>))))"

definition ir_device_write :: "ir_dev \<Rightarrow> int \<times> ir_dev" where
  "ir_device_write s = (- EINVAL, s)"

text \<open>
  \<open>while (ioread32(virt_addr + 8) & 0x8000);\<close>: \<open>ctrl k\<close> is the value of the \<open>k\<close>-th read, the
  result the number of reads that found the bit set; \<open>None\<close> if the bit never clears.
\<close>

partial_function (option) ir_poll :: "(nat \<Rightarrow> 32 word) \<Rightarrow> nat \<Rightarrow> nat option" where
  "ir_poll ctrl k = (if ctrl k AND 0x8000 = 0 then Some k else ir_poll ctrl (Suc k))"

definition ir_enqueue_ptr :: "qptr \<Rightarrow> ir_msg \<Rightarrow> qptr c_result" where
  "ir_enqueue_ptr p m =
     (case p of
        Q_null \<Rightarrow> c_bind (enqueue None m) (\<lambda>_. Inr Q_null)
      | Q_live q \<Rightarrow>
          c_bind (enqueue (Some q) m) (\<lambda>(_, p'). Inr (case p' of None \<Rightarrow> Q_null | Some q' \<Rightarrow> Q_live q'))
      | Q_freed \<Rightarrow> Inl Use_after_free)"

text \<open>Lines 199 to 204: the register is read, decoded and queued.\<close>

definition ir_irq_store :: "bool \<Rightarrow> 32 word \<Rightarrow> ir_dev \<Rightarrow> ir_dev c_result" where
  "ir_irq_store kmalloc_ok raw_data s =
     (let s1 = s\<lparr>interrupt_counter := interrupt_counter s + 1\<rparr>
      in c_bind (ir_msg_new kmalloc_ok (ucast (signed_drop_bit 8 raw_data AND 0xff)) (ucast (raw_data AND 0xff)))
           (\<lambda>m. c_bind (ir_enqueue_ptr (msg_queue_Ptr s1) m)
              (\<lambda>p. Inr (s1\<lparr>msg_queue_Ptr := p, live_msgs := live_msgs s1 + 1,
                           klog := klog s1 @ [(interrupt_counter s1, raw_data)]\<rparr>))))"

definition ir_irq_handler ::
    "bool \<Rightarrow> 32 word \<Rightarrow> (nat \<Rightarrow> 32 word) \<Rightarrow> ir_dev \<Rightarrow> ir_dev c_result option" where
  "ir_irq_handler kmalloc_ok raw_data ctrl s =
     (case ir_irq_store kmalloc_ok raw_data s of
        Inl u \<Rightarrow> Some (Inl u)
      | Inr s1 \<Rightarrow>
          (case ir_poll ctrl 0 of
             None \<Rightarrow> None
           | Some _ \<Rightarrow> Some (Inr (s1\<lparr>hw_log := hw_log s1 @ [(8, 1), (8, 0)]\<rparr>))))"

text \<open>
  One round of the test program's loop (devtest.c, lines 29 to 38) for a positive number of
  messages: the 200-byte buffer is filled by the driver, read as little-endian 16-bit values, and
  the low 12 bits of each are printed.
\<close>

definition ir_rd_buf_size :: nat where
  "ir_rd_buf_size = 200"

definition le16 :: "byte \<Rightarrow> byte \<Rightarrow> 16 word" where
  "le16 lo hi = ucast lo OR push_bit 8 (ucast hi)"

definition ir_devtest_msg :: "byte list \<Rightarrow> nat \<Rightarrow> 16 word c_result" where
  "ir_devtest_msg buf i =
     (if 2 * i + 1 < length buf then Inr (le16 (buf ! (2 * i)) (buf ! (2 * i + 1)) AND 0xfff)
      else Inl Out_of_bounds)"

fun ir_devtest_print :: "byte list \<Rightarrow> nat list \<Rightarrow> 16 word list c_result" where
  "ir_devtest_print buf [] = Inr []"
| "ir_devtest_print buf (i # is) =
     c_bind (ir_devtest_msg buf i) (\<lambda>d. c_bind (ir_devtest_print buf is) (\<lambda>ds. Inr (d # ds)))"

definition ir_devtest_round ::
    "nat \<Rightarrow> byte list \<Rightarrow> ir_dev \<Rightarrow> (16 word list \<times> byte list \<times> ir_dev) c_result" where
  "ir_devtest_round input_num rd_buf s =
     (if input_num = 0 then Inr ([], rd_buf, s)
      else c_bind (ir_device_read input_num s) (\<lambda>(buf_read_len, bs, s').
        c_bind (buf_write 0 bs rd_buf) (\<lambda>rd_buf'.
          c_bind (ir_devtest_print rd_buf' [0..<nat buf_read_len]) (\<lambda>out.
            Inr (out, rd_buf', s')))))"

text \<open>A burst of interrupts, one register value each, with the same behaviour of the control register.\<close>

fun ir_irqs :: "(nat \<Rightarrow> 32 word) \<Rightarrow> 32 word list \<Rightarrow> ir_dev \<Rightarrow> ir_dev c_result option" where
  "ir_irqs ctrl [] s = Some (Inr s)"
| "ir_irqs ctrl (raw # raws) s =
     (case ir_irq_handler True raw ctrl s of
        None \<Rightarrow> None
      | Some (Inl u) \<Rightarrow> Some (Inl u)
      | Some (Inr s') \<Rightarrow> ir_irqs ctrl raws s')"

definition ir_decode :: "32 word \<Rightarrow> ir_msg" where
  "ir_decode raw = \<lparr>byte_low = ucast (raw AND 0xff), byte_high = ucast (signed_drop_bit 8 raw AND 0xff)\<rparr>"

subsection \<open>The interrupt handler\<close>

lemma ir_poll_reaches: "ctrl (k + d) AND 0x8000 = 0 \<Longrightarrow> \<exists>r. ir_poll ctrl k = Some r"
proof (induction d arbitrary: k)
  case 0
  then show ?case by (subst ir_poll.simps) simp
next
  case (Suc d)
  then show ?case using Suc.IH [of "Suc k"] by (subst ir_poll.simps) simp
qed

lemma ir_poll_stops:
  assumes "ir_poll ctrl k = Some r"
  shows "ctrl r AND 0x8000 = 0"
proof (rule ir_poll.raw_induct [where P = "\<lambda>ctrl k r. ctrl r AND 0x8000 = 0", OF _ assms])
  fix f :: "(nat \<Rightarrow> 32 word) \<Rightarrow> nat \<Rightarrow> nat option" and ctrl k r
  assume "\<And>ctrl k r. f ctrl k = Some r \<Longrightarrow> ctrl r AND 0x8000 = 0"
    and "(if ctrl k AND 0x8000 = 0 then Some k else f ctrl (Suc k)) = Some r"
  then show "ctrl r AND 0x8000 = 0" by (auto split: if_splits)
qed

lemma ir_poll_iff: "ir_poll ctrl 0 \<noteq> None \<longleftrightarrow> (\<exists>k. ctrl k AND 0x8000 = 0)"
  using ir_poll_reaches [of ctrl 0] ir_poll_stops [of ctrl 0] by auto

lemma ir_irq_handler_live:
  assumes "msg_queue_Ptr s = Q_live q" and "mq_inv q" and "q_size q < capacity q"
    and "ir_poll ctrl 0 \<noteq> None"
  shows "\<exists>s' q'. ir_irq_handler True raw ctrl s = Some (Inr s') \<and> msg_queue_Ptr s' = Q_live q' \<and>
           mq_inv q' \<and> mq_content q' = mq_content q @ [ir_decode raw] \<and>
           capacity q' = capacity q \<and> mq_budget q' = mq_budget q \<and>
           live_msgs s' = live_msgs s + 1"
  using enqueue_room [OF assms(2,3), of "ir_decode raw"] assms
  by (auto simp: ir_irq_handler_def ir_irq_store_def ir_msg_new_def ir_enqueue_ptr_def
      ir_decode_def mq_budget_def)

lemma ir_irqs_content:
  assumes "msg_queue_Ptr s = Q_live q" and "mq_inv q"
    and "length (mq_content q) + length raws \<le> nat (capacity q)" and "ir_poll ctrl 0 \<noteq> None"
  shows "\<exists>s' q'. ir_irqs ctrl raws s = Some (Inr s') \<and> msg_queue_Ptr s' = Q_live q' \<and>
           mq_inv q' \<and> mq_content q' = mq_content q @ map ir_decode raws \<and>
           capacity q' = capacity q \<and> mq_budget q' = mq_budget q \<and> live_msgs s' = live_msgs s + length raws"
  using assms
proof (induction raws arbitrary: s q)
  case Nil
  then show ?case by auto
next
  case (Cons raw raws)
  then have "q_size q < capacity q" by auto
  then obtain s1 q1 where 1: "ir_irq_handler True raw ctrl s = Some (Inr s1)" "msg_queue_Ptr s1 = Q_live q1"
      "mq_inv q1" "mq_content q1 = mq_content q @ [ir_decode raw]" "capacity q1 = capacity q"
      "mq_budget q1 = mq_budget q" "live_msgs s1 = live_msgs s + 1"
    using ir_irq_handler_live [OF Cons.prems(1,2) _ Cons.prems(4), of raw] by metis
  with Cons.prems have "length (mq_content q1) + length raws \<le> nat (capacity q1)" by simp
  from Cons.IH [OF 1(2,3) this Cons.prems(4)] 1 show ?case by auto
qed

subsection \<open>Reading\<close>

definition msg_bytes :: "ir_msg \<Rightarrow> byte list" where
  "msg_bytes m = [byte_low m, byte_high m]"

lemma ir_read_loop_drain:
  assumes "mq_inv q" and "min len (length (mq_content q)) \<le> mq_budget q"
  shows "ir_read_loop len (Some q) =
     Inr (concat (map msg_bytes (fst (drain mq_deq len q))), int (length (fst (drain mq_deq len q))),
          Some (snd (drain mq_deq len q)))"
  using assms
proof (induction len arbitrary: q)
  case 0
  then show ?case by simp
next
  case (Suc len)
  show ?case
  proof (cases "q_size q = 0")
    case True
    then show ?thesis by (simp add: dequeue_empty mq_deq_def)
  next
    case False
    with Suc.prems have ne: "0 < q_size q" by (simp add: mq_inv_def)
    with Suc.prems(2) have b: "0 < mq_budget q" by (cases "nat (q_size q)") auto
    then have "head_idx q + 1 < capacity q" by (auto simp: mq_budget_def)
    then obtain q' where q': "dequeue (Some q) = Inr (q_size q - 1, Some (hd (mq_content q)), Some q')"
        "mq_inv q'" "mq_content q' = tl (mq_content q)" "capacity q' = capacity q"
        "head_idx q' = head_idx q + 1"
      using dequeue_front [OF Suc.prems(1) ne] by auto
    with b Suc.prems(2) have "min len (length (mq_content q')) \<le> mq_budget q'"
      by (simp add: mq_budget_def)
    from Suc.IH [OF q'(2) this] q' ne show ?thesis
      by (simp add: mq_deq_def split_beta msg_bytes_def)
  qed
qed

lemma ir_device_read_live:
  assumes "msg_queue_Ptr s = Q_live q" and "mq_inv q" and "min len (length (mq_content q)) \<le> mq_budget q"
  shows "\<exists>q'. ir_device_read len s =
           Inr (int (min len (length (mq_content q))), concat (map msg_bytes (take len (mq_content q))),
                s\<lparr>msg_queue_Ptr := Q_live q'\<rparr>) \<and>
         mq_inv q' \<and> mq_content q' = drop len (mq_content q) \<and> nat (capacity q') = nat (capacity q) \<and>
         mq_budget q' + min len (length (mq_content q)) = mq_budget q"
  using mq.drain_content [OF assms(2,3)] ir_read_loop_drain [OF assms(2,3)] assms(1)
  by (auto simp: ir_device_read_def min.commute)

lemma length_concat_msg_bytes [simp]: "length (concat (map msg_bytes ms)) = 2 * length ms"
  by (induction ms) (simp_all add: msg_bytes_def)

lemma nth_concat_msg_bytes:
  "i < length ms \<Longrightarrow> concat (map msg_bytes ms) ! (2 * i) = byte_low (ms ! i) \<and>
     concat (map msg_bytes ms) ! (2 * i + 1) = byte_high (ms ! i)"
proof (induction ms arbitrary: i)
  case Nil
  then show ?case by simp
next
  case (Cons m ms)
  then show ?case by (cases i) (simp_all add: msg_bytes_def)
qed

lemma le16_decode: "le16 (byte_low (ir_decode raw)) (byte_high (ir_decode raw)) AND 0xfff = ucast (raw AND 0xfff)"
  by (rule bit_word_eqI)
     (auto simp: le16_def ir_decode_def bit_simps)

subsection \<open>The driver's contract\<close>

lemma ir_device_open_ok:
  assumes "Device_Open s = 0" and "\<not> down_interrupted e" and "0 \<le> irq_ret e"
    and "queue_kmalloc e" and "array_kmalloc e = Some arr" and "length arr = QUEUE_LEN"
  shows "\<exists>s' q. ir_device_open e s = Inr (0, s') \<and> msg_queue_Ptr s' = Q_live q \<and> mq_inv q \<and>
           mq_content q = [] \<and> capacity q = int QUEUE_LEN \<and> mq_budget q = QUEUE_LEN - 1 \<and>
           Device_Open s' = 1 \<and> sem s' = sem s \<and> irq_on s'"
proof -
  obtain q where q: "msg_queue_new True (Some arr) (int QUEUE_LEN) = Inr q"
    by (simp add: msg_queue_new_def)
  with mq_inv_new [OF assms(6) q] assms show ?thesis
    by (auto simp: ir_device_open_def ir_open_check_def ir_open_irq_def ir_open_queue_def
        mq_budget_def nat_diff_distrib)
qed

lemma ir_devtest_print_map:
  "(\<And>i. i \<in> set is \<Longrightarrow> ir_devtest_msg buf i = Inr (f i)) \<Longrightarrow> ir_devtest_print buf is = Inr (map f is)"
  by (induction "is") simp_all

lemma ir_devtest_print_decoded:
  assumes "2 * length raws \<le> length buf"
  shows "ir_devtest_print (concat (map msg_bytes (map ir_decode raws)) @ drop (2 * length raws) buf) [0..<length raws]
           = Inr (map (\<lambda>raw. ucast (raw AND 0xfff)) raws)"
proof -
  let ?buf = "concat (map msg_bytes (map ir_decode raws)) @ drop (2 * length raws) buf"
  have len: "length (concat (map msg_bytes (map ir_decode raws))) = 2 * length raws"
    by (simp only: length_concat_msg_bytes length_map)
  have "ir_devtest_msg ?buf i = Inr (ucast (raws ! i AND 0xfff))" if "i \<in> set [0..<length raws]" for i
    using that len nth_concat_msg_bytes [of i "map ir_decode raws"]
    by (simp add: ir_devtest_msg_def nth_append le16_decode del: length_concat_msg_bytes map_map)
  from ir_devtest_print_map [of "[0..<length raws]" ?buf "\<lambda>i. ucast (raws ! i AND 0xfff)", OF this]
  show ?thesis by (simp only: map_upt_nth [of "\<lambda>raw. ucast (raw AND 0xfff)"])
qed

text \<open>What the infrared receiver delivers reaches the user. After a successful open, a
  burst of at most 99 interrupts followed by one round of the test program that asks for at least
  as many messages prints the low twelve bits of every register value, in the order of the
  interrupts, and no step of the driver or of the program leaves a buffer.\<close>

theorem ir_end_to_end:
  assumes "Device_Open s = 0" and "\<not> down_interrupted e" and "0 \<le> irq_ret e"
    and "queue_kmalloc e" and "array_kmalloc e = Some arr" and "length arr = QUEUE_LEN"
    and "\<exists>k. ctrl k AND 0x8000 = 0"
    and "length raws < QUEUE_LEN" and "length raws \<le> n" and "0 < n"
    and "length rd_buf = ir_rd_buf_size"
  shows "\<exists>s1 s2 buf s3. ir_device_open e s = Inr (0, s1) \<and> ir_irqs ctrl raws s1 = Some (Inr s2) \<and>
           ir_devtest_round n rd_buf s2 = Inr (map (\<lambda>raw. ucast (raw AND 0xfff)) raws, buf, s3)"
proof -
  obtain s1 q1 where 1: "ir_device_open e s = Inr (0, s1)" "msg_queue_Ptr s1 = Q_live q1" "mq_inv q1"
      "mq_content q1 = []" "capacity q1 = int QUEUE_LEN" "mq_budget q1 = QUEUE_LEN - 1"
    using ir_device_open_ok [OF assms(1-6)] by auto
  with assms(8) have "length (mq_content q1) + length raws \<le> nat (capacity q1)" by simp
  moreover have "ir_poll ctrl 0 \<noteq> None" using assms(7) by (simp only: ir_poll_iff)
  ultimately obtain s2 q2 where 2: "ir_irqs ctrl raws s1 = Some (Inr s2)" "msg_queue_Ptr s2 = Q_live q2"
      "mq_inv q2" "mq_content q2 = map ir_decode raws" "mq_budget q2 = QUEUE_LEN - 1"
    using ir_irqs_content [OF 1(2,3)] 1(4,6) by fastforce
  have "min n (length (mq_content q2)) \<le> mq_budget q2" using assms(8) 2(4,5) by simp
  then obtain q3 where 3: "ir_device_read n s2 = Inr (int (length raws),
      concat (map msg_bytes (map ir_decode raws)), s2\<lparr>msg_queue_Ptr := Q_live q3\<rparr>)"
    using ir_device_read_live [OF 2(2,3), of n] assms(9) by (auto simp: 2(4) simp del: map_map)
  have fits: "2 * length raws \<le> length rd_buf"
    using assms(8,11) by (simp add: QUEUE_LEN_def ir_rd_buf_size_def)
  let ?buf = "concat (map msg_bytes (map ir_decode raws)) @ drop (2 * length raws) rd_buf"
  have "buf_write 0 (concat (map msg_bytes (map ir_decode raws))) rd_buf = Inr ?buf"
    using fits by (simp only: buf_write_def length_concat_msg_bytes length_map) simp
  then have "ir_devtest_round n rd_buf s2 =
      Inr (map (\<lambda>raw. ucast (raw AND 0xfff)) raws, ?buf, s2\<lparr>msg_queue_Ptr := Q_live q3\<rparr>)"
    using 3 assms(10) ir_devtest_print_decoded [OF fits] by (simp add: ir_devtest_round_def del: map_map)
  with 1 2 show ?thesis by blast
qed

definition ir_open_env_ok :: open_env where
  "ir_open_env_ok = \<lparr>down_interrupted = False, irq_ret = 0, queue_kmalloc = True,
     array_kmalloc = Some (replicate 100 \<lparr>byte_low = 0, byte_high = 0\<rparr>)\<rparr>"

theorem ir_end_to_end_witness:
  "\<exists>s1 s2 buf s3. ir_device_open ir_open_env_ok ir_dev_static = Inr (0, s1) \<and>
     ir_irqs (\<lambda>k. if k < 3 then 0x8000 else 0) [0x12345, 0xC90] s1 = Some (Inr s2) \<and>
     ir_devtest_round 5 (replicate 200 0) s2 = Inr ([0x345, 0xC90], buf, s3)"
proof -
  have "\<exists>k::nat. (if k < 3 then 0x8000 else 0 :: 32 word) AND 0x8000 = 0"
    by (rule exI [of _ 3]) simp
  then show ?thesis
    using ir_end_to_end [of ir_dev_static ir_open_env_ok "replicate 100 \<lparr>byte_low = 0, byte_high = 0\<rparr>"
      "\<lambda>k. if k < 3 then 0x8000 else 0" "[0x12345, 0xC90]" 5 "replicate 200 0"]
    by (simp add: ir_dev_static_def ir_open_env_ok_def QUEUE_LEN_def ir_rd_buf_size_def)
qed

text \<open>\<open>device_read\<close> takes its argument \<open>length\<close>, which the caller gives in bytes, as a
  number of two-byte messages. On a queue that holds at least \<open>length\<close> messages it returns
  \<open>length\<close> and stores the oldest \<open>length\<close> messages, low byte first, which are twice as many bytes as
  the caller's buffer was said to hold; the rest of the queue stays in order.\<close>

theorem ir_device_read_overrun:
  assumes "msg_queue_Ptr s = Q_live q" and "mq_inv q" and "len \<le> length (mq_content q)"
    and "len \<le> mq_budget q"
  shows "\<exists>bs q'. ir_device_read len s = Inr (int len, bs, s\<lparr>msg_queue_Ptr := Q_live q'\<rparr>) \<and>
           bs = concat (map msg_bytes (take len (mq_content q))) \<and> length bs = 2 * len \<and>
           mq_inv q' \<and> mq_content q' = drop len (mq_content q)"
proof -
  have "min len (length (mq_content q)) \<le> mq_budget q" using assms(3,4) by simp
  from ir_device_read_live [OF assms(1,2) this] obtain q' where
    "ir_device_read len s = Inr (int len, concat (map msg_bytes (take len (mq_content q))),
       s\<lparr>msg_queue_Ptr := Q_live q'\<rparr>)" "mq_inv q'" "mq_content q' = drop len (mq_content q)"
    using assms(3) by (auto simp: min_absorb1)
  moreover have "length (concat (map msg_bytes (take len (mq_content q)))) = 2 * len"
    using assms(3) by (simp del: length_mq_content)
  ultimately show ?thesis by blast
qed

theorem ir_device_read_overrun_witness:
  "\<exists>bs q'. ir_device_read 1 (ir_dev_static\<lparr>msg_queue_Ptr := Q_live \<lparr>head_idx = 0, tail_idx = 1, q_size = 1,
      capacity = 2, msg_array = Some [\<lparr>byte_low = 0, byte_high = 0\<rparr>, \<lparr>byte_low = 5, byte_high = 6\<rparr>]\<rparr>\<rparr>) =
      Inr (1, bs, ir_dev_static\<lparr>msg_queue_Ptr := Q_live q'\<rparr>) \<and> length bs = 2"
  using ir_device_read_overrun [of "ir_dev_static\<lparr>msg_queue_Ptr := Q_live \<lparr>head_idx = 0, tail_idx = 1, q_size = 1,
      capacity = 2, msg_array = Some [\<lparr>byte_low = 0, byte_high = 0\<rparr>, \<lparr>byte_low = 5, byte_high = 6\<rparr>]\<rparr>\<rparr>"
      "\<lparr>head_idx = 0, tail_idx = 1, q_size = 1,
      capacity = 2, msg_array = Some [\<lparr>byte_low = 0, byte_high = 0\<rparr>, \<lparr>byte_low = 5, byte_high = 6\<rparr>]\<rparr>" 1]
  by (auto simp: mq_inv_def mq_content_def mq_budget_def)

text \<open>The interrupt handler returns exactly when the control register's bit 15 is clear in
  some read: with a message object allocated and a queue that is not dangling, it finishes if and
  only if the polling loop finds the bit clear.\<close>

theorem ir_irq_handler_returns:
  assumes "msg_queue_Ptr s = Q_live q" and "mq_inv q"
  shows "(\<exists>s'. ir_irq_handler True raw ctrl s = Some (Inr s')) \<longleftrightarrow> (\<exists>k. ctrl k AND 0x8000 = 0)"
proof -
  have "\<exists>s1. ir_irq_store True raw s = Inr s1"
  proof (cases "q_size q = capacity q")
    case True
    then show ?thesis using enqueue_full [OF assms(2)] assms(1)
      by (simp add: ir_irq_store_def ir_msg_new_def ir_enqueue_ptr_def)
  next
    case False
    with assms(2) have "q_size q < capacity q" by (simp add: mq_inv_def)
    from enqueue_room [OF assms(2) this, of "ir_decode raw"] assms(1) show ?thesis
      by (auto simp: ir_irq_store_def ir_msg_new_def ir_enqueue_ptr_def ir_decode_def)
  qed
  then show ?thesis using ir_poll_iff [of ctrl] by (auto simp: ir_irq_handler_def split: option.splits)
qed

theorem ir_irq_handler_returns_witness:
  "\<exists>s'. ir_irq_handler True 0xABC (\<lambda>k. 0) (ir_dev_static\<lparr>msg_queue_Ptr := Q_live \<lparr>head_idx = 0,
      tail_idx = 0, q_size = 0, capacity = 1, msg_array = Some [\<lparr>byte_low = 0, byte_high = 0\<rparr>]\<rparr>\<rparr>) = Some (Inr s')"
  using ir_irq_handler_returns [of "ir_dev_static\<lparr>msg_queue_Ptr := Q_live \<lparr>head_idx = 0,
      tail_idx = 0, q_size = 0, capacity = 1, msg_array = Some [\<lparr>byte_low = 0, byte_high = 0\<rparr>]\<rparr>\<rparr>"
      "\<lparr>head_idx = 0, tail_idx = 0, q_size = 0, capacity = 1, msg_array = Some [\<lparr>byte_low = 0, byte_high = 0\<rparr>]\<rparr>"
      "0xABC" "\<lambda>k. 0"]
  by (simp add: mq_inv_def)

text \<open>When \<open>request_irq\<close> fails, \<open>device_open\<close> reports the error but leaves \<open>Device_Open\<close>
  set, so the device is lost: every later open that is not interrupted is refused with \<open>-EBUSY\<close> and
  leaves the driver as it is.\<close>

theorem ir_open_failure_sticks:
  assumes "Device_Open s = 0" and "\<not> down_interrupted e" and "irq_ret e < 0"
    and "\<not> down_interrupted e'"
  shows "\<exists>s'. ir_device_open e s = Inr (irq_ret e, s') \<and> ir_device_open e' s' = Inr (- EBUSY, s')"
  using assms by (auto simp: ir_device_open_def ir_open_check_def ir_open_irq_def)

theorem ir_open_failure_sticks_witness:
  "\<exists>s'. ir_device_open (ir_open_env_ok\<lparr>irq_ret := - 16\<rparr>) ir_dev_static = Inr (- 16, s') \<and>
        ir_device_open ir_open_env_ok s' = Inr (- EBUSY, s')"
  using ir_open_failure_sticks [of ir_dev_static "ir_open_env_ok\<lparr>irq_ret := - 16\<rparr>" ir_open_env_ok]
  by (simp add: ir_dev_static_def ir_open_env_ok_def)

end
