(* ===== verification/Ir_Race.thy ===== *)
theory Ir_Race
  imports Ir_Dev
begin

section \<open>Concurrent opens, closes and interrupts of the infrared device\<close>

text \<open>
  The file operations of \<open>ir_dev.c\<close> run in the context of whichever process calls them, and
  interrupts arrive at any time. Here any number of processes, numbered by \<open>nat\<close>, move through the
  stretches of \<open>device_open\<close> and \<open>device_release\<close> in any order; between two stretches any other
  process or the interrupt handler may run. A step is one stretch of one process, made of the
  definitions of \<open>Ir_Dev\<close>. As the kernel documents, \<open>request_irq\<close> fails while the line, which the
  driver requests without sharing, is already taken.
\<close>

datatype pc =
    Idle       \<comment> \<open>outside the driver\<close>
  | Locked     \<comment> \<open>in \<open>device_open\<close>, holding the semaphore\<close>
  | Entered    \<comment> \<open>in \<open>device_open\<close>, past the critical section\<close>
  | Irqed      \<comment> \<open>in \<open>device_open\<close>, the interrupt line requested\<close>
  | Opened     \<comment> \<open>\<open>device_open\<close> returned 0\<close>
  | Rel_count  \<comment> \<open>in \<open>device_release\<close>, \<open>Device_Open\<close> decremented\<close>
  | Rel_irq    \<comment> \<open>in \<open>device_release\<close>, the interrupt line freed\<close>

record race =
  dev :: ir_dev
  pcs :: "nat \<Rightarrow> pc"

datatype race_act =
    Act_down nat
  | Act_check nat
  | Act_irq nat int
  | Act_queue nat "ir_msg list"
  | Act_rel_count nat
  | Act_rel_irq nat
  | Act_rel_queue nat
  | Act_interrupt "32 word"

definition goto :: "nat \<Rightarrow> pc \<Rightarrow> ir_dev \<Rightarrow> race \<Rightarrow> race" where
  "goto i p d s = s\<lparr>dev := d, pcs := (pcs s)(i := p)\<rparr>"

text \<open>One stretch; \<open>None\<close> where the process is elsewhere, would block, or the step is undefined.\<close>

fun race_do :: "race_act \<Rightarrow> race \<Rightarrow> race option" where
  "race_do (Act_down i) s =
     (if pcs s i = Idle \<and> 0 < sem (dev s) then Some (goto i Locked ((dev s)\<lparr>sem := sem (dev s) - 1\<rparr>) s) else None)"
| "race_do (Act_check i) s =
     (if pcs s i = Locked
      then case ir_open_check (dev s) of (Some r, d) \<Rightarrow> Some (goto i Idle d s) | (None, d) \<Rightarrow> Some (goto i Entered d s)
      else None)"
| "race_do (Act_irq i ret) s =
     (if pcs s i = Entered \<and> (irq_on (dev s) \<longrightarrow> ret < 0)
      then case ir_open_irq ret (dev s) of (Some r, d) \<Rightarrow> Some (goto i Idle d s) | (None, d) \<Rightarrow> Some (goto i Irqed d s)
      else None)"
| "race_do (Act_queue i arr) s =
     (if pcs s i = Irqed
      then case ir_open_queue True (Some arr) (dev s) of Inl u \<Rightarrow> None | Inr d \<Rightarrow> Some (goto i Opened d s)
      else None)"
| "race_do (Act_rel_count i) s =
     (if pcs s i = Opened then Some (goto i Rel_count ((dev s)\<lparr>Device_Open := Device_Open (dev s) - 1\<rparr>) s) else None)"
| "race_do (Act_rel_irq i) s =
     (if pcs s i = Rel_count then Some (goto i Rel_irq ((dev s)\<lparr>irq_on := False\<rparr>) s) else None)"
| "race_do (Act_rel_queue i) s =
     (if pcs s i = Rel_irq
      then case ir_queue_destroy (dev s) of Inl u \<Rightarrow> None
           | Inr d \<Rightarrow> Some (goto i Idle (d\<lparr>use_count := use_count d - 1\<rparr>) s)
      else None)"
| "race_do (Act_interrupt raw) s =
     (if irq_on (dev s)
      then case ir_irq_store True raw (dev s) of Inl u \<Rightarrow> None | Inr d \<Rightarrow> Some (s\<lparr>dev := d\<rparr>)
      else None)"

definition race_init :: race where
  "race_init = \<lparr>dev = snd (ir_my_init 240 ir_dev_static), pcs = (\<lambda>_. Idle)\<rparr>"

inductive race_reach :: "race \<Rightarrow> bool" where
  start: "race_reach race_init"
| step: "race_reach s \<Longrightarrow> race_do a s = Some t \<Longrightarrow> race_reach t"

fun race_run :: "race_act list \<Rightarrow> race \<Rightarrow> race option" where
  "race_run [] s = Some s"
| "race_run (a # as) s = Option.bind (race_do a s) (race_run as)"

text \<open>
  The control skeleton: the semaphore's count, \<open>Device_Open\<close> and where every process is. It is what
  the driver's locking is about, and the driver's steps simulate it.
\<close>

type_synonym ctl_state = "int \<times> int \<times> (nat \<Rightarrow> pc)"

definition ctl_of :: "race \<Rightarrow> ctl_state" where
  "ctl_of s = (sem (dev s), Device_Open (dev s), pcs s)"

definition is_active :: "pc \<Rightarrow> bool" where
  "is_active p \<longleftrightarrow> p = Entered \<or> p = Irqed \<or> p = Opened"

inductive ctl_step :: "ctl_state \<Rightarrow> ctl_state \<Rightarrow> bool" where
  ctl_down: "f i = Idle \<Longrightarrow> 0 < m \<Longrightarrow> ctl_step (m, d, f) (m - 1, d, f(i := Locked))"
| ctl_busy: "f i = Locked \<Longrightarrow> d \<noteq> 0 \<Longrightarrow> ctl_step (m, d, f) (m + 1, d, f(i := Idle))"
| ctl_enter: "f i = Locked \<Longrightarrow> ctl_step (m, 0, f) (m + 1, 1, f(i := Entered))"
| ctl_open: "is_active (f i) \<Longrightarrow> p = Idle \<or> is_active p \<Longrightarrow> ctl_step (m, d, f) (m, d, f(i := p))"
| ctl_close: "f i = Opened \<Longrightarrow> ctl_step (m, d, f) (m, d - 1, f(i := Rel_count))"
| ctl_release: "f i = Rel_count \<or> f i = Rel_irq \<Longrightarrow> p = Rel_irq \<or> p = Idle \<Longrightarrow>
     ctl_step (m, d, f) (m, d, f(i := p))"
| ctl_stay: "ctl_step c c"

definition ctl_inv :: "ctl_state \<Rightarrow> bool" where
  "ctl_inv c \<longleftrightarrow> (case c of (m, d, f) \<Rightarrow>
     (\<forall>i. f i = Locked \<longrightarrow> m = 0) \<and> (m = 0 \<or> m = 1) \<and>
     (\<forall>i j. f i = Locked \<longrightarrow> f j = Locked \<longrightarrow> i = j) \<and>
     (d = 0 \<or> d = 1) \<and>
     (\<forall>i. is_active (f i) \<longrightarrow> d = 1) \<and>
     (\<forall>i j. is_active (f i) \<longrightarrow> is_active (f j) \<longrightarrow> i = j))"

inductive_simps ctl_step_pair: "ctl_step (m, d, f) (m', d', f')"

subsection \<open>Mutual exclusion\<close>

lemma is_active_simps [simp]:
  "is_active Entered" "is_active Irqed" "is_active Opened" "\<not> is_active Idle"
  "\<not> is_active Locked" "\<not> is_active Rel_count" "\<not> is_active Rel_irq"
  by (simp_all add: is_active_def)

lemma ctl_step_inv: "ctl_step c c' \<Longrightarrow> ctl_inv c \<Longrightarrow> ctl_inv c'"
proof (induction rule: ctl_step.induct)
  case (ctl_down f i m d)
  then show ?case by (simp add: ctl_inv_def) (metis is_active_simps)
next
  case (ctl_busy f i d m)
  then show ?case by (simp add: ctl_inv_def) (metis is_active_simps)
next
  case (ctl_enter f i m)
  then show ?case by (simp add: ctl_inv_def) (metis is_active_simps)
next
  case (ctl_open f i p m d)
  then have "p \<noteq> Locked" and "f i \<noteq> Locked" by auto
  with ctl_open show ?case by (simp add: ctl_inv_def) metis
next
  case (ctl_close f i m d)
  then show ?case by (simp add: ctl_inv_def) (metis is_active_simps)
next
  case (ctl_release f i p m d)
  then have "p \<noteq> Locked" and "\<not> is_active p" by auto
  with ctl_release show ?case by (simp add: ctl_inv_def) metis
next
  case (ctl_stay c)
  then show ?case by simp
qed

lemmas race_step_defs = goto_def ctl_of_def ir_open_check_def ir_open_irq_def ir_open_queue_def
  ir_queue_destroy_def ir_irq_store_def Let_def

text \<open>Every step of the driver is a step of the control skeleton.\<close>

lemma race_do_ctl:
  assumes "race_do a s = Some t"
  shows "ctl_step (ctl_of s) (ctl_of t)"
proof (cases a)
  case (Act_down i)
  with assms show ?thesis by (auto simp: race_step_defs intro: ctl_down split: if_splits)
next
  case (Act_check i)
  with assms show ?thesis by (auto simp: race_step_defs intro: ctl_enter ctl_busy split: if_splits)
next
  case (Act_irq i r)
  with assms show ?thesis by (auto simp: race_step_defs intro!: ctl_open split: if_splits)
next
  case (Act_queue i arr)
  with assms show ?thesis
    by (auto simp: race_step_defs c_bind_def intro!: ctl_open split: if_splits sum.splits)
next
  case (Act_rel_count i)
  with assms show ?thesis by (auto simp: race_step_defs intro: ctl_close split: if_splits)
next
  case (Act_rel_irq i)
  with assms show ?thesis by (auto simp: race_step_defs intro!: ctl_release split: if_splits)
next
  case (Act_rel_queue i)
  with assms show ?thesis
    by (auto simp: race_step_defs intro!: ctl_release split: if_splits qptr.splits)
next
  case (Act_interrupt raw)
  with assms show ?thesis
    by (auto simp: race_step_defs c_bind_def intro: ctl_stay split: if_splits sum.splits)
qed

lemma race_reach_inv: "race_reach s \<Longrightarrow> ctl_inv (ctl_of s)"
proof (induction rule: race_reach.induct)
  case start
  show ?case by (simp add: ctl_inv_def ctl_of_def race_init_def ir_my_init_def ir_dev_static_def)
next
  case (step s a t)
  then show ?case using race_do_ctl ctl_step_inv by blast
qed

text \<open>Claim C14: the semaphore and \<open>Device_Open\<close> admit one process at a time: in every reachable
  interleaving of opens, closes and interrupts at most one process is between its successful check
  of \<open>Device_Open\<close> and the start of its \<open>device_release\<close>, and while there is one,
  \<open>Device_Open\<close> is 1.\<close>

theorem ir_one_opener:
  assumes "race_reach s" and "is_active (pcs s i)"
  shows "Device_Open (dev s) = 1 \<and> (is_active (pcs s j) \<longrightarrow> j = i)"
  using race_reach_inv [OF assms(1)] assms(2) by (auto simp: ctl_inv_def ctl_of_def)

lemma race_run_reach: "race_reach s \<Longrightarrow> race_run as s = Some t \<Longrightarrow> race_reach t"
proof (induction as arbitrary: s)
  case Nil
  then show ?case by simp
next
  case (Cons a as)
  then show ?case by (auto simp: bind_eq_Some_conv intro: race_reach.step)
qed

theorem ir_one_opener_witness:
  "\<exists>s. race_reach s \<and> pcs s 0 = Opened \<and> Device_Open (dev s) = 1"
proof -
  let ?as = "[Act_down 0, Act_check 0, Act_irq 0 0, Act_queue 0 []]"
  obtain s where s: "race_run ?as race_init = Some s" "pcs s 0 = Opened"
    by (simp add: race_step_defs race_init_def ir_my_init_def ir_dev_static_def msg_queue_new_def)
  from race_run_reach [OF race_reach.start s(1)] s(2) ir_one_opener [of s 0] show ?thesis by auto
qed

text \<open>Claim C32: mutual exclusion of openers does not protect the queue. \<open>device_release\<close> decrements
  \<open>Device_Open\<close> first, so another process can open the device and allocate its queue before the
  closing one calls \<open>msg_queue_destroy(msg_queue_Ptr)\<close> on the shared pointer: there is a reachable
  state in which one process has the device open and the queue it will read is freed.\<close>

theorem ir_close_frees_open_queue:
  "\<exists>s. race_reach s \<and> pcs s 1 = Opened \<and> msg_queue_Ptr (dev s) = Q_freed \<and>
       ir_device_read 1 (dev s) = Inl Use_after_free"
proof -
  let ?as = "[Act_down 0, Act_check 0, Act_irq 0 0, Act_queue 0 [], Act_rel_count 0, Act_rel_irq 0,
    Act_down 1, Act_check 1, Act_irq 1 0, Act_queue 1 [], Act_rel_queue 0]"
  obtain s where s: "race_run ?as race_init = Some s" "pcs s 1 = Opened" "msg_queue_Ptr (dev s) = Q_freed"
    by (simp add: race_step_defs race_init_def ir_my_init_def ir_dev_static_def msg_queue_new_def
        msg_queue_destroy_def)
  from race_run_reach [OF race_reach.start s(1)] s(2,3) show ?thesis
    by (auto simp: ir_device_read_def)
qed

text \<open>\<open>device_open\<close> requests the interrupt line before it allocates the queue, and
  \<open>device_release\<close> leaves the pointer dangling: after one open and close, a reachable state of the next
  open takes interrupts while the queue is freed, and the handler then uses freed memory.\<close>

theorem ir_reopen_interrupt_uses_freed:
  "\<exists>s. race_reach s \<and> pcs s 0 = Irqed \<and> irq_on (dev s) \<and>
       ir_irq_handler True raw ctrl (dev s) = Some (Inl Use_after_free)"
proof -
  let ?as = "[Act_down 0, Act_check 0, Act_irq 0 0, Act_queue 0 [], Act_rel_count 0, Act_rel_irq 0,
    Act_rel_queue 0, Act_down 0, Act_check 0, Act_irq 0 0]"
  obtain s where s: "race_run ?as race_init = Some s" "pcs s 0 = Irqed" "irq_on (dev s)"
      "msg_queue_Ptr (dev s) = Q_freed"
    by (simp add: race_step_defs race_init_def ir_my_init_def ir_dev_static_def msg_queue_new_def
        msg_queue_destroy_def)
  from race_run_reach [OF race_reach.start s(1)] s(2-4) show ?thesis
    by (auto simp: ir_irq_handler_def ir_irq_store_def ir_msg_new_def ir_enqueue_ptr_def)
qed

end
