(* ===== verification/Ir_Demod.thy ===== *)
theory Ir_Demod
  imports Prelude
begin

unbundle bit_operations_syntax

section \<open>The infrared demodulator (ECEN749/lab8/src/ir\_demod\_v2\_0\_S00\_AXI.v)\<close>

text \<open>
  The user logic that turns the signal of the infrared receiver into messages. A step is one period of
  \<open>S_AXI_ACLK\<close> with the level of the signal in it; \<open>IR_level\<close> is the level of the period before, so that
  a rise of the signal is seen, and the block \<open>always @(posedge IR_signal)\<close> runs before the blocks of the clock.
  Assignments with \<open><=\<close> use the values from before the block. The registers that no block resets may hold anything
  at first.
\<close>

datatype pulse = START | LEN0 | LEN1 | OTHER

record demod =
  IR_level :: bool
  pulse_length_counter :: "32 word"
  pulse_state :: pulse
  pulse_idx :: "4 word"
  temp_reg0 :: "12 word"
  slv_reg0 :: "32 word"
  slv_reg1 :: "32 word"

definition put_bit :: "nat \<Rightarrow> bool \<Rightarrow> 'a::len word \<Rightarrow> 'a word" where
  "put_bit n b w = (if b then set_bit n w else unset_bit n w)"

definition classify :: "32 word \<Rightarrow> pulse" where
  "classify c =
     (if c > 40000 \<and> c \<le> 50000 then LEN0
      else if c > 85000 \<and> c \<le> 95000 then LEN1
      else if c > 175000 \<and> c \<le> 185000 then START
      else OTHER)"

definition demod_clock :: "bool \<Rightarrow> bool \<Rightarrow> demod \<Rightarrow> demod" where
  "demod_clock aresetn ir d =
     (if \<not> aresetn then d\<lparr>pulse_length_counter := 0, pulse_state := OTHER\<rparr>
      else d\<lparr>pulse_length_counter := (if \<not> ir then pulse_length_counter d + 1 else 0),
             pulse_state := classify (pulse_length_counter d)\<rparr>)"

text \<open>The case of a bit: eleven of them are collected, the twelfth completes the message.\<close>

definition demod_bit :: "bool \<Rightarrow> demod \<Rightarrow> demod" where
  "demod_bit b d =
     (let d1 = (if pulse_idx d < 11
                then d\<lparr>temp_reg0 := put_bit (11 - unat (pulse_idx d)) b (temp_reg0 d), pulse_idx := pulse_idx d + 1\<rparr>
                else d)
      in if pulse_idx d = 11
         then d1\<lparr>slv_reg0 := (if b then ucast (temp_reg0 d) + 1 else ucast (temp_reg0 d)),
                 slv_reg1 := (if slv_reg1 d \<ge> 1 then slv_reg1 d + 1 else 1)\<rparr>
         else d1)"

definition demod_rise :: "demod \<Rightarrow> demod" where
  "demod_rise d =
     (case pulse_state d of
        START \<Rightarrow> d\<lparr>temp_reg0 := 0, pulse_idx := 0\<rparr>
      | LEN0 \<Rightarrow> demod_bit False d
      | LEN1 \<Rightarrow> demod_bit True d
      | OTHER \<Rightarrow> d\<lparr>pulse_idx := 15\<rparr>)"

definition demod_cycle :: "bool \<Rightarrow> bool \<Rightarrow> demod \<Rightarrow> demod" where
  "demod_cycle aresetn ir d =
     demod_clock aresetn ir ((if ir \<and> \<not> IR_level d then demod_rise d else d)\<lparr>IR_level := ir\<rparr>)"

fun demod_run :: "bool list \<Rightarrow> demod \<Rightarrow> demod" where
  "demod_run [] d = d"
| "demod_run (ir # irs) d = demod_run irs (demod_cycle True ir d)"

lemma demod_run_append [simp]: "demod_run (xs @ ys) d = demod_run ys (demod_run xs d)"
  by (induction xs arbitrary: d) auto

lemma bit_put_bit [simp]: "bit (put_bit n b w) k \<longleftrightarrow> (if k = n then b \<and> n < LENGTH('a) else bit w k)" for w :: "'a::len word"
  by (auto simp: put_bit_def bit_simps bit_imp_le_length)

subsection \<open>One pulse\<close>

text \<open>What the clock shows of the registers over some cycles: the same values at the end of each.\<close>

fun steady :: "32 word \<times> 32 word \<Rightarrow> bool list \<Rightarrow> demod \<Rightarrow> bool" where
  "steady r [] d = True"
| "steady r (ir # irs) d =
     (let d' = demod_cycle True ir d in (slv_reg0 d', slv_reg1 d') = r \<and> steady r irs d')"

definition regs :: "demod \<Rightarrow> 32 word \<times> 32 word" where
  "regs d = (slv_reg0 d, slv_reg1 d)"

lemma steady_append: "steady r (xs @ ys) d \<longleftrightarrow> steady r xs d \<and> steady r ys (demod_run xs d)"
  by (induction xs arbitrary: d) (auto simp: Let_def)

text \<open>Between pulses the signal is high and the counter zero.\<close>

definition between :: "demod \<Rightarrow> bool" where
  "between d \<longleftrightarrow> IR_level d \<and> pulse_length_counter d = 0"

definition levels :: "nat \<times> nat \<Rightarrow> bool list" where
  "levels p = replicate (fst p) False @ replicate (snd p) True"

lemma low_cycles:
  "demod_run (replicate (Suc n) False) d =
     d\<lparr>IR_level := False, pulse_length_counter := pulse_length_counter d + of_nat (Suc n), pulse_state := classify (pulse_length_counter d + of_nat n)\<rparr>"
  "steady (regs d) (replicate n False) d"
proof -
  have cyc: "demod_cycle True False d = d\<lparr>IR_level := False, pulse_length_counter := pulse_length_counter d + 1, pulse_state := classify (pulse_length_counter d)\<rparr>" for d
    by (simp add: demod_cycle_def demod_clock_def)
  show "demod_run (replicate (Suc n) False) d =
     d\<lparr>IR_level := False, pulse_length_counter := pulse_length_counter d + of_nat (Suc n), pulse_state := classify (pulse_length_counter d + of_nat n)\<rparr>"
  proof (induction n arbitrary: d)
    case 0
    then show ?case by (simp add: cyc)
  next
    case (Suc n)
    have "demod_run (replicate (Suc (Suc n)) False) d = demod_run (replicate (Suc n) False) (demod_cycle True False d)" by simp
    also have "\<dots> = d\<lparr>IR_level := False, pulse_length_counter := pulse_length_counter d + of_nat (Suc (Suc n)), pulse_state := classify (pulse_length_counter d + of_nat (Suc n))\<rparr>"
      unfolding Suc.IH by (simp add: cyc add.assoc)
    finally show ?case .
  qed
  have "steady r (replicate n False) d" if "regs d = r" for r
    using that by (induction n arbitrary: d) (simp_all add: cyc regs_def Let_def)
  then show "steady (regs d) (replicate n False) d" by simp
qed

lemma high_cycles:
  assumes "between d"
  shows "between (demod_run (replicate n True) d)" "steady (regs d) (replicate n True) d"
    "demod_run (replicate n True) d = d\<lparr>pulse_state := pulse_state (demod_run (replicate n True) d)\<rparr>"
proof -
  have cyc: "demod_cycle True True d = d\<lparr>pulse_state := classify 0\<rparr>" if "between d" for d
    using that by (cases d) (simp add: between_def demod_cycle_def demod_clock_def)
  have all: "between (demod_run (replicate n True) d) \<and> steady (regs d) (replicate n True) d \<and>
    demod_run (replicate n True) d = d\<lparr>pulse_state := pulse_state (demod_run (replicate n True) d)\<rparr>" if "between d" for d
    using that
  proof (induction n arbitrary: d)
    case 0
    then show ?case by simp
  next
    case (Suc n)
    have "between (d\<lparr>pulse_state := classify 0\<rparr>)" using Suc.prems by (simp add: between_def)
    from Suc.IH [OF this] show ?case by (simp add: cyc [OF Suc.prems] Let_def regs_def)
  qed
  show "between (demod_run (replicate n True) d)" "steady (regs d) (replicate n True) d"
    "demod_run (replicate n True) d = d\<lparr>pulse_state := pulse_state (demod_run (replicate n True) d)\<rparr>"
    using all [OF assms] by blast+
qed

text \<open>A pulse is decoded by the block of the rising edge, with the state that its length gives.\<close>

definition core :: "demod \<Rightarrow> 4 word \<times> 12 word \<times> 32 word \<times> 32 word" where
  "core d = (pulse_idx d, temp_reg0 d, slv_reg0 d, slv_reg1 d)"

lemma core_rise: "core (demod_rise (d\<lparr>IR_level := l, pulse_length_counter := c, pulse_state := s\<rparr>)) = core (demod_rise (d\<lparr>pulse_state := s\<rparr>))"
  by (cases s) (simp_all add: demod_rise_def demod_bit_def core_def Let_def)

lemma regs_core: "core d = core d' \<Longrightarrow> regs d = regs d'"
  by (simp add: core_def regs_def)

lemma pulse_decoded:
  fixes d :: demod and n g :: nat
  assumes "between d" and "0 < g"
  defines "d1 \<equiv> demod_rise (d\<lparr>pulse_state := classify (of_nat n)\<rparr>)"
  shows "between (demod_run (levels (Suc n, g)) d)" "core (demod_run (levels (Suc n, g)) d) = core d1"
    "steady (regs d) (replicate (Suc n) False) d" "steady (regs d1) (replicate g True) (demod_run (replicate (Suc n) False) d)"
proof -
  let ?l = "demod_run (replicate (Suc n) False) d" and ?h = "demod_cycle True True (demod_run (replicate (Suc n) False) d)"
  obtain g' where g: "g = Suc g'" using assms(2) by (cases g) auto
  have "core (demod_rise ?l) = core d1" unfolding low_cycles(1) d1_def core_rise using assms(1) by (simp add: between_def)
  moreover have "\<not> IR_level ?l" unfolding low_cycles(1) by simp
  ultimately have h: "between ?h" "core ?h = core d1" by (simp_all add: demod_cycle_def demod_clock_def between_def core_def)
  have run: "demod_run (levels (Suc n, g)) d = demod_run (replicate g' True) ?h" by (simp add: levels_def g del: replicate.simps) simp
  show "between (demod_run (levels (Suc n, g)) d)" unfolding run by (rule high_cycles(1) [OF h(1)])
  have "core (x\<lparr>pulse_state := y\<rparr>) = core x" for x y by (simp add: core_def)
  then show "core (demod_run (levels (Suc n, g)) d) = core d1" unfolding run using high_cycles(3) [OF h(1), of g'] h(2) by metis
  show "steady (regs d) (replicate (Suc n) False) d" by (rule low_cycles(2))
  show "steady (regs d1) (replicate g True) ?l"
    using high_cycles(2) [OF h(1), of g'] regs_core [OF h(2)] by (simp add: g Let_def regs_def)
qed

subsection \<open>A frame\<close>

text \<open>The lengths, in cycles of the clock, that count as a start pulse and as the bits.\<close>

fun pulse_ok :: "pulse \<Rightarrow> nat \<Rightarrow> bool" where
  "pulse_ok START n \<longleftrightarrow> 175001 < n \<and> n \<le> 185001"
| "pulse_ok LEN0 n \<longleftrightarrow> 40001 < n \<and> n \<le> 50001"
| "pulse_ok LEN1 n \<longleftrightarrow> 85001 < n \<and> n \<le> 95001"
| "pulse_ok OTHER n \<longleftrightarrow> False"

definition bit_pulse :: "bool \<Rightarrow> pulse" where
  "bit_pulse b = (if b then LEN1 else LEN0)"

text \<open>A message of twelve bits as the remote control sends it: a start pulse, then the bits, the highest first, each pulse with the pause
  after it.\<close>

record ir_frame =
  f_msg :: "12 word"
  f_start :: "nat \<times> nat"
  f_bits :: "(nat \<times> nat) list"

definition frame_ok :: "ir_frame \<Rightarrow> bool" where
  "frame_ok f \<longleftrightarrow> pulse_ok START (fst (f_start f)) \<and> 0 < snd (f_start f) \<and> length (f_bits f) = 12 \<and>
     (\<forall>i<12. pulse_ok (bit_pulse (bit (f_msg f) (11 - i))) (fst (f_bits f ! i)) \<and> 0 < snd (f_bits f ! i))"

definition frame_levels :: "ir_frame \<Rightarrow> bool list" where
  "frame_levels f = concat (map levels (f_start f # f_bits f))"

text \<open>The cycles until the message is complete, and the pause after it.\<close>

definition f_head :: "ir_frame \<Rightarrow> bool list" where
  "f_head f = concat (map levels (f_start f # butlast (f_bits f))) @ replicate (fst (last (f_bits f))) False"

definition f_pause :: "ir_frame \<Rightarrow> nat" where
  "f_pause f = snd (last (f_bits f))"

lemma frame_parts: "f_bits f \<noteq> [] \<Longrightarrow> frame_levels f = f_head f @ replicate (f_pause f) True"
  by (cases "f_bits f" rule: rev_cases) (simp_all add: frame_levels_def f_head_def f_pause_def levels_def)

lemma classify_pulse:
  assumes "pulse_ok p n"
  shows "\<exists>k. n = Suc k \<and> classify (of_nat k) = p"
proof -
  obtain k where k: "n = Suc k" using assms by (cases n; cases p) auto
  then have "k < 2 ^ 32" using assms by (cases p) auto
  then have "unat (of_nat k :: 32 word) = k" by (simp add: unat_of_nat)
  with assms k show ?thesis by (cases p) (auto simp: classify_def word_less_nat_alt word_le_nat_alt)
qed

text \<open>The first \<open>i\<close> bits of a message.\<close>

definition top_bits :: "nat \<Rightarrow> 12 word \<Rightarrow> 12 word" where
  "top_bits i m = m AND NOT (mask (12 - i))"

lemma bit_top_bits: "bit (top_bits i m) j \<longleftrightarrow> bit m j \<and> 12 - i \<le> j"
  by (auto simp: top_bits_def bit_simps bit_imp_le_length dest: bit_imp_le_length)

lemma bit_collected:
  assumes "core d = (of_nat i, top_bits i m, r0, r1)" and "i < 11"
  shows "core (demod_rise (d\<lparr>pulse_state := bit_pulse (bit m (11 - i))\<rparr>)) = (of_nat (Suc i), top_bits (Suc i) m, r0, r1)"
proof -
  have i: "unat (of_nat i :: 4 word) = i" using assms(2) by (simp add: unat_of_nat)
  then have "(of_nat i :: 4 word) < 11" "(of_nat i :: 4 word) \<noteq> 11" using assms(2) by (auto simp: word_less_nat_alt)
  moreover have "put_bit (11 - i) (bit m (11 - i)) (top_bits i m) = top_bits (Suc i) m"
    using assms(2) by (intro bit_word_eqI) (auto simp: bit_top_bits)
  ultimately show ?thesis
    using assms i by (cases "bit m (11 - i)") (auto simp: core_def bit_pulse_def demod_rise_def demod_bit_def Let_def)
qed

lemma twelfth_bit:
  assumes "pulse_idx d = 11"
  shows "demod_bit b d = d\<lparr>slv_reg0 := ucast (temp_reg0 d) + (if b then 1 else 0), slv_reg1 := slv_reg1 d + 1\<rparr>"
proof -
  have "(if slv_reg1 d \<ge> 1 then slv_reg1 d + 1 else 1) = slv_reg1 d + 1"
    by (cases "slv_reg1 d = 0") (auto simp: word_le_nat_alt Suc_le_eq unat_gt_0)
  then show ?thesis unfolding demod_bit_def using assms by (simp add: Let_def)
qed

lemma message_complete:
  assumes "core d = (11, top_bits 11 m, r0, r1)"
  shows "regs (demod_rise (d\<lparr>pulse_state := bit_pulse (bit m 0)\<rparr>)) = (ucast m, r1 + 1)"
proof -
  have "ucast (top_bits 11 m) + (if bit m 0 then 1 else 0) = (ucast m :: 32 word)"
  proof (cases "bit m 0")
    case True
    have "ucast (top_bits 11 m) + 1 = (ucast (top_bits 11 m) OR 1 :: 32 word)"
      by (intro disjunctive_add) (auto simp: bit_simps bit_top_bits)
    also have "\<dots> = ucast m" using True by (intro bit_word_eqI) (auto simp: bit_simps bit_top_bits)
    finally show ?thesis using True by simp
  next
    case False
    have "bit (top_bits 11 m) j = bit m j" for j using False by (cases j) (auto simp: bit_top_bits)
    then have "top_bits 11 m = m" by (simp add: bit_eq_iff)
    then show ?thesis using False by simp
  qed
  then show ?thesis
    using assms by (cases "bit m 0") (auto simp: core_def bit_pulse_def demod_rise_def twelfth_bit regs_def)
qed

lemma pulse_keeps:
  assumes "between d" and "0 < g" and "pulse_ok p n"
    and "core (demod_rise (d\<lparr>pulse_state := p\<rparr>)) = c" and "snd (snd c) = regs d"
  shows "between (demod_run (levels (n, g)) d) \<and> core (demod_run (levels (n, g)) d) = c \<and> steady (regs d) (levels (n, g)) d"
proof -
  obtain k where k: "n = Suc k" "classify (of_nat k) = p" using classify_pulse [OF assms(3)] by blast
  have "regs (demod_rise (d\<lparr>pulse_state := p\<rparr>)) = regs d" using assms(4,5) by (auto simp: core_def regs_def)
  then show ?thesis using pulse_decoded [OF assms(1,2), of k] k assms(4) by (auto simp: levels_def steady_append)
qed

lemma bits_collected:
  assumes "frame_ok f" and "between d" and "i \<le> 11"
  shows "let L = concat (map levels (f_start f # take i (f_bits f)))
    in between (demod_run L d) \<and> core (demod_run L d) = (of_nat i, top_bits i (f_msg f), regs d) \<and> steady (regs d) L d"
  using assms(3)
proof (induction i)
  case 0
  have "top_bits 0 (f_msg f) = 0" by (intro bit_word_eqI) (auto simp: bit_top_bits)
  then have "core (demod_rise (d\<lparr>pulse_state := START\<rparr>)) = (0, top_bits 0 (f_msg f), regs d)" by (simp add: demod_rise_def core_def regs_def)
  from pulse_keeps [OF assms(2) _ _ this, of "snd (f_start f)" "fst (f_start f)"] assms(1) show ?case by (simp add: frame_ok_def)
next
  case (Suc i)
  let ?L = "concat (map levels (f_start f # take i (f_bits f)))" and ?p = "f_bits f ! i"
  have i: "i < 11" "i < length (f_bits f)" using Suc.prems assms(1) by (auto simp: frame_ok_def)
  from Suc have IH: "between (demod_run ?L d)" "core (demod_run ?L d) = (of_nat i, top_bits i (f_msg f), regs d)" "steady (regs d) ?L d"
    by (auto simp: Let_def)
  then have r: "regs (demod_run ?L d) = regs d" by (simp add: core_def regs_def)
  have "pulse_ok (bit_pulse (bit (f_msg f) (11 - i))) (fst ?p)" "0 < snd ?p" using assms(1) i by (auto simp: frame_ok_def)
  moreover have "core (demod_rise ((demod_run ?L d)\<lparr>pulse_state := bit_pulse (bit (f_msg f) (11 - i))\<rparr>)) = (of_nat (Suc i), top_bits (Suc i) (f_msg f), regs d)"
    using bit_collected [OF _ i(1)] IH(2) by (cases "regs d") auto
  ultimately have "between (demod_run (levels ?p) (demod_run ?L d)) \<and> core (demod_run (levels ?p) (demod_run ?L d)) = (of_nat (Suc i), top_bits (Suc i) (f_msg f), regs d) \<and>
      steady (regs d) (levels ?p) (demod_run ?L d)"
    using pulse_keeps [OF IH(1), of "snd ?p" _ "fst ?p"] r by simp
  then show ?case using IH(3) by (simp add: take_Suc_conv_app_nth [OF i(2)] steady_append Let_def)
qed

lemma frame_decoded:
  assumes "frame_ok f" and "between d"
  shows "between (demod_run (frame_levels f) d)" "regs (demod_run (frame_levels f) d) = (ucast (f_msg f), slv_reg1 d + 1)"
    "steady (regs d) (f_head f) d" "steady (ucast (f_msg f), slv_reg1 d + 1) (replicate (f_pause f) True) (demod_run (f_head f) d)"
    "0 < f_pause f"
proof -
  let ?L = "concat (map levels (f_start f # butlast (f_bits f)))" and ?p = "last (f_bits f)"
  have bits: "length (f_bits f) = 12" "f_bits f \<noteq> []" using assms(1) by (auto simp: frame_ok_def)
  then have "take 11 (f_bits f) = butlast (f_bits f)" "?p = f_bits f ! 11" by (simp_all add: butlast_conv_take last_conv_nth)
  moreover have "pulse_ok (bit_pulse (bit (f_msg f) (11 - i))) (fst (f_bits f ! i)) \<and> 0 < snd (f_bits f ! i)" if "i < 12" for i
    using assms(1) that by (simp add: frame_ok_def)
  from this [of 11] have "pulse_ok (bit_pulse (bit (f_msg f) 0)) (fst (f_bits f ! 11))" "0 < snd (f_bits f ! 11)" by simp_all
  ultimately have L: "between (demod_run ?L d)" "core (demod_run ?L d) = (11, top_bits 11 (f_msg f), regs d)"
      "steady (regs d) ?L d" and p: "pulse_ok (bit_pulse (bit (f_msg f) 0)) (fst ?p)" "0 < snd ?p"
    using bits_collected [OF assms, of 11] by (auto simp: Let_def)
  obtain k where k: "fst ?p = Suc k" "classify (of_nat k) = bit_pulse (bit (f_msg f) 0)" using classify_pulse [OF p(1)] by blast
  note pd = pulse_decoded [OF L(1) p(2), of k, unfolded k(2)]
  have r: "regs (demod_run ?L d) = regs d" using L(2) by (simp add: core_def regs_def)
  have msg: "regs (demod_rise ((demod_run ?L d)\<lparr>pulse_state := bit_pulse (bit (f_msg f) 0)\<rparr>)) = (ucast (f_msg f), slv_reg1 d + 1)"
    using message_complete [of _ "f_msg f"] L(2) by (simp add: regs_def)
  have run: "demod_run (frame_levels f) d = demod_run (levels (Suc k, snd ?p)) (demod_run ?L d)"
    using frame_parts [OF bits(2)] by (simp add: f_head_def f_pause_def levels_def k(1) del: replicate.simps)
  show "between (demod_run (frame_levels f) d)" unfolding run by (rule pd(1))
  show "regs (demod_run (frame_levels f) d) = (ucast (f_msg f), slv_reg1 d + 1)"
    unfolding run msg [symmetric] by (rule regs_core [OF pd(2)])
  show "steady (regs d) (f_head f) d" using L(3) pd(3) r by (simp add: f_head_def steady_append k(1) del: replicate.simps)
  show "steady (ucast (f_msg f), slv_reg1 d + 1) (replicate (f_pause f) True) (demod_run (f_head f) d)"
    using pd(4) msg by (simp add: f_head_def f_pause_def k(1) del: replicate.simps)
  show "0 < f_pause f" using p(2) by (simp add: f_pause_def)
qed

subsection \<open>Frames and noise\<close>

text \<open>What can be seen of the demodulator: the value of \<open>slv_reg0\<close> whenever \<open>slv_reg1\<close> changes.\<close>

fun received :: "bool list \<Rightarrow> demod \<Rightarrow> 32 word list" where
  "received [] d = []"
| "received (ir # irs) d =
     (let d' = demod_cycle True ir d in (if slv_reg1 d' = slv_reg1 d then [] else [slv_reg0 d']) @ received irs d')"

lemma received_append: "received (xs @ ys) d = received xs d @ received ys (demod_run xs d)"
  by (induction xs arbitrary: d) (auto simp: Let_def)

lemma steady_regs: "steady r irs d \<Longrightarrow> regs (demod_run irs d) = (if irs = [] then regs d else r)"
  by (induction irs arbitrary: d) (auto simp: Let_def regs_def)

lemma received_steady: "steady r irs d \<Longrightarrow> received irs d = (if irs = [] \<or> slv_reg1 d = snd r then [] else [fst r])"
  by (induction irs arbitrary: d) (auto simp: Let_def)

text \<open>The signal over time: frames, and pulses of lengths that mean nothing.\<close>

datatype signal = Frame ir_frame | Noise nat nat

fun signal_levels :: "signal \<Rightarrow> bool list" where
  "signal_levels (Frame f) = frame_levels f"
| "signal_levels (Noise n g) = levels (n, g)"

fun signal_ok :: "signal \<Rightarrow> bool" where
  "signal_ok (Frame f) \<longleftrightarrow> frame_ok f"
| "signal_ok (Noise n g) \<longleftrightarrow> 0 < n \<and> n < 2 ^ 32 \<and> 0 < g \<and> (\<forall>p\<in>{START, LEN0, LEN1}. \<not> pulse_ok p n)"

fun signal_msgs :: "signal \<Rightarrow> 12 word list" where
  "signal_msgs (Frame f) = [f_msg f]"
| "signal_msgs (Noise n g) = []"

lemma classify_noise:
  assumes "signal_ok (Noise (Suc k) g)"
  shows "classify (of_nat k) = OTHER"
proof -
  have "unat (of_nat k :: 32 word) = k" using assms by (simp add: unat_of_nat)
  with assms show ?thesis by (auto simp: classify_def word_less_nat_alt word_le_nat_alt)
qed

lemma signal_decoded:
  assumes "signal_ok x" and "between d"
  shows "between (demod_run (signal_levels x) d) \<and> received (signal_levels x) d = map ucast (signal_msgs x) \<and>
    slv_reg1 (demod_run (signal_levels x) d) = slv_reg1 d + of_nat (length (signal_msgs x))"
proof (cases x)
  case (Frame f)
  note fd = frame_decoded [OF _ assms(2), of f]
  have f: "frame_ok f" using assms(1) Frame by simp
  have "received (f_head f) d = []" "received (replicate (f_pause f) True) (demod_run (f_head f) d) = [ucast (f_msg f)]"
    using received_steady [OF fd(3) [OF f]] received_steady [OF fd(4) [OF f]] fd(5) [OF f] steady_regs [OF fd(3) [OF f]]
    by (auto simp: regs_def split: if_splits)
  moreover have "f_bits f \<noteq> []" using f by (auto simp: frame_ok_def)
  ultimately show ?thesis using fd(1,2) f by (simp add: Frame frame_parts received_append regs_def)
next
  case (Noise n g)
  obtain k where k: "n = Suc k" using assms(1) Noise by (cases n) auto
  have g: "0 < g" using assms(1) Noise by simp
  have other: "classify (of_nat k) = OTHER" using classify_noise assms(1) Noise k by blast
  have r: "regs (demod_rise (d\<lparr>pulse_state := OTHER\<rparr>)) = regs d" by (simp add: demod_rise_def regs_def)
  note pd = pulse_decoded [OF assms(2) g, of k, unfolded other]
  have "steady (regs d) (levels (n, g)) d" using pd(3,4) r by (simp add: levels_def steady_append k del: replicate.simps)
  then show ?thesis using pd(1) regs_core [OF pd(2)] r received_steady by (auto simp: Noise k regs_def)
qed

text \<open>Claim C39: the demodulator decodes the signal. Whatever frames the remote control sends, with pulses within 5000 cycles of
  their nominal length, pauses of any length, and in between noise pulses of any length that is not that of a start or a bit, and whatever messages the registers held
  before, if the module is between two pulses at the beginning: the value of \<open>slv_reg0\<close> at the changes of \<open>slv_reg1\<close> is the sequence of the
  messages sent, \<open>slv_reg1\<close> counts them, and noise changes neither.\<close>

theorem demod_receives:
  assumes "between d" and "\<forall>x\<in>set xs. signal_ok x"
  shows "received (concat (map signal_levels xs)) d = map ucast (concat (map signal_msgs xs)) \<and>
    slv_reg1 (demod_run (concat (map signal_levels xs)) d) = slv_reg1 d + of_nat (length (concat (map signal_msgs xs)))"
  using assms
proof (induction xs arbitrary: d)
  case Nil
  then show ?case by simp
next
  case (Cons x xs)
  then show ?case using signal_decoded [of x d] by (simp add: received_append ac_simps)
qed

text \<open>A frame with the nominal lengths of 2.4, 1.2 and 0.6 milliseconds at 75 megahertz.\<close>

definition sent :: "12 word \<Rightarrow> ir_frame" where
  "sent m = \<lparr>f_msg = m, f_start = (180000, 45000), f_bits = map (\<lambda>i. (if bit m (11 - i) then 90000 else 45000, 45000)) [0..<12]\<rparr>"

lemma sent_ok: "frame_ok (sent m)"
  by (simp add: frame_ok_def sent_def bit_pulse_def)

lemma f_msg_sent [simp]: "f_msg (sent m) = m"
  by (simp add: sent_def)

text \<open>After a reset with the signal high for a cycle, the demodulator is between pulses.\<close>

lemma reset_between: "between (demod_cycle True True (demod_cycle False True d))"
  by (simp add: between_def demod_cycle_def demod_clock_def)

theorem demod_receives_witness:
  "received (concat (map signal_levels [Frame (sent 0xABC), Noise 30000 10, Frame (sent 0x123)]))
     (demod_cycle True True (demod_cycle False True \<lparr>IR_level = False, pulse_length_counter = 7, pulse_state = LEN0, pulse_idx = 3, temp_reg0 = 5,
       slv_reg0 = 6, slv_reg1 = 8\<rparr>)) = [0xABC, 0x123]"
proof -
  have "\<forall>x\<in>set [Frame (sent 0xABC), Noise 30000 10, Frame (sent 0x123)]. signal_ok x" by (simp add: sent_ok)
  from demod_receives [OF reset_between this] show ?thesis by simp
qed

subsection \<open>Bits outside a frame\<close>

text \<open>After noise, bits are ignored until the next start pulse.\<close>

lemma bits_after_noise_ignored:
  "pulse_idx d = 15 \<Longrightarrow> demod_bit b d = d"
  by (simp add: demod_bit_def)

text \<open>The index stays at the last bit when a message is complete, so that every further bit pulse, without a start pulse, makes another
  message of the same first eleven bits.\<close>

theorem thirteenth_bit_counts:
  assumes "pulse_idx d = 11"
  shows "slv_reg1 (demod_bit b' (demod_bit b d)) = slv_reg1 d + 2" "slv_reg0 (demod_bit b' (demod_bit b d)) = ucast (temp_reg0 d) + (if b' then 1 else 0)"
  using assms by (simp_all add: twelfth_bit)

end
