(* ===== verification/Ir_Axi.thy ===== *)
theory Ir_Axi
  imports Ir_Demod
begin

section \<open>The bus interface and the interrupt of the demodulator (ECEN749/lab8/src/ir\_demod\_v2\_0\_S00\_AXI.v)\<close>

text \<open>
  The AXI slave around the demodulator, one definition per \<open>always\<close> block, all of them clocked by \<open>S_AXI_ACLK\<close>: the
  handshakes of writing and reading, the choice of the register read, and the block that raises the interrupt when \<open>slv_reg1\<close> changes and
  lets the processor write the low half of \<open>slv_reg2\<close>. No block assigns \<open>slv_reg3\<close>.
\<close>

record axi_in =
  ARESETN :: bool
  AWADDR :: "4 word"
  AWVALID :: bool
  WDATA :: "32 word"
  WSTRB :: "4 word"
  WVALID :: bool
  BREADY :: bool
  ARADDR :: "4 word"
  ARVALID :: bool
  RREADY :: bool

record axi_slave =
  axi_awaddr :: "4 word"
  axi_awready :: bool
  axi_wready :: bool
  axi_bresp :: "2 word"
  axi_bvalid :: bool
  axi_araddr :: "4 word"
  axi_arready :: bool
  axi_rdata :: "32 word"
  axi_rresp :: "2 word"
  axi_rvalid :: bool
  slv_reg2 :: "32 word"
  slv_reg3 :: "32 word"
  slv_reg1_prev :: "32 word"
  IR_interrupt :: bool

definition next_awready :: "axi_in \<Rightarrow> axi_slave \<Rightarrow> bool" where
  "next_awready i a \<longleftrightarrow> ARESETN i \<and> \<not> axi_awready a \<and> AWVALID i \<and> WVALID i"

definition next_awaddr :: "axi_in \<Rightarrow> axi_slave \<Rightarrow> 4 word" where
  "next_awaddr i a =
     (if \<not> ARESETN i then 0
      else if \<not> axi_awready a \<and> AWVALID i \<and> WVALID i then AWADDR i else axi_awaddr a)"

definition next_wready :: "axi_in \<Rightarrow> axi_slave \<Rightarrow> bool" where
  "next_wready i a \<longleftrightarrow> ARESETN i \<and> \<not> axi_wready a \<and> WVALID i \<and> AWVALID i"

definition slv_reg_wren :: "axi_in \<Rightarrow> axi_slave \<Rightarrow> bool" where
  "slv_reg_wren i a \<longleftrightarrow> axi_wready a \<and> WVALID i \<and> axi_awready a \<and> AWVALID i"

definition next_bvalid :: "axi_in \<Rightarrow> axi_slave \<Rightarrow> bool \<times> 2 word" where
  "next_bvalid i a =
     (if \<not> ARESETN i then (False, 0)
      else if axi_awready a \<and> AWVALID i \<and> \<not> axi_bvalid a \<and> axi_wready a \<and> WVALID i then (True, 0)
      else if BREADY i \<and> axi_bvalid a then (False, axi_bresp a)
      else (axi_bvalid a, axi_bresp a))"

definition next_arready :: "axi_in \<Rightarrow> axi_slave \<Rightarrow> bool \<times> 4 word" where
  "next_arready i a =
     (if \<not> ARESETN i then (False, 0)
      else if \<not> axi_arready a \<and> ARVALID i then (True, ARADDR i)
      else (False, axi_araddr a))"

definition next_rvalid :: "axi_in \<Rightarrow> axi_slave \<Rightarrow> bool \<times> 2 word" where
  "next_rvalid i a =
     (if \<not> ARESETN i then (False, 0)
      else if axi_arready a \<and> ARVALID i \<and> \<not> axi_rvalid a then (True, 0)
      else if axi_rvalid a \<and> RREADY i then (False, axi_rresp a)
      else (axi_rvalid a, axi_rresp a))"

definition slv_reg_rden :: "axi_in \<Rightarrow> axi_slave \<Rightarrow> bool" where
  "slv_reg_rden i a \<longleftrightarrow> axi_arready a \<and> ARVALID i \<and> \<not> axi_rvalid a"

text \<open>The register that bits 3 and 2 of an address select.\<close>

definition reg_no :: "4 word \<Rightarrow> nat" where
  "reg_no a = unat (drop_bit 2 a)"

definition reg_data_out :: "32 word \<times> 32 word \<Rightarrow> axi_slave \<Rightarrow> 32 word" where
  "reg_data_out r a =
     (case reg_no (axi_araddr a) of 0 \<Rightarrow> fst r | Suc 0 \<Rightarrow> snd r | Suc (Suc 0) \<Rightarrow> slv_reg2 a | _ \<Rightarrow> slv_reg3 a)"

definition next_rdata :: "axi_in \<Rightarrow> 32 word \<times> 32 word \<Rightarrow> axi_slave \<Rightarrow> 32 word" where
  "next_rdata i r a = (if \<not> ARESETN i then 0 else if slv_reg_rden i a then reg_data_out r a else axi_rdata a)"

text \<open>\<open>slv_reg2[(byte_index*8) +: 8] <= S_AXI_WDATA[(byte_index*8) +: 8]\<close>.\<close>

definition put_byte :: "nat \<Rightarrow> 32 word \<Rightarrow> 32 word \<Rightarrow> 32 word" where
  "put_byte k v w = (w AND NOT (push_bit (8 * k) 0xFF)) OR (v AND push_bit (8 * k) 0xFF)"

definition strobe_byte :: "axi_in \<Rightarrow> nat \<Rightarrow> 32 word \<Rightarrow> 32 word" where
  "strobe_byte i k w = (if bit (WSTRB i) k then put_byte k (WDATA i) w else w)"

text \<open>The interrupt block gives the new values of \<open>slv_reg2\<close>, \<open>slv_reg1_prev\<close> and \<open>IR_interrupt\<close>.\<close>

definition next_irq :: "axi_in \<Rightarrow> 32 word \<times> 32 word \<Rightarrow> axi_slave \<Rightarrow> 32 word \<times> 32 word \<times> bool" where
  "next_irq i r a =
     (if \<not> ARESETN i then (0, slv_reg1_prev a, False)
      else (put_bit 31 (IR_interrupt a)
              (if slv_reg_wren i a \<and> reg_no (axi_awaddr a) = 2 then strobe_byte i 1 (strobe_byte i 0 (slv_reg2 a)) else slv_reg2 a),
            snd r,
            if bit (slv_reg2 a) 0 then False else if snd r \<noteq> slv_reg1_prev a then True else IR_interrupt a))"

text \<open>A rising edge of the clock, at which \<open>slv_reg0\<close> and \<open>slv_reg1\<close> are \<open>r\<close>.\<close>

definition axi_clock :: "axi_in \<Rightarrow> 32 word \<times> 32 word \<Rightarrow> axi_slave \<Rightarrow> axi_slave" where
  "axi_clock i r a =
     \<lparr>axi_awaddr = next_awaddr i a, axi_awready = next_awready i a, axi_wready = next_wready i a,
      axi_bresp = snd (next_bvalid i a), axi_bvalid = fst (next_bvalid i a),
      axi_araddr = snd (next_arready i a), axi_arready = fst (next_arready i a),
      axi_rdata = next_rdata i r a, axi_rresp = snd (next_rvalid i a), axi_rvalid = fst (next_rvalid i a),
      slv_reg2 = fst (next_irq i r a), slv_reg3 = slv_reg3 a,
      slv_reg1_prev = fst (snd (next_irq i r a)), IR_interrupt = snd (snd (next_irq i r a))\<rparr>"

text \<open>The module: the demodulator and the slave on one clock and one reset.\<close>

record ir_module =
  dm :: demod
  ax :: axi_slave

definition module_cycle :: "axi_in \<Rightarrow> bool \<Rightarrow> ir_module \<Rightarrow> ir_module" where
  "module_cycle i ir m =
     (let d = demod_cycle (ARESETN i) ir (dm m) in \<lparr>dm = d, ax = axi_clock i (slv_reg0 d, slv_reg1 d) (ax m)\<rparr>)"

subsection \<open>Accesses of the processor\<close>

text \<open>A bus without a request, and the requests of a read of 32 bits and a write of 16 bits, both held until the slave is ready; the
  processor takes a response at once. The state has the module and the levels of the signal still to come.\<close>

definition bus_idle :: axi_in where
  "bus_idle = \<lparr>ARESETN = True, AWADDR = 0, AWVALID = False, WDATA = 0, WSTRB = 0, WVALID = False, BREADY = True,
     ARADDR = 0, ARVALID = False, RREADY = True\<rparr>"

definition bus_read :: "4 word \<Rightarrow> axi_in" where
  "bus_read off = bus_idle\<lparr>ARADDR := off, ARVALID := True\<rparr>"

definition bus_write16 :: "4 word \<Rightarrow> 16 word \<Rightarrow> axi_in" where
  "bus_write16 off v = bus_idle\<lparr>AWADDR := off, AWVALID := True, WDATA := ucast v, WSTRB := 3, WVALID := True\<rparr>"

type_synonym ir_hw = "ir_module \<times> bool list"

fun hw_cycle :: "axi_in \<Rightarrow> ir_hw \<Rightarrow> ir_hw" where
  "hw_cycle i (m, []) = (m, [])"
| "hw_cycle i (m, ir # irs) = (module_cycle i ir m, irs)"

fun hw_idle :: "nat \<Rightarrow> ir_hw \<Rightarrow> ir_hw" where
  "hw_idle 0 s = s"
| "hw_idle (Suc n) s = hw_idle n (hw_cycle bus_idle s)"

definition ioread32 :: "4 word \<Rightarrow> ir_hw \<Rightarrow> 32 word \<times> ir_hw" where
  "ioread32 off s =
     (let s2 = hw_cycle (bus_read off) (hw_cycle (bus_read off) s)
      in (axi_rdata (ax (fst s2)), hw_cycle bus_idle s2))"

definition iowrite16 :: "16 word \<Rightarrow> 4 word \<Rightarrow> ir_hw \<Rightarrow> ir_hw" where
  "iowrite16 v off s = hw_cycle bus_idle (hw_cycle (bus_write16 off v) (hw_cycle (bus_write16 off v) s))"

subsection \<open>The slave at rest\<close>

lemmas axi_defs = axi_clock_def next_awready_def next_awaddr_def next_wready_def slv_reg_wren_def next_bvalid_def next_arready_def
  next_rvalid_def slv_reg_rden_def next_rdata_def next_irq_def bus_idle_def bus_read_def bus_write16_def

definition quiet :: "axi_slave \<Rightarrow> bool" where
  "quiet a \<longleftrightarrow> \<not> axi_awready a \<and> \<not> axi_wready a \<and> \<not> axi_bvalid a \<and> \<not> axi_arready a \<and> \<not> axi_rvalid a"

text \<open>At rest the control register is clear but for the copy of the interrupt; while the interrupt is acknowledged it is one.\<close>

definition resting :: "32 word \<Rightarrow> bool \<Rightarrow> axi_slave \<Rightarrow> bool" where
  "resting r1 irq a \<longleftrightarrow> quiet a \<and> slv_reg1_prev a = r1 \<and> IR_interrupt a = irq \<and> take_bit 31 (slv_reg2 a) = 0"

definition acked :: "32 word \<Rightarrow> axi_slave \<Rightarrow> bool" where
  "acked r1 a \<longleftrightarrow> quiet a \<and> slv_reg1_prev a = r1 \<and> \<not> IR_interrupt a \<and> take_bit 31 (slv_reg2 a) = 1"

lemma take_put31 [simp]: "take_bit 31 (put_bit 31 b w) = take_bit 31 (w :: 32 word)"
  by (intro bit_word_eqI) (auto simp: bit_simps)

lemma put31_clear: "put_bit 31 False w = take_bit 31 (w :: 32 word)"
  by (intro bit_word_eqI) (auto simp: bit_simps)

lemma take31_bit0: "take_bit 31 (w :: 32 word) = v \<Longrightarrow> bit w 0 = bit v 0"
  by (auto simp: bit_simps)

lemma quiet_idle: "quiet a \<Longrightarrow> quiet (axi_clock bus_idle r a)"
  by (simp add: quiet_def axi_defs)

lemma resting_idle:
  assumes "resting p irq a"
  shows "resting (snd r) (irq \<or> snd r \<noteq> p) (axi_clock bus_idle r a)"
  using assms quiet_idle [of a r] take31_bit0 [of "slv_reg2 a" 0] by (auto simp: resting_def axi_defs quiet_def)

lemma acked_idle: "acked p a \<Longrightarrow> acked (snd r) (axi_clock bus_idle r a)"
  using quiet_idle [of a r] take31_bit0 [of "slv_reg2 a" 1] by (auto simp: acked_def axi_defs quiet_def)

subsection \<open>Accesses at the slave\<close>

lemma reg_nos [simp]: "reg_no 0 = 0" "reg_no 8 = 2"
  by (simp_all add: reg_no_def)

lemma bit_put_byte [simp]: "bit (put_byte k v w) n \<longleftrightarrow> (if 8 * k \<le> n \<and> n < 8 * k + 8 then bit v n else bit w n)"
proof -
  have ff: "(0xFF :: 32 word) = mask 8" by (simp add: mask_eq_exp_minus_1)
  have "bit (mask 8 :: 32 word) j \<longleftrightarrow> possible_bit TYPE(32 word) j \<and> j < 8" for j by (rule bit_mask_iff)
  then have "bit (0xFF :: 32 word) j \<longleftrightarrow> j < 32 \<and> j < 8" for j unfolding ff by (simp only: possible_bit_word) simp
  then have "bit (push_bit (8 * k) (0xFF :: 32 word)) n \<longleftrightarrow> 8 * k \<le> n \<and> n < 32 \<and> n < 8 * k + 8" by (simp only: bit_push_bit_iff possible_bit_word) auto
  then show ?thesis
    by (cases "n < 32") (auto simp: put_byte_def bit_and_iff bit_or_iff bit_not_iff dest: bit_imp_le_length)
qed

lemma put_low_half:
  assumes "take_bit 31 w = u" and "u \<in> {0, 1}"
  shows "take_bit 31 (put_byte 1 (ucast v) (put_byte 0 (ucast v) w)) = (ucast (v :: 16 word) :: 32 word)"
proof (rule bit_word_eqI)
  fix n assume "n < LENGTH(32)"
  have high: "\<not> bit w n" if "0 < n" "n < 31"
    using arg_cong [OF assms(1), of "\<lambda>x. bit x n"] assms(2) that by (auto simp: bit_take_bit_iff bit_1_iff)
  show "bit (take_bit 31 (put_byte 1 (ucast v) (put_byte 0 (ucast v) w))) n = bit (ucast v :: 32 word) n"
    using high bit_imp_le_length [of v n] by (auto simp: bit_simps)
qed

lemma aresetn_high [simp]: "ARESETN bus_idle" "ARESETN (bus_read off)" "ARESETN (bus_write16 off v)"
  by (simp_all add: bus_idle_def bus_read_def bus_write16_def)

lemma strobe_both [simp]: "strobe_byte (bus_write16 off v) (Suc 0) (strobe_byte (bus_write16 off v) 0 w) = put_byte (Suc 0) (ucast v) (put_byte 0 (ucast v) w)"
proof -
  have "bit (3 :: 4 word) 0" "bit (3 :: 4 word) 1" by simp_all
  then show ?thesis by (simp add: strobe_byte_def bus_write16_def bus_idle_def)
qed

lemma slave_read:
  fixes r :: "32 word \<times> 32 word" and off :: "4 word" and a :: axi_slave
  assumes "quiet a" and "slv_reg1_prev a = snd r"
  defines "a1 \<equiv> axi_clock (bus_read off) r a"
  defines "a2 \<equiv> axi_clock (bus_read off) r a1"
  defines "a3 \<equiv> axi_clock bus_idle r a2"
  shows "axi_rdata a2 = reg_data_out r a1" "axi_araddr a1 = off" "resting (snd r) irq a \<Longrightarrow> resting (snd r) irq a3" "acked (snd r) a \<Longrightarrow> acked (snd r) a3"
    "slv_reg2 a1 = put_bit 31 (IR_interrupt a) (slv_reg2 a)"
proof -
  have a1: "axi_arready a1" "axi_araddr a1 = off" "\<not> axi_awready a1" "\<not> axi_wready a1" "\<not> axi_bvalid a1" "\<not> axi_rvalid a1"
    using assms(1) by (simp_all add: a1_def quiet_def axi_defs)
  then show "axi_rdata a2 = reg_data_out r a1" "axi_araddr a1 = off" by (simp_all add: a2_def axi_defs)
  show "slv_reg2 a1 = put_bit 31 (IR_interrupt a) (slv_reg2 a)" using assms(1) by (simp add: a1_def quiet_def axi_defs)
  have a2: "\<not> axi_arready a2" "axi_rvalid a2" "\<not> axi_awready a2" "\<not> axi_wready a2" "\<not> axi_bvalid a2"
    using a1 by (simp_all add: a2_def axi_defs)
  have a3: "quiet a3" using a2 by (simp add: a3_def quiet_def axi_defs)
  have reg2: "take_bit 31 (slv_reg2 a1) = take_bit 31 (slv_reg2 a)" "take_bit 31 (slv_reg2 a2) = take_bit 31 (slv_reg2 a)" "take_bit 31 (slv_reg2 a3) = take_bit 31 (slv_reg2 a)"
    using assms(1) a1 a2 by (simp_all add: a1_def a2_def a3_def quiet_def axi_defs)
  have irq: "IR_interrupt a3 = (IR_interrupt a \<and> \<not> bit (slv_reg2 a) 0)" "slv_reg1_prev a3 = snd r"
    using assms(1,2) reg2 [THEN take31_bit0] by (auto simp: a1_def a2_def a3_def axi_defs bit_simps)
  show "resting (snd r) irq a \<Longrightarrow> resting (snd r) irq a3" using a3 reg2 irq take31_bit0 [of "slv_reg2 a" 0] by (auto simp: resting_def)
  show "acked (snd r) a \<Longrightarrow> acked (snd r) a3" using a3 reg2 irq by (auto simp: acked_def)
qed

lemma slave_write:
  fixes r :: "32 word \<times> 32 word" and v :: "16 word" and a :: axi_slave
  assumes "quiet a" and "slv_reg1_prev a = snd r" and "take_bit 31 (slv_reg2 a) \<in> {0, 1}"
  defines "a1 \<equiv> axi_clock (bus_write16 8 v) r a"
  defines "a2 \<equiv> axi_clock (bus_write16 8 v) r a1"
  defines "a3 \<equiv> axi_clock bus_idle r a2"
  shows "quiet a3" "slv_reg1_prev a3 = snd r" "take_bit 31 (slv_reg2 a3) = ucast v"
    "IR_interrupt a3 = (IR_interrupt a \<and> \<not> bit (slv_reg2 a) 0 \<and> \<not> bit v 0)"
proof -
  have a1: "axi_awready a1" "axi_wready a1" "axi_awaddr a1 = 8" "\<not> axi_arready a1" "\<not> axi_bvalid a1" "\<not> axi_rvalid a1"
    "take_bit 31 (slv_reg2 a1) = take_bit 31 (slv_reg2 a)" "slv_reg1_prev a1 = snd r" "IR_interrupt a1 = (IR_interrupt a \<and> \<not> bit (slv_reg2 a) 0)"
    using assms(1,2) by (auto simp: a1_def quiet_def axi_defs)
  have wren: "slv_reg_wren (bus_write16 8 v) a1" using a1 by (simp add: slv_reg_wren_def bus_write16_def bus_idle_def)
  have reg2: "take_bit 31 (slv_reg2 a2) = ucast v"
    using put_low_half [OF a1(7) assms(3), of v] a1(3) wren
    by (simp add: a2_def axi_clock_def next_irq_def)
  have a2: "\<not> axi_awready a2" "\<not> axi_wready a2" "axi_bvalid a2" "\<not> axi_arready a2" "\<not> axi_rvalid a2" "slv_reg1_prev a2 = snd r"
    "IR_interrupt a2 = (IR_interrupt a \<and> \<not> bit (slv_reg2 a) 0)"
    using a1 take31_bit0 [OF a1(7)] by (auto simp: a2_def axi_defs bit_simps)
  show "quiet a3" "slv_reg1_prev a3 = snd r" "take_bit 31 (slv_reg2 a3) = ucast v"
    using a2 reg2 by (simp_all add: a3_def quiet_def axi_defs)
  show "IR_interrupt a3 = (IR_interrupt a \<and> \<not> bit (slv_reg2 a) 0 \<and> \<not> bit v 0)"
    using a2 take31_bit0 [OF reg2] by (auto simp: a3_def axi_defs bit_simps)
qed

end
