(* ===== verification/C_Numbers.thy ===== *)
theory C_Numbers
  imports Prelude
begin

section \<open>Decimal numbers in texts\<close>

text \<open>
  What the programs use of the C and C++ libraries to read a number: the extraction of an \<open>int\<close> from a
  stream, which the image reader calls, and \<open>atoi\<close>, by which the network programs and the test program of
  the infrared receiver read their arguments. Both read back what \<open>dec_digits\<close> prints.
\<close>

definition is_space :: "byte \<Rightarrow> bool" where
  "is_space b \<longleftrightarrow> b \<in> {9, 10, 11, 12, 13, 32}"

definition is_digit :: "byte \<Rightarrow> bool" where
  "is_digit b \<longleftrightarrow> 48 \<le> b \<and> b \<le> 57"

definition dec_value :: "byte list \<Rightarrow> nat" where
  "dec_value ds = foldl (\<lambda>n d. 10 * n + (unat d - 48)) 0 ds"

text \<open>\<open>stream >> i\<close> for an \<open>int\<close>: the value stored, whether the extraction succeeded, and what follows. Without a digit
  0 is stored, beyond the range the nearest bound.\<close>

definition read_int :: "byte list \<Rightarrow> int \<times> bool \<times> byte list" where
  "read_int s =
     (let s1 = dropWhile is_space s;
          neg = (s1 \<noteq> [] \<and> hd s1 = 45);
          s2 = (if s1 \<noteq> [] \<and> (hd s1 = 45 \<or> hd s1 = 43) then tl s1 else s1);
          ds = takeWhile is_digit s2;
          v = (if neg then - int (dec_value ds) else int (dec_value ds));
          r = drop (length ds) s2
      in if ds = [] then (0, False, r)
         else if v > INT_MAX then (INT_MAX, False, r)
         else if v < - INT_MAX - 1 then (- INT_MAX - 1, False, r)
         else (v, True, r))"

text \<open>\<open>atoi\<close> gives 0 for a text that does not start with a number; a number outside the range of \<open>int\<close> is
  undefined. \<open>htons(atoi(s))\<close> keeps the low sixteen bits.\<close>

definition atoi :: "byte list \<Rightarrow> int c_result" where
  "atoi s = (case read_int s of (v, ok, _) \<Rightarrow> if ok \<or> v = 0 then Inr v else Inl Signed_overflow)"

definition port_of :: "byte list \<Rightarrow> 16 word c_result" where
  "port_of s = c_bind (atoi s) (\<lambda>n. Inr (word_of_int n))"

subsection \<open>Printed numbers are read back\<close>

lemma dec_digit_facts:
  assumes "k < 10"
  shows "is_digit (of_nat (48 + k))" "unat (of_nat (48 + k) :: byte) - 48 = k" "\<not> is_space (of_nat (48 + k))"
    "of_nat (48 + k) \<noteq> (45 :: byte)" "of_nat (48 + k) \<noteq> (43 :: byte)" "of_nat (48 + k) \<noteq> (10 :: byte)" "of_nat (48 + k) \<noteq> (35 :: byte)"
proof -
  have u: "unat (of_nat (48 + k) :: byte) = 48 + k" unfolding unat_of_nat using assms by simp
  then show "unat (of_nat (48 + k) :: byte) - 48 = k" "is_digit (of_nat (48 + k))"
    using assms by (simp_all add: is_digit_def word_le_nat_alt)
  have ne: "of_nat (48 + k) \<noteq> (c :: byte)" if "unat c < 48" for c using u that by auto
  show "\<not> is_space (of_nat (48 + k))" unfolding is_space_def using ne [of 9] ne [of 10] ne [of 11] ne [of 12] ne [of 13] ne [of 32] by simp
  show "of_nat (48 + k) \<noteq> (45 :: byte)" "of_nat (48 + k) \<noteq> (43 :: byte)" "of_nat (48 + k) \<noteq> (10 :: byte)" "of_nat (48 + k) \<noteq> (35 :: byte)"
    using ne [of 45] ne [of 43] ne [of 10] ne [of 35] by simp_all
qed

lemma dec_value_snoc: "dec_value (ds @ [d]) = 10 * dec_value ds + (unat d - 48)"
  by (simp add: dec_value_def)

lemma dec_digits_all:
  "(\<forall>b\<in>set (dec_digits n). is_digit b \<and> \<not> is_space b \<and> b \<noteq> 45 \<and> b \<noteq> 43 \<and> b \<noteq> 10 \<and> b \<noteq> 35) \<and>
   dec_digits n \<noteq> [] \<and> dec_value (dec_digits n) = n"
proof (induction n rule: dec_digits.induct)
  case (1 n)
  show ?case
  proof (cases "n < 10")
    case True
    have "dec_value [of_nat (48 + n)] = n" using dec_digit_facts(2) [OF True] by (simp add: dec_value_def)
    with True dec_digit_facts [OF True] show ?thesis by (subst (1 2 3) dec_digits.simps) simp
  next
    case False
    have k: "n mod 10 < 10" by simp
    have "dec_value (dec_digits (n div 10) @ [of_nat (48 + n mod 10)]) = n"
      using 1 False dec_digit_facts(2) [OF k] by (simp add: dec_value_snoc)
    with 1 False dec_digit_facts [OF k] show ?thesis by (subst (1 2 3) dec_digits.simps) auto
  qed
qed

lemma read_int_dec:
  assumes "int n \<le> INT_MAX" and "r = [] \<or> \<not> is_digit (hd r)" and "\<forall>b\<in>set ws. is_space b"
  shows "read_int (ws @ dec_digits n @ r) = (int n, True, r)"
proof -
  from dec_digits_all [of n] obtain d ds where d: "dec_digits n = d # ds" "\<not> is_space d" "d \<noteq> 45" "d \<noteq> 43"
    by (cases "dec_digits n") auto
  have s1: "dropWhile is_space (ws @ dec_digits n @ r) = dec_digits n @ r" using assms(3) d by (simp add: dropWhile_append2)
  have tw: "takeWhile is_digit (dec_digits n @ r) = dec_digits n"
    using dec_digits_all [of n] assms(2) by (cases r) (simp_all add: takeWhile_append2)
  show ?thesis
    unfolding read_int_def s1 using d tw dec_digits_all [of n] assms(1) by (auto simp: Let_def INT_MAX_def)
qed

lemma atoi_dec:
  assumes "int n \<le> INT_MAX" and "r = [] \<or> \<not> is_digit (hd r)"
  shows "atoi (dec_digits n @ r) = Inr (int n)"
  using read_int_dec [OF assms, of "[]"] by (simp add: atoi_def)

lemma atoi_no_digit:
  assumes "s = [] \<or> \<not> is_space (hd s) \<and> \<not> is_digit (hd s) \<and> hd s \<noteq> 45 \<and> hd s \<noteq> 43"
  shows "atoi s = Inr 0"
  using assms by (cases s) (auto simp: atoi_def read_int_def)

lemma port_of_dec: "n < 65536 \<Longrightarrow> port_of (dec_digits n) = Inr (of_nat n)"
  using atoi_dec [of n "[]"] by (simp add: port_of_def INT_MAX_def)

end
