(* ===== verification/Ir_Test.thy ===== *)
theory Ir_Test
  imports Ir_Dev C_Numbers
begin

section \<open>The infrared test program (ECEN749/lab8/src/devtest.c)\<close>

text \<open>
  The whole test program: it opens the device, and then for ever reads as many messages as the
  number in \<open>input\<close> says, prints them and asks for the next number. \<open>input\<close> has three bytes, but
  \<open>fgets\<close> may store a hundred. The condition of the loop compares the address of \<open>input\<close> with the
  address of a literal, so that it always holds. While the program waits for a line the
  interrupt handler may run; \<open>None\<close> for a line is the end of the input, where \<open>fgets\<close> stores nothing.
\<close>

definition MAX_STRING_SIZE :: nat where
  "MAX_STRING_SIZE = 100"

definition ir_devtest_fgets :: "byte list option \<Rightarrow> byte list \<Rightarrow> byte list c_result" where
  "ir_devtest_fgets line input =
     (case line of None \<Rightarrow> Inr input
      | Some l \<Rightarrow> buf_write 0 (take (MAX_STRING_SIZE - 1) l @ [0]) input)"

text \<open>A negative count is beyond \<open>SSIZE_MAX\<close> for \<open>read\<close>, which then fails; the loop that prints runs zero times.\<close>

definition ir_devtest_ask :: "byte list \<Rightarrow> byte list \<Rightarrow> ir_dev \<Rightarrow> (16 word list \<times> byte list \<times> ir_dev) c_result" where
  "ir_devtest_ask input rd_buf s =
     c_bind (c_str input) (\<lambda>txt. c_bind (atoi txt) (\<lambda>input_num.
       if input_num < 0 then Inr ([], rd_buf, s) else ir_devtest_round (nat input_num) rd_buf s))"

text \<open>Each element of the list is a burst of interrupts and the line typed after it; when the list is used
  up the program waits in \<open>fgets\<close>. The result has what was printed.\<close>

fun ir_devtest_loop :: "(nat \<Rightarrow> 32 word) \<Rightarrow> (32 word list \<times> byte list option) list \<Rightarrow> byte list \<Rightarrow> byte list \<Rightarrow> ir_dev \<Rightarrow>
    16 word list \<Rightarrow> (16 word list \<times> ir_dev) c_result option" where
  "ir_devtest_loop ctrl evs input rd_buf s out =
     (case ir_devtest_ask input rd_buf s of Inl u \<Rightarrow> Some (Inl u)
      | Inr (new, rd_buf1, s1) \<Rightarrow>
          (case evs of [] \<Rightarrow> Some (Inr (out @ new, s1))
           | (raws, line) # evs' \<Rightarrow>
               (case ir_irqs ctrl raws s1 of None \<Rightarrow> None
                | Some (Inl u) \<Rightarrow> Some (Inl u)
                | Some (Inr s2) \<Rightarrow>
                    (case ir_devtest_fgets line input of Inl u \<Rightarrow> Some (Inl u)
                     | Inr input1 \<Rightarrow> ir_devtest_loop ctrl evs' input1 rd_buf1 s2 (out @ new)))))"

declare ir_devtest_loop.simps [simp del]

datatype test_end = Test_returned int | Test_waiting "16 word list" ir_dev

definition ir_devtest_main :: "open_env \<Rightarrow> (nat \<Rightarrow> byte) \<Rightarrow> (nat \<Rightarrow> 32 word) \<Rightarrow> (32 word list \<times> byte list option) list \<Rightarrow> ir_dev \<Rightarrow> test_end c_result option" where
  "ir_devtest_main e junk ctrl evs s =
     (case ir_device_open e s of Inl u \<Rightarrow> Some (Inl u)
      | Inr (r, s1) \<Rightarrow>
          if r < 0 then Some (Inr (Test_returned (- 1)))
          else map_option (\<lambda>x. c_bind x (\<lambda>(out, s2). Inr (Test_waiting out s2)))
                 (ir_devtest_loop ctrl evs [48, 0, 0] (map junk [0..<MAX_STRING_SIZE * 2]) s1 []))"

subsection \<open>A session\<close>

definition low12 :: "32 word \<Rightarrow> 16 word" where
  "low12 raw = ucast (raw AND 0xfff)"

text \<open>What the user is promised: a mailbox, from which a number takes that many of the oldest messages.\<close>

fun mailbox :: "('a list \<times> nat) list \<Rightarrow> 'a list \<Rightarrow> 'a list" where
  "mailbox [] pending = []"
| "mailbox ((raws, n) # evs) pending = take n (pending @ raws) @ mailbox evs (drop n (pending @ raws))"

text \<open>The device holds the decoded \<open>pending\<close>, with room and read positions for \<open>extra\<close> messages.\<close>

definition holds :: "ir_dev \<Rightarrow> 32 word list \<Rightarrow> nat \<Rightarrow> bool" where
  "holds s pending extra \<longleftrightarrow> (\<exists>q. msg_queue_Ptr s = Q_live q \<and> mq_inv q \<and> mq_content q = map ir_decode pending \<and>
     length pending + extra \<le> nat (capacity q) \<and> length pending + extra \<le> mq_budget q)"

lemma holds_round:
  assumes "holds s pending extra" and "length rd_buf = ir_rd_buf_size" and "n \<le> 100"
  shows "\<exists>buf s'. ir_devtest_round n rd_buf s = Inr (map low12 (take n pending), buf, s') \<and>
    length buf = ir_rd_buf_size \<and> holds s' (drop n pending) extra"
proof (cases "n = 0")
  case True
  with assms show ?thesis by (simp add: ir_devtest_round_def)
next
  case False
  from assms(1) obtain q where q: "msg_queue_Ptr s = Q_live q" "mq_inv q" "mq_content q = map ir_decode pending"
      "length pending + extra \<le> nat (capacity q)" "length pending + extra \<le> mq_budget q"
    unfolding holds_def by blast
  have "min n (length (mq_content q)) \<le> mq_budget q" using q(3,5) by simp
  from ir_device_read_live [OF q(1,2) this] obtain q' where q': "ir_device_read n s =
        Inr (int (length (take n pending)), concat (map msg_bytes (map ir_decode (take n pending))), s\<lparr>msg_queue_Ptr := Q_live q'\<rparr>)"
      "mq_inv q'" "mq_content q' = map ir_decode (drop n pending)" "nat (capacity q') = nat (capacity q)"
      "mq_budget q' + length (take n pending) = mq_budget q"
    by (auto simp: q(3) take_map drop_map min.commute simp del: map_map)
  let ?buf = "concat (map msg_bytes (map ir_decode (take n pending))) @ drop (2 * length (take n pending)) rd_buf"
  have fits: "2 * length (take n pending) \<le> length rd_buf" using assms(2,3) by (simp add: ir_rd_buf_size_def)
  then have w: "buf_write 0 (concat (map msg_bytes (map ir_decode (take n pending)))) rd_buf = Inr ?buf"
    by (simp only: buf_write_def length_concat_msg_bytes length_map) simp
  have len: "length ?buf = ir_rd_buf_size" using fits assms(2) by (simp only: length_append length_concat_msg_bytes length_map length_drop)
  have "holds (s\<lparr>msg_queue_Ptr := Q_live q'\<rparr>) (drop n pending) extra" using q q' by (auto simp: holds_def)
  moreover have "ir_devtest_round n rd_buf s = Inr (map low12 (take n pending), ?buf, s\<lparr>msg_queue_Ptr := Q_live q'\<rparr>)"
    using q'(1) w ir_devtest_print_decoded [OF fits] False
    by (simp add: ir_devtest_round_def low12_def [abs_def] del: map_map length_take)
  ultimately show ?thesis using len by blast
qed

lemma holds_irqs:
  assumes "holds s pending (length raws + extra)" and "\<exists>k. ctrl k AND 0x8000 = 0"
  shows "\<exists>s'. ir_irqs ctrl raws s = Some (Inr s') \<and> holds s' (pending @ raws) extra"
proof -
  from assms(1) obtain q where q: "msg_queue_Ptr s = Q_live q" "mq_inv q" "mq_content q = map ir_decode pending"
      "length pending + (length raws + extra) \<le> nat (capacity q)" "length pending + (length raws + extra) \<le> mq_budget q"
    unfolding holds_def by blast
  have "ir_poll ctrl 0 \<noteq> None" using assms(2) by (simp only: ir_poll_iff)
  moreover have "length (mq_content q) + length raws \<le> nat (capacity q)" using q(3,4) by simp
  ultimately obtain s' q' where "ir_irqs ctrl raws s = Some (Inr s')" "msg_queue_Ptr s' = Q_live q'"
      "mq_inv q'" "mq_content q' = mq_content q @ map ir_decode raws" "capacity q' = capacity q" "mq_budget q' = mq_budget q"
    using ir_irqs_content [OF q(1,2)] by blast
  with q show ?thesis by (auto simp: holds_def)
qed

definition digit_line :: "nat \<Rightarrow> byte list" where
  "digit_line n = dec_digits n @ [10]"

lemma digit_input:
  assumes "n < 10" and "length input = 3"
  shows "ir_devtest_fgets (Some (digit_line n)) input = Inr (digit_line n @ [0])"
  using assms by (auto simp: ir_devtest_fgets_def digit_line_def buf_write_def MAX_STRING_SIZE_def)

lemma ask_digit:
  assumes "n < 10"
  shows "ir_devtest_ask (digit_line n @ [0]) rd_buf s = ir_devtest_round n rd_buf s"
proof -
  have "c_str (digit_line n @ [0]) = Inr (digit_line n)"
    using dec_digits_no_zero [of n] by (simp add: c_str_def digit_line_def) (subst takeWhile_append2, auto)
  moreover have "atoi (digit_line n) = Inr (int n)"
    using atoi_dec [of n "[10]"] assms by (simp add: digit_line_def is_digit_def INT_MAX_def)
  ultimately show ?thesis by (simp add: ir_devtest_ask_def)
qed

lemma session_loop:
  assumes "\<exists>k. ctrl k AND 0x8000 = 0" and "\<forall>(raws, n)\<in>set evs. n < 10"
    and "holds s pending (length (concat (map fst evs)))" and "length rd_buf = ir_rd_buf_size" and "length input = 3"
    and "ir_devtest_ask input rd_buf s = ir_devtest_round n rd_buf s" and "n < 10"
  shows "\<exists>s'. ir_devtest_loop ctrl (map (\<lambda>(raws, n). (raws, Some (digit_line n))) evs) input rd_buf s out =
    Some (Inr (out @ map low12 (take n pending @ mailbox evs (drop n pending)), s'))"
  using assms
proof (induction evs arbitrary: s pending rd_buf input n out)
  case Nil
  then obtain buf s' where "ir_devtest_round n rd_buf s = Inr (map low12 (take n pending), buf, s')"
    using holds_round [OF Nil.prems(3,4), of n] by auto
  with Nil show ?case by (subst ir_devtest_loop.simps) simp
next
  case (Cons ev evs)
  obtain raws m where ev: "ev = (raws, m)" by (cases ev)
  obtain buf s1 where 1: "ir_devtest_round n rd_buf s = Inr (map low12 (take n pending), buf, s1)" "length buf = ir_rd_buf_size"
      "holds s1 (drop n pending) (length raws + length (concat (map fst evs)))"
    using holds_round [OF Cons.prems(3,4), of n] Cons.prems(7) ev by auto
  obtain s2 where 2: "ir_irqs ctrl raws s1 = Some (Inr s2)" "holds s2 (drop n pending @ raws) (length (concat (map fst evs)))"
    using holds_irqs [OF 1(3) Cons.prems(1)] by blast
  have m: "m < 10" using Cons.prems(2) ev by simp
  have "length (digit_line m @ [0]) = 3" using m by (simp add: digit_line_def)
  from Cons.IH [OF Cons.prems(1) _ 2(2) 1(2) this ask_digit [OF m] m, of "out @ map low12 (take n pending)"] Cons.prems(2)
  obtain s' where s': "ir_devtest_loop ctrl (map (\<lambda>(raws, n). (raws, Some (digit_line n))) evs) (digit_line m @ [0]) buf s2
      (out @ map low12 (take n pending)) =
      Some (Inr ((out @ map low12 (take n pending)) @ map low12 (take m (drop n pending @ raws) @ mailbox evs (drop m (drop n pending @ raws))), s'))"
    by auto
  have "ir_devtest_loop ctrl (map (\<lambda>(raws, n). (raws, Some (digit_line n))) (ev # evs)) input rd_buf s out =
      ir_devtest_loop ctrl (map (\<lambda>(raws, n). (raws, Some (digit_line n))) evs) (digit_line m @ [0]) buf s2 (out @ map low12 (take n pending))"
    using 1(1) 2(1) Cons.prems(6) digit_input [OF m Cons.prems(5)] by (subst ir_devtest_loop.simps) (simp add: ev)
  with s' show ?case by (simp add: ev)
qed

text \<open>The infrared receiver works as a mailbox. For every sequence of interrupt bursts and one-digit numbers typed at the
  test program, with at most 99 interrupts in all, the program prints the low twelve bits of the oldest messages, each number as many as it
  says or as there are, and every message at most once; it then waits for the next number, and no buffer of the driver or of the program
  is left.\<close>

theorem ir_session_refines:
  assumes "Device_Open s = 0" and "\<not> down_interrupted e" and "0 \<le> irq_ret e"
    and "queue_kmalloc e" and "array_kmalloc e = Some arr" and "length arr = QUEUE_LEN"
    and "\<exists>k. ctrl k AND 0x8000 = 0"
    and "\<forall>(raws, n)\<in>set evs. n < 10" and "length (concat (map fst evs)) < QUEUE_LEN"
  shows "\<exists>s'. ir_devtest_main e junk ctrl (map (\<lambda>(raws, n). (raws, Some (digit_line n))) evs) s =
    Some (Inr (Test_waiting (map low12 (mailbox evs [])) s'))"
proof -
  obtain s1 q where 1: "ir_device_open e s = Inr (0, s1)" "msg_queue_Ptr s1 = Q_live q" "mq_inv q"
      "mq_content q = []" "capacity q = int QUEUE_LEN" "mq_budget q = QUEUE_LEN - 1"
    using ir_device_open_ok [OF assms(1-6)] by auto
  then have "holds s1 [] (length (concat (map fst evs)))" using assms(9) by (simp add: holds_def)
  moreover have "atoi [48] = Inr (int 0)" using atoi_dec [of 0 "[]"] by (simp add: INT_MAX_def)
  then have "ir_devtest_ask [48, 0, 0] rd_buf s1 = ir_devtest_round 0 rd_buf s1" for rd_buf
    by (simp add: ir_devtest_ask_def c_str_def)
  moreover have "length (map junk [0..<MAX_STRING_SIZE * 2]) = ir_rd_buf_size" by (simp add: MAX_STRING_SIZE_def ir_rd_buf_size_def)
  ultimately obtain s' where "ir_devtest_loop ctrl (map (\<lambda>(raws, n). (raws, Some (digit_line n))) evs) [48, 0, 0]
      (map junk [0..<MAX_STRING_SIZE * 2]) s1 [] = Some (Inr ([] @ map low12 (take 0 [] @ mailbox evs (drop 0 [])), s'))"
    using session_loop [OF assms(7,8), of s1 "[]" "map junk [0..<MAX_STRING_SIZE * 2]" "[48, 0, 0]" 0 "[]"] by auto
  with 1 show ?thesis by (simp add: ir_devtest_main_def)
qed

theorem ir_session_refines_witness:
  "\<exists>s'. ir_devtest_main ir_open_env_ok (\<lambda>_. 7) (\<lambda>_. 0) [([0x12345, 0xC90], Some (digit_line 1)), ([0x111], Some (digit_line 9))] ir_dev_static =
    Some (Inr (Test_waiting [0x345, 0xC90, 0x111] s'))"
proof -
  have low: "low12 0x12345 = 0x345" "low12 0xC90 = 0xC90" "low12 0x111 = 0x111" by (simp_all add: low12_def)
  have box: "mailbox [([0x12345, 0xC90], 1), ([0x111], 9)] [] = [0x12345, 0xC90, 0x111]" by simp
  have env: "Device_Open ir_dev_static = 0" "\<not> down_interrupted ir_open_env_ok" "0 \<le> irq_ret ir_open_env_ok" "queue_kmalloc ir_open_env_ok"
    "array_kmalloc ir_open_env_ok = Some (replicate 100 \<lparr>byte_low = 0, byte_high = 0\<rparr>)"
    "length (replicate 100 \<lparr>byte_low = 0, byte_high = 0\<rparr>) = QUEUE_LEN"
    unfolding ir_dev_static_def ir_open_env_ok_def QUEUE_LEN_def by simp_all
  show ?thesis
    using ir_session_refines [OF env, of "\<lambda>_. 0" "[([0x12345, 0xC90], 1), ([0x111], 9)]" "\<lambda>_. 7", unfolded box]
    by (simp add: low QUEUE_LEN_def)
qed

subsection \<open>Lines the program cannot take\<close>

text \<open>A line of two or more characters overruns \<open>input\<close>: a number of two digits, which the prompt asks for when there are more than
  nine messages, has four bytes with its end of line and terminator.\<close>

theorem ir_two_digits_overrun:
  assumes "ir_devtest_ask input rd_buf s = Inr (new, rd_buf1, s1)" and "ir_irqs ctrl raws s1 = Some (Inr s2)"
    and "length input = 3" and "2 \<le> length l"
  shows "ir_devtest_loop ctrl ((raws, Some (l @ [10])) # evs) input rd_buf s out = Some (Inl Out_of_bounds)"
  using assms by (subst ir_devtest_loop.simps) (auto simp: ir_devtest_fgets_def buf_write_def MAX_STRING_SIZE_def min_def)

text \<open>The comment promises that \<open>q\<close> ends the program. It does not: the program takes it for the number zero, prints nothing
  and asks again.\<close>

theorem ir_q_does_not_quit:
  assumes "ir_devtest_ask input rd_buf s = Inr (new, rd_buf1, s1)" and "length input = 3"
  shows "ir_devtest_loop ctrl [([], Some [113, 10])] input rd_buf s out = Some (Inr (out @ new, s1))"
proof -
  have "atoi [113, 10] = Inr 0" by (rule atoi_no_digit) (simp add: is_space_def is_digit_def)
  then have "ir_devtest_ask [113, 10, 0] rd_buf1 s1 = Inr ([], rd_buf1, s1)"
    by (simp add: ir_devtest_ask_def c_str_def ir_devtest_round_def)
  then have "ir_devtest_loop ctrl [] [113, 10, 0] rd_buf1 s1 (out @ new) = Some (Inr (out @ new, s1))"
    by (subst ir_devtest_loop.simps) simp
  moreover have "ir_devtest_fgets (Some [113, 10]) input = Inr [113, 10, 0]"
    using assms(2) by (simp add: ir_devtest_fgets_def buf_write_def MAX_STRING_SIZE_def)
  ultimately show ?thesis using assms(1) by (subst ir_devtest_loop.simps) simp
qed

end
