(* ===== verification/Ir_Receiver.thy ===== *)
theory Ir_Receiver
  imports Ir_Axi Ir_Test
begin

section \<open>From the remote control to the user (ECEN749/lab8)\<close>




subsection \<open>Cycles in which no message is completed\<close>







subsection \<open>The handler\<close>



subsection \<open>Frame after frame\<close>




subsection \<open>The whole way\<close>










subsection \<open>A message during the acknowledgement\<close>

text \<open>While the driver holds bit 0 of the control register, a message that is completed raises no interrupt, and none is raised for it
  afterwards: the slave takes note of the new count all the same.\<close>

theorem message_during_ack_lost:
  assumes "acked p a" and "snd r \<noteq> p"
  shows "acked (snd r) (axi_clock bus_idle r a)" "\<not> IR_interrupt (axi_clock bus_idle r a)"
  using acked_idle [OF assms(1), of r] by (simp_all add: acked_def)

end
