(* ===== verification/Tftp_Common.thy ===== *)
theory Tftp_Common
  imports Prelude
begin

section \<open>What the two TFTP servers share (ECEN602/assignment3)\<close>

text \<open>
  \<open>tftps.c\<close> and \<open>server.c\<close> are two versions of one server: the parent receives a request datagram and
  forks a child that answers it from a socket of its own. This theory holds the child's variables as
  a record, the calls both versions make on them (\<open>sendto\<close>, \<open>recvfrom\<close>, \<open>getc\<close>, \<open>putc\<close>, the building
  of packets), what the operating system decides as arguments, and the specification of a
  stop-and-wait transfer that the read paths of both versions are measured against.

  The scratch buffers \<open>datapack\<close>, \<open>errmsg\<close> and \<open>ACK\<close> are rebuilt from their start before every use, so
  only their size matters; \<open>send_pack\<close>, \<open>packet\<close> and \<open>data\<close> keep old bytes and are part of the state.
  The field \<open>sent\<close> records the datagrams that \<open>sendto\<close> took, oldest first.
\<close>

definition MAXCHAR :: nat where
  "MAXCHAR = 1000"

definition HEADER :: nat where
  "HEADER = 4"

definition NOBYTES :: nat where
  "NOBYTES = 512"

definition SEND_LEN :: nat where
  "SEND_LEN = 517"

definition ERRMSG_LEN :: nat where
  "ERRMSG_LEN = 100"

definition EOF :: int where
  "EOF = - 1"

text \<open>
  A stream is indeterminate until \<open>fopen\<close> assigned it; one open for reading holds the bytes still to
  come, one open for writing the bytes written. The descriptor of octet mode holds the results of
  the \<open>read\<close> calls still to come, a failure being \<open>None\<close>; past the end of the list \<open>read\<close> returns 0.
\<close>

datatype stream = Fp_uninit | Fp_read "byte list" | Fp_write "byte list"

record tftp_child =
  packet :: "byte list"
  send_pack :: "byte list"
  data_buf :: "byte list"
  size_sp :: "nat option"
  read_flag :: int
  write_flag :: int
  stop_flag :: int
  mode_flag :: int
  time_count :: int
  block_number :: "16 word"
  nextch :: int
  fp :: stream
  read_fd :: "byte list option list option"
  sent :: "byte list list"

text \<open>How a stretch of the child ends: it goes on, leaves the enclosing loop, or exits with a status.\<close>

datatype 'c flow = Go 'c | Brk 'c | Exit int 'c

text \<open>What \<open>select\<close> and \<open>recvfrom\<close> report in one round of the child's loop.\<close>

datatype net_event = Timed_out | Datagram "byte list" | Recv_failed

text \<open>The file system as the child finds it, for every file name.\<close>

record tftp_fs =
  open_rdwr :: "byte list \<Rightarrow> byte list option list option"
  fopen_r :: "byte list \<Rightarrow> byte list option"
  fopen_wx :: "byte list \<Rightarrow> bool"

text \<open>\<open>recvfrom(fd, packet, sizeof(packet), ...)\<close>: a datagram overwrites the front of the buffer.\<close>

definition tftp_recv :: "byte list \<Rightarrow> byte list \<Rightarrow> byte list" where
  "tftp_recv d pkt = take MAXCHAR d @ drop (length (take MAXCHAR d)) pkt"

text \<open>The two bytes stored for a block number, high byte first.\<close>

definition be16 :: "16 word \<Rightarrow> byte list" where
  "be16 w = [ucast (drop_bit 8 (w AND 0xFF00)), ucast (w AND 0x00FF)]"

text \<open>\<open>(block_number + 1) % 65536\<close>, computed in \<open>int\<close> and stored in an \<open>unsigned short\<close>.\<close>

definition next_block :: "16 word \<Rightarrow> 16 word" where
  "next_block bn = word_of_int ((uint bn + 1) mod 65536)"

text \<open>A packet built in a scratch buffer of size \<open>cap\<close>, then copied to \<open>send_pack\<close>.\<close>

definition tftp_stage :: "nat \<Rightarrow> byte list \<Rightarrow> byte list \<Rightarrow> tftp_child \<Rightarrow> tftp_child c_result" where
  "tftp_stage cap hdr payload c =
     (if cap < length hdr + length payload then Inl Out_of_bounds
      else c_bind (buf_write 0 (hdr @ payload) (send_pack c))
             (\<lambda>sp. Inr (c\<lparr>send_pack := sp, size_sp := Some (length hdr + length payload)\<rparr>)))"

text \<open>\<open>sendto(childsockfd, send_pack, size_sp, ...)\<close>; on failure the child exits with status 1.\<close>

definition tftp_send ::
  "bool \<Rightarrow> tftp_child \<Rightarrow> (tftp_child \<Rightarrow> tftp_child flow) \<Rightarrow> tftp_child flow c_result" where
  "tftp_send ok c k =
     (case size_sp c of None \<Rightarrow> Inl Uninitialised
      | Some n \<Rightarrow> c_bind (buf_read 0 n (send_pack c))
          (\<lambda>d. Inr (if ok then k (c\<lparr>sent := sent c @ [d]\<rparr>) else Exit 1 c)))"

text \<open>\<open>strcpy\<close> of the file name and the mode into their ten-byte arrays.\<close>

definition tftp_parse :: "byte list \<Rightarrow> (byte list \<times> byte list) c_result" where
  "tftp_parse pkt =
     c_bind (c_strcpy (replicate 10 0) (drop 2 pkt)) (\<lambda>Filename.
     c_bind (c_str Filename) (\<lambda>name.
     c_bind (c_strcpy (replicate 10 0) (drop (2 + length name + 1) pkt)) (\<lambda>Mode.
     c_bind (c_str Mode) (\<lambda>mode. Inr (name, mode)))))"

definition is_octet :: "byte list \<Rightarrow> bool" where
  "is_octet mode \<longleftrightarrow> mode = lit ''octet'' \<or> mode = lit ''OCTET''"

definition is_netascii :: "byte list \<Rightarrow> bool" where
  "is_netascii mode \<longleftrightarrow> mode = lit ''netascii'' \<or> mode = lit ''NETASCII''"

text \<open>The character stored and the one left pending for a character read in netascii mode.\<close>

definition netascii_char :: "byte \<Rightarrow> byte \<times> int" where
  "netascii_char ch = (if ch = 10 then (13, 10) else if ch = 13 then (ch, 0) else (ch, - 1))"

text \<open>\<open>putc\<close> of several characters, in order; a stream open for reading refuses them.\<close>

definition tftp_putcs :: "byte list \<Rightarrow> stream \<Rightarrow> stream c_result" where
  "tftp_putcs bs f =
     (if bs = [] then Inr f
      else case f of Fp_uninit \<Rightarrow> Inl Uninitialised | Fp_read s \<Rightarrow> Inr f | Fp_write w \<Rightarrow> Inr (Fp_write (w @ bs)))"

text \<open>The bytes \<open>getc\<close> still delivers from a stream.\<close>

definition tftp_getcs :: "stream \<Rightarrow> byte list c_result" where
  "tftp_getcs f = (case f of Fp_uninit \<Rightarrow> Inl Uninitialised | Fp_read s \<Rightarrow> Inr s | Fp_write w \<Rightarrow> Inr [])"

text \<open>\<open>read(read_fd, data, NOBYTES)\<close>: the bytes read, or \<open>None\<close> for a failure.\<close>

definition tftp_read :: "byte list option list \<Rightarrow> byte list option \<times> byte list option list" where
  "tftp_read rs = (case rs of [] \<Rightarrow> (Some [], []) | r # rs' \<Rightarrow> (map_option (take NOBYTES) r, rs'))"

subsection \<open>The stop-and-wait specification\<close>

text \<open>The blocks of a transfer: full ones and a last one that is shorter, possibly empty.\<close>

function blocks_of :: "byte list \<Rightarrow> byte list list" where
  "blocks_of xs = (if length xs < NOBYTES then [xs] else take NOBYTES xs # blocks_of (drop NOBYTES xs))"
  by pat_completeness auto

termination blocks_of
  by (relation "measure length") (auto simp: NOBYTES_def)

declare blocks_of.simps [simp del]

text \<open>DATA packets numbered from \<open>n\<close>, modulo 65536.\<close>

fun data_packets :: "16 word \<Rightarrow> byte list list \<Rightarrow> byte list list" where
  "data_packets n [] = []"
| "data_packets n (b # bs) = ([0, 3] @ be16 n @ b) # data_packets (n + 1) bs"

datatype sw_event = Sw_timeout | Sw_ack

text \<open>
  The sender holds the packet last sent and those to come. A timeout sends the last one again and
  ends the transfer at the tenth in a row; an acknowledgement sends the next one, or ends the
  transfer when there is none. The result is the packets sent and whether the transfer ended.
\<close>

fun sw_run :: "byte list \<Rightarrow> byte list list \<Rightarrow> nat \<Rightarrow> sw_event list \<Rightarrow> byte list list \<times> bool" where
  "sw_run cur rest t [] = ([], False)"
| "sw_run cur rest t (Sw_timeout # es) =
     (if t + 1 \<ge> 10 then ([cur], True)
      else let (ps, e) = sw_run cur rest (t + 1) es in (cur # ps, e))"
| "sw_run cur rest t (Sw_ack # es) =
     (case rest of [] \<Rightarrow> ([], True)
      | p # rest' \<Rightarrow> let (ps, e) = sw_run p rest' 0 es in (p # ps, e))"

lemma next_block_eq [simp]: "next_block bn = bn + 1"
proof -
  have "next_block bn = word_of_int (uint (bn + 1))"
    by (simp only: next_block_def uint_word_ariths) simp
  then show ?thesis by simp
qed

text \<open>
  The contract of a block reader: it hands out the next 512 bytes of what is left to send and says
  that the transfer ends with this block exactly when fewer are left.
\<close>

locale block_reader =
  fixes nextb :: "'s \<Rightarrow> byte list \<times> bool \<times> 's"
    and invar :: "'s \<Rightarrow> bool"
    and content :: "'s \<Rightarrow> byte list"
  assumes block: "invar s \<Longrightarrow> fst (nextb s) = take NOBYTES (content s)"
    and last: "invar s \<Longrightarrow> fst (snd (nextb s)) \<longleftrightarrow> length (content s) < NOBYTES"
    and rest: "invar s \<Longrightarrow> NOBYTES \<le> length (content s) \<Longrightarrow>
      invar (snd (snd (nextb s))) \<and> content (snd (snd (nextb s))) = drop NOBYTES (content s)"
begin

lemma blocks_of_content:
  assumes "invar s"
  shows "blocks_of (content s) = fst (nextb s) #
     (if fst (snd (nextb s)) then [] else blocks_of (content (snd (snd (nextb s)))))"
  using block [OF assms] last [OF assms] rest [OF assms]
  by (subst blocks_of.simps) auto

end

subsection \<open>Octet files\<close>

text \<open>
  The results of \<open>read\<close> on a regular file: full blocks and at most one shorter block at the end.
\<close>

fun reads_ok :: "byte list option list \<Rightarrow> bool" where
  "reads_ok [] \<longleftrightarrow> True"
| "reads_ok (None # rs) \<longleftrightarrow> False"
| "reads_ok (Some b # rs) \<longleftrightarrow> length b \<le> NOBYTES \<and> (length b < NOBYTES \<longrightarrow> rs = []) \<and> reads_ok rs"

definition reads_content :: "byte list option list \<Rightarrow> byte list" where
  "reads_content rs = concat (map the rs)"

definition octet_next :: "byte list option list \<Rightarrow> byte list \<times> bool \<times> byte list option list" where
  "octet_next rs =
     (case tftp_read rs of (Some b, rs') \<Rightarrow> (b, length b < NOBYTES, rs') | (None, rs') \<Rightarrow> ([], True, rs'))"

interpretation octet: block_reader octet_next reads_ok reads_content
proof
  fix rs
  assume "reads_ok rs"
  then show "fst (octet_next rs) = take NOBYTES (reads_content rs)"
    by (cases rs rule: reads_ok.cases)
       (auto simp: octet_next_def tftp_read_def reads_content_def NOBYTES_def)
next
  fix rs
  assume "reads_ok rs"
  then show "fst (snd (octet_next rs)) \<longleftrightarrow> length (reads_content rs) < NOBYTES"
    by (cases rs rule: reads_ok.cases)
       (auto simp: octet_next_def tftp_read_def reads_content_def NOBYTES_def)
next
  fix rs
  assume "reads_ok rs" and "NOBYTES \<le> length (reads_content rs)"
  then show "reads_ok (snd (snd (octet_next rs))) \<and>
      reads_content (snd (snd (octet_next rs))) = drop NOBYTES (reads_content rs)"
    by (cases rs rule: reads_ok.cases)
       (auto simp: octet_next_def tftp_read_def reads_content_def NOBYTES_def)
qed

subsection \<open>Netascii text\<close>

fun netascii :: "byte list \<Rightarrow> byte list" where
  "netascii [] = []"
| "netascii (b # bs) = (if b = 10 then [13, 10] else if b = 13 then [13, 0] else [b]) @ netascii bs"

text \<open>A \<open>char\<close> cannot tell the byte 255 from \<open>EOF\<close>: the text of a file ends there.\<close>

definition text_part :: "byte list \<Rightarrow> byte list" where
  "text_part = takeWhile (\<lambda>b. char_val b \<noteq> EOF)"

definition pending :: "int \<Rightarrow> byte list" where
  "pending nx = (if nx \<ge> 0 then [word_of_int nx] else [])"

definition na_content :: "int \<times> byte list \<Rightarrow> byte list" where
  "na_content s = pending (fst s) @ netascii (text_part (snd s))"

subsection \<open>Packets\<close>

lemma tftp_stage_Inr:
  "length hdr + length payload \<le> cap \<Longrightarrow> length hdr + length payload \<le> length (send_pack c) \<Longrightarrow>
   tftp_stage cap hdr payload c =
     Inr (c\<lparr>send_pack := hdr @ payload @ drop (length hdr + length payload) (send_pack c),
            size_sp := Some (length hdr + length payload)\<rparr>)"
  by (simp add: tftp_stage_def buf_write_def)

text \<open>What \<open>sendto\<close> would transmit now.\<close>

definition staged :: "tftp_child \<Rightarrow> byte list" where
  "staged c = take (the (size_sp c)) (send_pack c)"

definition can_send :: "tftp_child \<Rightarrow> bool" where
  "can_send c \<longleftrightarrow> (case size_sp c of None \<Rightarrow> False | Some n \<Rightarrow> n \<le> length (send_pack c))"

lemma tftp_send_ok:
  "can_send c \<Longrightarrow> tftp_send ok c k = Inr (if ok then k (c\<lparr>sent := sent c @ [staged c]\<rparr>) else Exit 1 c)"
  by (auto simp: tftp_send_def can_send_def staged_def buf_read_def split: option.splits)

lemma length_be16 [simp]: "length (be16 w) = 2"
  by (simp add: be16_def)

subsection \<open>Rounds, and the contract of a sending child\<close>

fun child_loop :: "(net_event \<Rightarrow> bool \<Rightarrow> tftp_child \<Rightarrow> tftp_child flow c_result) \<Rightarrow>
    (net_event \<times> bool) list \<Rightarrow> tftp_child \<Rightarrow> tftp_child flow c_result" where
  "child_loop round [] c = Inr (Go c)"
| "child_loop round ((ev, ok) # es) c =
     c_bind (round ev ok c) (\<lambda>f. case f of Go c' \<Rightarrow> child_loop round es c' | _ \<Rightarrow> Inr f)"

lemma child_loop_append:
  "child_loop round es c = Inr (Go c1) \<Longrightarrow> child_loop round (es @ fs) c = child_loop round fs c1"
proof (induction es arbitrary: c)
  case Nil
  then show ?case by simp
next
  case (Cons x es)
  obtain ev ok where x: "x = (ev, ok)" by (cases x)
  with Cons.prems obtain f where f: "round ev ok c = Inr f"
      "(case f of Go c' \<Rightarrow> child_loop round es c' | _ \<Rightarrow> Inr f) = Inr (Go c1)"
    by (auto simp: c_bind_Inr_iff)
  then show ?case using x Cons.IH by (cases f) simp_all
qed

primrec flow_state :: "'c flow \<Rightarrow> 'c" where
  "flow_state (Go c) = c"
| "flow_state (Brk c) = c"
| "flow_state (Exit r c) = c"

text \<open>An acknowledgement is any datagram with opcode 4: its block number is not looked at.\<close>

definition opcode_is :: "byte \<Rightarrow> byte list \<Rightarrow> bool" where
  "opcode_is b d \<longleftrightarrow> 2 \<le> length d \<and> d ! 1 = b"

fun sw_event_of :: "net_event \<times> bool \<Rightarrow> sw_event \<Rightarrow> bool" where
  "sw_event_of (Timed_out, ok) e \<longleftrightarrow> ok \<and> e = Sw_timeout"
| "sw_event_of (Datagram d, ok) e \<longleftrightarrow> ok \<and> opcode_is 4 d \<and> e = Sw_ack"
| "sw_event_of (Recv_failed, ok) e \<longleftrightarrow> False"

definition data_packet :: "16 word \<Rightarrow> byte list \<Rightarrow> byte list" where
  "data_packet n b = [0, 3] @ be16 n @ b"

lemma tftp_recv_opcode:
  "opcode_is b d \<Longrightarrow> tftp_recv d pkt ! 1 = b"
  by (auto simp: opcode_is_def tftp_recv_def MAXCHAR_def nth_append)

lemma length_tftp_recv [simp]: "length pkt = MAXCHAR \<Longrightarrow> length (tftp_recv d pkt) = MAXCHAR"
  by (simp add: tftp_recv_def)

lemma staged_simps [simp]:
  "staged (c\<lparr>sent := x\<rparr>) = staged c" "staged (c\<lparr>time_count := t\<rparr>) = staged c"
  "staged (c\<lparr>block_number := b\<rparr>) = staged c" "staged (c\<lparr>packet := p\<rparr>) = staged c"
  "staged (c\<lparr>stop_flag := f\<rparr>) = staged c"
  by (simp_all add: staged_def)

lemma can_send_simps [simp]:
  "can_send (c\<lparr>sent := x\<rparr>) = can_send c" "can_send (c\<lparr>time_count := t\<rparr>) = can_send c"
  "can_send (c\<lparr>block_number := b\<rparr>) = can_send c" "can_send (c\<lparr>packet := p\<rparr>) = can_send c"
  "can_send (c\<lparr>stop_flag := f\<rparr>) = can_send c"
  by (simp_all add: can_send_def split: option.split)

lemma tftp_stage_send:
  assumes "length hdr = 4" and "length b \<le> NOBYTES" and "length (send_pack c) = SEND_LEN"
  shows "\<exists>sp sz. (\<forall>k. c_bind (tftp_stage SEND_LEN hdr b c) (\<lambda>c. tftp_send True c k) =
        Inr (k (c\<lparr>send_pack := sp, size_sp := sz, sent := sent c @ [hdr @ b]\<rparr>))) \<and>
      staged (c\<lparr>send_pack := sp, size_sp := sz\<rparr>) = hdr @ b \<and> can_send (c\<lparr>send_pack := sp, size_sp := sz\<rparr>)"
proof -
  let ?sp = "hdr @ b @ drop (4 + length b) (send_pack c)" and ?sz = "Some (4 + length b)"
  have "tftp_stage SEND_LEN hdr b c = Inr (c\<lparr>send_pack := ?sp, size_sp := ?sz\<rparr>)"
    using assms by (subst tftp_stage_Inr) (simp_all add: SEND_LEN_def NOBYTES_def)
  moreover have "can_send (c\<lparr>send_pack := ?sp, size_sp := ?sz\<rparr>)"
      "staged (c\<lparr>send_pack := ?sp, size_sp := ?sz\<rparr>) = hdr @ b"
    using assms by (simp_all add: can_send_def staged_def SEND_LEN_def NOBYTES_def)
  ultimately show ?thesis by (intro exI [of _ ?sp] exI [of _ ?sz]) (simp add: tftp_send_ok)
qed

text \<open>
  The contract of a child that sends a file: \<open>sends c s\<close> says that child \<open>c\<close> is in the middle of a
  read transfer with its reader in state \<open>s\<close>.
\<close>

locale sending_child = block_reader nextb invar content
  for nextb :: "'s \<Rightarrow> byte list \<times> bool \<times> 's"
    and invar :: "'s \<Rightarrow> bool"
    and content :: "'s \<Rightarrow> byte list" +
  fixes round :: "net_event \<Rightarrow> bool \<Rightarrow> tftp_child \<Rightarrow> tftp_child flow c_result"
    and sends :: "tftp_child \<Rightarrow> 's \<Rightarrow> bool"
  assumes timeout: "sends c s \<Longrightarrow>
      \<exists>c'. round Timed_out True c = Inr (if time_count c + 1 \<ge> 10 then Brk c' else Go c') \<and>
           sent c' = sent c @ [staged c] \<and>
           (time_count c + 1 < 10 \<longrightarrow>
              sends c' s \<and> staged c' = staged c \<and> time_count c' = time_count c + 1 \<and>
              block_number c' = block_number c \<and> stop_flag c' = stop_flag c)"
    and ack_last: "sends c s \<Longrightarrow> stop_flag c = 1 \<Longrightarrow> opcode_is 4 d \<Longrightarrow>
      \<exists>c'. round (Datagram d) True c = Inr (Brk c') \<and> sent c' = sent c"
    and ack_next: "sends c s \<Longrightarrow> stop_flag c \<noteq> 1 \<Longrightarrow> invar s \<Longrightarrow> opcode_is 4 d \<Longrightarrow>
      \<exists>c'. round (Datagram d) True c = Inr (Go c') \<and> sends c' (snd (snd (nextb s))) \<and>
           staged c' = data_packet (block_number c + 1) (fst (nextb s)) \<and>
           sent c' = sent c @ [staged c'] \<and> time_count c' = 0 \<and>
           block_number c' = block_number c + 1 \<and> (stop_flag c' = 1 \<longleftrightarrow> fst (snd (nextb s)))"
begin

lemma run_spec:
  assumes "sends c s" and "stop_flag c \<noteq> 1 \<longrightarrow> invar s" and "time_count c = int t"
    and "list_all2 sw_event_of es evs"
    and "(ps, e) = sw_run (staged c)
      (if stop_flag c = 1 then [] else data_packets (block_number c + 1) (blocks_of (content s))) t evs"
  shows "\<exists>c'. child_loop round es c = Inr (if e then Brk c' else Go c') \<and> sent c' = sent c @ ps"
  using assms
proof (induction es arbitrary: c s t evs ps e)
  case Nil
  then show ?case by auto
next
  case (Cons x es)
  obtain ev ok where x: "x = (ev, ok)" by (cases x)
  from Cons.prems(4) x obtain y ys where evs: "evs = y # ys" "sw_event_of (ev, ok) y"
      "list_all2 sw_event_of es ys" by (auto simp: list_all2_Cons1)
  show ?case
  proof (cases ev)
    case Timed_out
    with evs have y: "y = Sw_timeout" "ok" by auto
    from timeout [OF Cons.prems(1)] obtain c1 where
      c1: "round Timed_out True c = Inr (if time_count c + 1 \<ge> 10 then Brk c1 else Go c1)"
      "sent c1 = sent c @ [staged c]"
      "time_count c + 1 < 10 \<longrightarrow> sends c1 s \<and> staged c1 = staged c \<and> time_count c1 = time_count c + 1 \<and>
              block_number c1 = block_number c \<and> stop_flag c1 = stop_flag c" by blast
    show ?thesis
    proof (cases "time_count c + 1 \<ge> 10")
      case True
      with c1 x y evs Timed_out Cons.prems(3,5) show ?thesis by auto
    next
      case False
      with c1 have s1: "sends c1 s" "staged c1 = staged c" "time_count c1 = int (t + 1)"
          "block_number c1 = block_number c" "stop_flag c1 = stop_flag c" using Cons.prems(3) by auto
      from False Cons.prems(3,5) evs(1) y obtain ps' where ps': "ps = staged c # ps'"
        "(ps', e) = sw_run (staged c) (if stop_flag c = 1 then []
           else data_packets (block_number c + 1) (blocks_of (content s))) (t + 1) ys"
        by (auto simp: split_beta)
      from ps'(2) s1 have ps1: "(ps', e) = sw_run (staged c1) (if stop_flag c1 = 1 then []
           else data_packets (block_number c1 + 1) (blocks_of (content s))) (t + 1) ys" by simp
      from Cons.prems(2) s1 have "stop_flag c1 \<noteq> 1 \<longrightarrow> invar s" by simp
      from Cons.IH [OF s1(1) this s1(3) evs(3) ps1]
      obtain c' where "child_loop round es c1 = Inr (if e then Brk c' else Go c')" "sent c' = sent c1 @ ps'"
        by blast
      with c1(1,2) False x y Timed_out ps' show ?thesis by auto
    qed
  next
    case (Datagram d)
    with evs have y: "y = Sw_ack" "ok" "opcode_is 4 d" by auto
    show ?thesis
    proof (cases "stop_flag c = 1")
      case True
      with ack_last [OF Cons.prems(1) True y(3)] x y evs Datagram Cons.prems(5) show ?thesis by auto
    next
      case False
      with Cons.prems(2) have inv: "invar s" by simp
      from ack_next [OF Cons.prems(1) False inv y(3)] obtain c1 where
        c1: "round (Datagram d) True c = Inr (Go c1)" "sends c1 (snd (snd (nextb s)))"
        "staged c1 = data_packet (block_number c + 1) (fst (nextb s))"
        "sent c1 = sent c @ [staged c1]" "time_count c1 = int 0"
        "block_number c1 = block_number c + 1" "stop_flag c1 = 1 \<longleftrightarrow> fst (snd (nextb s))" by auto
      have nxt: "stop_flag c1 \<noteq> 1 \<longrightarrow> invar (snd (snd (nextb s)))"
        using c1(7) last [OF inv] rest [OF inv] by auto
      from Cons.prems(5) False evs(1) y blocks_of_content [OF inv] c1(3,6,7) obtain ps' where
        ps': "ps = staged c1 # ps'" "(ps', e) = sw_run (staged c1) (if stop_flag c1 = 1 then []
           else data_packets (block_number c1 + 1) (blocks_of (content (snd (snd (nextb s)))))) 0 ys"
        by (auto simp: split_beta data_packet_def)
      from Cons.IH [OF c1(2) nxt c1(5) evs(3) ps'(2)] c1(1,4) x y Datagram ps'(1) show ?thesis by auto
    qed
  next
    case Recv_failed
    with evs show ?thesis by simp
  qed
qed

end

subsection \<open>Requests\<close>

lemma c_str_append: "0 \<notin> set name \<Longrightarrow> c_str (name @ 0 # rest) = Inr name"
  by (simp add: c_str_def) (subst takeWhile_append2, auto)

lemma c_strcpy_fits:
  "0 \<notin> set name \<Longrightarrow> length name < n \<Longrightarrow>
     c_strcpy (replicate n 0) (name @ 0 # rest) = Inr (name @ 0 # replicate (n - length name - 1) 0)"
  by (simp add: c_strcpy_def c_str_append buf_write_def)

lemma c_strcpy_overflow:
  "0 \<notin> set name \<Longrightarrow> n \<le> length name \<Longrightarrow> c_strcpy (replicate n 0) (name @ 0 # rest) = Inl Out_of_bounds"
  by (simp add: c_strcpy_def c_str_append buf_write_def)

definition request_packet :: "byte \<Rightarrow> byte list \<Rightarrow> byte list \<Rightarrow> byte list \<Rightarrow> byte list" where
  "request_packet op name mode rest = [0, op] @ name @ [0] @ mode @ [0] @ rest"

lemma request_parse:
  assumes "0 \<notin> set name" and "0 \<notin> set mode" and "length name < 10" and "length mode < 10"
  shows "tftp_parse (request_packet op name mode rest) = Inr (name, mode)"
proof -
  have "drop (2 + length name + 1) (request_packet op name mode rest) = mode @ 0 # rest"
    by (simp add: request_packet_def)
  then show ?thesis
    using c_strcpy_fits [OF assms(1,3), of "mode @ 0 # rest"] c_strcpy_fits [OF assms(2,4), of rest] assms(1,2)
    by (simp add: tftp_parse_def c_str_append) (simp add: request_packet_def c_str_append)
qed

text \<open>The servers read back the file name and the mode of a request: for a name and a mode
  of at most nine bytes each, parsing the request gives exactly them, whatever the buffer holds
  behind the request.\<close>

theorem tftp_parse_roundtrip:
  assumes "0 \<notin> set name" and "0 \<notin> set mode" and "length name < 10" and "length mode < 10"
  shows "tftp_parse (request_packet op name mode rest) = Inr (name, mode)"
  by (rule request_parse [OF assms])

theorem tftp_parse_roundtrip_witness:
  "tftp_parse (request_packet 1 (lit ''a.txt'') (lit ''netascii'') [7, 7]) = Inr (lit ''a.txt'', lit ''netascii'')"
  using tftp_parse_roundtrip [of "lit ''a.txt''" "lit ''netascii''" 1 "[7, 7]"]
  by (simp add: lit_def byte_of_char_def)

text \<open>\<open>Filename\<close> has ten bytes and nothing checks the name of a request: every request with a
  name of ten bytes or more writes past the array.\<close>

theorem tftp_long_name_overflows:
  assumes "0 \<notin> set name" and "10 \<le> length name"
  shows "tftp_parse (request_packet op name mode rest) = Inl Out_of_bounds"
  using c_strcpy_overflow [OF assms, of "mode @ 0 # rest"] by (simp add: tftp_parse_def request_packet_def)

theorem tftp_long_name_overflows_witness:
  "tftp_parse (request_packet 1 (lit ''report.txt'') (lit ''octet'') []) = Inl Out_of_bounds"
  using tftp_long_name_overflows [of "lit ''report.txt''" 1 "lit ''octet''" "[]"]
  by (simp add: lit_def byte_of_char_def)

subsection \<open>Reasoning about every outcome of a stretch\<close>

text \<open>\<open>ensures P r\<close>: if \<open>r\<close> is defined, its outcome satisfies \<open>P\<close>. The rules follow the shape of the
  definitions, so a proof about a handler is one pass of them and simplification.\<close>

definition ensures :: "('a \<Rightarrow> bool) \<Rightarrow> 'a c_result \<Rightarrow> bool" where
  "ensures P r \<longleftrightarrow> (case r of Inl u \<Rightarrow> True | Inr a \<Rightarrow> P a)"

lemma ensures_Inl: "ensures P (Inl u)"
  by (simp add: ensures_def)

lemma ensures_Inr: "P a \<Longrightarrow> ensures P (Inr a)"
  by (simp add: ensures_def)

lemma ensuresD: "ensures P r \<Longrightarrow> r = Inr a \<Longrightarrow> P a"
  by (simp add: ensures_def)

lemma ensures_bind: "(\<And>a. r = Inr a \<Longrightarrow> ensures P (k a)) \<Longrightarrow> ensures P (c_bind r k)"
  by (cases r) (simp_all add: ensures_def)

lemma ensures_if: "(b \<Longrightarrow> ensures P x) \<Longrightarrow> (\<not> b \<Longrightarrow> ensures P y) \<Longrightarrow> ensures P (if b then x else y)"
  by simp

lemma ensures_prod: "(\<And>a b. p = (a, b) \<Longrightarrow> ensures P (k a b)) \<Longrightarrow> ensures P (case p of (a, b) \<Rightarrow> k a b)"
  by (cases p) simp

lemma ensures_option:
  "(x = None \<Longrightarrow> ensures P n) \<Longrightarrow> (\<And>a. x = Some a \<Longrightarrow> ensures P (k a)) \<Longrightarrow>
     ensures P (case x of None \<Rightarrow> n | Some a \<Rightarrow> k a)"
  by (cases x) simp_all

lemma ensures_stage:
  "(\<And>sp sz. ensures P (k (c\<lparr>send_pack := sp, size_sp := sz\<rparr>))) \<Longrightarrow> ensures P (c_bind (tftp_stage cap hdr payload c) k)"
  by (cases "buf_write 0 (hdr @ payload) (send_pack c)") (simp_all add: tftp_stage_def ensures_Inl)

lemma ensures_send:
  "(\<And>ds. P (k (c\<lparr>sent := ds\<rparr>))) \<Longrightarrow> P (Exit 1 c) \<Longrightarrow> ensures P (tftp_send ok c k)"
  by (auto simp: tftp_send_def c_bind_def ensures_def split: sum.splits option.splits)

lemma ensures_putcs:
  "(\<And>f'. (f' = Fp_uninit \<longleftrightarrow> f = Fp_uninit) \<Longrightarrow> ensures P (k f')) \<Longrightarrow> ensures P (c_bind (tftp_putcs bs f) k)"
  by (auto simp: tftp_putcs_def ensures_def split: stream.splits)

lemma ensures_getcs:
  "(\<And>s. f \<noteq> Fp_uninit \<Longrightarrow> ensures P (k s)) \<Longrightarrow> ensures P (c_bind (tftp_getcs f) k)"
  by (auto simp: tftp_getcs_def ensures_def split: stream.splits)

lemmas ensures_intros = ensures_if ensures_prod ensures_option ensures_stage ensures_send ensures_putcs
  ensures_getcs ensures_bind ensures_Inl ensures_Inr

subsection \<open>Files of a child\<close>

text \<open>What no stretch of the child changes: whether \<open>fp\<close> and \<open>read_fd\<close> have been assigned, and that
  \<open>stop_flag\<close> is 0 or 1; a loop is left with \<open>stop_flag\<close> set.\<close>

definition keeps_files :: "tftp_child \<Rightarrow> tftp_child flow \<Rightarrow> bool" where
  "keeps_files c f \<longleftrightarrow>
     (fp (flow_state f) = Fp_uninit \<longleftrightarrow> fp c = Fp_uninit) \<and>
     (read_fd (flow_state f) = None \<longleftrightarrow> read_fd c = None) \<and>
     (stop_flag c = 0 \<or> stop_flag c = 1 \<longrightarrow>
        (case f of Brk c' \<Rightarrow> stop_flag c' = 1 | _ \<Rightarrow> stop_flag (flow_state f) = 0 \<or> stop_flag (flow_state f) = 1))"

definition one_file :: "tftp_child \<Rightarrow> bool" where
  "one_file c \<longleftrightarrow> (fp c = Fp_uninit \<or> read_fd c = None) \<and> (stop_flag c = 0 \<or> stop_flag c = 1)"

lemma child_loop_one_file:
  assumes keeps: "\<And>ev ok c. ensures (keeps_files c) (round ev ok c)"
  shows "child_loop round es c = Inr (Brk c') \<Longrightarrow> one_file c \<Longrightarrow> one_file c' \<and> stop_flag c' = 1"
proof (induction es arbitrary: c)
  case Nil
  then show ?case by simp
next
  case (Cons x es)
  obtain ev ok where x: "x = (ev, ok)" by (cases x)
  with Cons.prems(1) obtain f where f: "round ev ok c = Inr f"
      "(case f of Go c1 \<Rightarrow> child_loop round es c1 | _ \<Rightarrow> Inr f) = Inr (Brk c')"
    by (auto simp: c_bind_Inr_iff)
  from ensuresD [OF keeps f(1)] f(2) Cons show ?case
    by (cases f) (auto simp: keeps_files_def one_file_def)
qed

end
