(* ===== verification/Tftps.thy ===== *)
theory Tftps
  imports Tftp_Common
begin

section \<open>The TFTP server tftps.c\<close>

text \<open>
  The child that answers one request, in the order of the source: the read request in octet and in
  netascii mode, the write request, one round of the transfer loop for every event and every opcode,
  and the cleanup. A child's run is the request followed by the rounds that a list of events gives,
  each paired with whether \<open>sendto\<close> succeeds in that round. Results of the operating system are
  arguments.
\<close>

text \<open>\<open>dec2bin\<close>: the five low bits of \<open>num\<close> as characters, and the terminator it stores first.\<close>

fun tft_dec2bin_loop :: "nat \<Rightarrow> 32 word \<Rightarrow> 32 word \<Rightarrow> byte list" where
  "tft_dec2bin_loop 0 msk num = []"
| "tft_dec2bin_loop (Suc fuel) msk num =
     (let m = drop_bit 1 msk
      in if m = 0 then []
         else (if m AND num \<noteq> 0 then 49 else 48) # tft_dec2bin_loop fuel m num)"

definition tft_dec2bin :: "32 word \<Rightarrow> byte list \<Rightarrow> byte list c_result" where
  "tft_dec2bin num str =
     c_bind (arr_set str 5 0) (\<lambda>s. buf_write 0 (tft_dec2bin_loop 32 (push_bit 1 0x10) num) s)"

text \<open>The parent's search for an address to bind: for each result whether \<open>socket\<close> and \<open>bind\<close>
  succeed. The answer is the position bound and how many sockets stay open.\<close>

fun tft_bind_loop :: "(bool \<times> bool) list \<Rightarrow> nat \<Rightarrow> nat \<Rightarrow> nat option \<times> nat" where
  "tft_bind_loop [] i opened = (None, opened)"
| "tft_bind_loop ((sock_ok, bind_ok) # rs) i opened =
     (if \<not> sock_ok then tft_bind_loop rs (i + 1) opened
      else if \<not> bind_ok then tft_bind_loop rs (i + 1) (opened + 1 - 1)
      else (Some i, opened + 1))"

text \<open>The child's variables after \<open>fork\<close>: those with initialisers, and the indeterminate rest, of
  which \<open>send_pack\<close> and \<open>data\<close> are read as they happen to be.\<close>

definition tft_child_init :: "byte list \<Rightarrow> byte list \<Rightarrow> byte list \<Rightarrow> tftp_child" where
  "tft_child_init pkt sp dat =
     \<lparr>packet = pkt, send_pack = sp, data_buf = dat, size_sp = None, read_flag = 0, write_flag = 0,
      stop_flag = 0, mode_flag = - 1, time_count = 0, block_number = 0, nextch = - 1, fp = Fp_uninit,
      read_fd = None, sent = []\<rparr>"

definition tft_child_socket :: "bool \<Rightarrow> bool \<Rightarrow> bool \<Rightarrow> tftp_child \<Rightarrow> tftp_child flow" where
  "tft_child_socket socket_ok setsockopt_ok bind_ok c =
     (if \<not> socket_ok then Exit 1 c else if \<not> setsockopt_ok then Exit 1 c else if \<not> bind_ok then Exit 1 c else Go c)"

subsection \<open>The read request\<close>

definition tft_first_block :: "nat \<Rightarrow> bool \<Rightarrow> tftp_child \<Rightarrow> tftp_child flow c_result" where
  "tft_first_block count ok c =
     c_bind (buf_read 0 count (data_buf c)) (\<lambda>payload.
     c_bind (tftp_stage SEND_LEN [0, 3, 0, 1] payload c) (\<lambda>c.
     tftp_send ok c (\<lambda>c. Go (c\<lparr>block_number := 1\<rparr>))))"

definition tft_rrq_octet :: "tftp_fs \<Rightarrow> byte list \<Rightarrow> bool \<Rightarrow> tftp_child \<Rightarrow> tftp_child flow c_result" where
  "tft_rrq_octet fs name ok c0 =
     (let c = c0\<lparr>mode_flag := 0\<rparr>
      in case open_rdwr fs name of
           None \<Rightarrow> Inr (Exit 1 c)
         | Some rs \<Rightarrow>
             (case tftp_read rs of
                (None, rs') \<Rightarrow> Inr (Exit 1 (c\<lparr>read_fd := Some rs'\<rparr>))
              | (Some b, rs') \<Rightarrow>
                  c_bind (buf_write 0 b (data_buf c)) (\<lambda>d.
                  tft_first_block NOBYTES ok (c\<lparr>read_fd := Some rs', data_buf := d\<rparr>))))"

text \<open>The loop that fills \<open>data\<close> for the first block: the slots left, the variables it reads, the
  stream; then the bytes stored, whether it met \<open>EOF\<close>, \<open>nextch\<close>, the stream, and \<open>count\<close>.\<close>

fun tft_rrq_fill :: "nat \<Rightarrow> int \<Rightarrow> int \<Rightarrow> int \<Rightarrow> byte list \<Rightarrow> byte list \<times> bool \<times> int \<times> byte list \<times> nat" where
  "tft_rrq_fill 0 mode stop nx s = ([], False, nx, s, 0)"
| "tft_rrq_fill (Suc n) mode stop nx s =
     (if nx \<ge> 0
      then (case tft_rrq_fill n mode stop (- 1) s of (bs, e, nx', s', k) \<Rightarrow> (word_of_int nx # bs, e, nx', s', Suc k))
      else case s of
          [] \<Rightarrow> ([], True, nx, [], 0)
        | ch # s1 \<Rightarrow>
            if char_val ch = EOF then ([], True, nx, s1, 0)
            else
              let (ch', nx1) = (if mode = 1 then netascii_char ch else (ch, nx))
              in if stop = 1 then ([ch'], False, nx1, s1, 0)
                 else (case tft_rrq_fill n mode stop nx1 s1 of (bs, e, nx', s', k) \<Rightarrow> (ch' # bs, e, nx', s', Suc k)))"

definition tft_rrq_netascii :: "tftp_fs \<Rightarrow> byte list \<Rightarrow> bool \<Rightarrow> tftp_child \<Rightarrow> tftp_child flow c_result" where
  "tft_rrq_netascii fs name ok c0 =
     (let c = c0\<lparr>mode_flag := 1\<rparr>
      in case fopen_r fs name of
           None \<Rightarrow>
             c_bind (tftp_stage ERRMSG_LEN [0, 5, 0, 1] (lit ''File not found'') c) (\<lambda>c.
             tftp_send ok c (\<lambda>c. Brk (c\<lparr>stop_flag := 1\<rparr>)))
         | Some s \<Rightarrow>
             (case tft_rrq_fill NOBYTES (mode_flag c) (stop_flag c) (nextch c) s of (bs, e, nx, s', count) \<Rightarrow>
                c_bind (buf_write 0 bs (data_buf c)) (\<lambda>d.
                tft_first_block count ok
                  (c\<lparr>fp := Fp_read s', data_buf := d, nextch := nx,
                     stop_flag := (if e then 1 else stop_flag c)\<rparr>))))"

definition tft_rrq_bad_mode :: "bool \<Rightarrow> tftp_child \<Rightarrow> tftp_child flow c_result" where
  "tft_rrq_bad_mode ok c =
     c_bind (tftp_stage ERRMSG_LEN [0, 5, 0, 4] (lit ''Illegal TFTP operation.'') c) (\<lambda>c.
     tftp_send ok c (\<lambda>c. Brk (c\<lparr>stop_flag := 1\<rparr>)))"

definition tft_rrq :: "tftp_fs \<Rightarrow> bool \<Rightarrow> tftp_child \<Rightarrow> tftp_child flow c_result" where
  "tft_rrq fs ok c0 =
     (let c = c0\<lparr>read_flag := 1, write_flag := 0, send_pack := replicate SEND_LEN 0\<rparr>
      in c_bind (tftp_parse (packet c)) (\<lambda>(name, mode).
           if is_octet mode then tft_rrq_octet fs name ok c
           else if is_netascii mode then tft_rrq_netascii fs name ok c
           else tft_rrq_bad_mode ok c))"

subsection \<open>The write request\<close>

definition tft_wrq :: "tftp_fs \<Rightarrow> bool \<Rightarrow> tftp_child \<Rightarrow> tftp_child flow c_result" where
  "tft_wrq fs ok c0 =
     (let c = c0\<lparr>read_flag := 0, write_flag := 1\<rparr>
      in c_bind (tftp_parse (packet c)) (\<lambda>(name, mode).
           let c = c\<lparr>send_pack := replicate SEND_LEN 0\<rparr>
           in if \<not> fopen_wx fs name
              then c_bind (tftp_stage ERRMSG_LEN [0, 5, 0, 6] (lit ''File already exists.'') c) (\<lambda>c.
                   tftp_send ok c (\<lambda>c. Brk (c\<lparr>stop_flag := 1\<rparr>)))
              else c_bind (tftp_stage 10 [0, 4, 0, 0] [] (c\<lparr>fp := Fp_write []\<rparr>)) (\<lambda>c.
                   tftp_send ok c (\<lambda>c. Go (c\<lparr>block_number := 1\<rparr>)))))"

definition tft_request :: "tftp_fs \<Rightarrow> bool \<Rightarrow> tftp_child \<Rightarrow> tftp_child flow c_result" where
  "tft_request fs ok c =
     (if packet c ! 1 = 1 then tft_rrq fs ok c
      else if packet c ! 1 = 2 then tft_wrq fs ok c
      else Inr (Go c))"

subsection \<open>The transfer loop\<close>

definition tft_timeout_read :: "bool \<Rightarrow> tftp_child \<Rightarrow> tftp_child flow c_result" where
  "tft_timeout_read ok c =
     tftp_send ok c (\<lambda>c.
       let c = c\<lparr>time_count := time_count c + 1\<rparr>
       in if time_count c \<ge> 10 then Brk (c\<lparr>stop_flag := 1\<rparr>) else Go c)"

definition tft_timeout_write :: "tftp_child \<Rightarrow> tftp_child flow" where
  "tft_timeout_write c0 =
     (let c = c0\<lparr>packet := [0, 3] @ be16 (block_number c0) @ [0] @ drop 5 (packet c0),
                 time_count := time_count c0 + 1\<rparr>
      in if time_count c \<ge> 2 then Brk (c\<lparr>stop_flag := 1\<rparr>) else Go c)"

definition tft_timeout :: "bool \<Rightarrow> tftp_child \<Rightarrow> tftp_child flow c_result" where
  "tft_timeout ok c =
     c_bind (if read_flag c = 1 \<and> write_flag c = 0 then tft_timeout_read ok c else Inr (Go c)) (\<lambda>f.
     case f of
       Go c' \<Rightarrow> Inr (if read_flag c' = 0 \<and> write_flag c' = 1 then tft_timeout_write c' else Go c')
     | _ \<Rightarrow> Inr f)"

text \<open>The loop over \<open>data\<close> that writes a block into the file: what \<open>putc\<close> gets, whether \<open>EOF\<close> was met,
  and \<open>nextch\<close>.\<close>

fun tft_put_loop :: "int \<Rightarrow> byte list \<Rightarrow> int \<Rightarrow> byte list \<times> bool \<times> int" where
  "tft_put_loop mode [] nx = ([], False, nx)"
| "tft_put_loop mode (d # ds) nx =
     (if nx \<ge> 0
      then (case tft_put_loop mode ds (- 1) of (bs, e, nx') \<Rightarrow> (word_of_int nx # bs, e, nx'))
      else
        let (ch, nx1) = (if mode = 1 then netascii_char d else (d, nx))
        in case tft_put_loop mode ds nx1 of (bs, e, nx') \<Rightarrow> (ch # bs, char_val d = EOF \<or> e, nx'))"

definition tft_violation :: "byte \<Rightarrow> bool \<Rightarrow> tftp_child \<Rightarrow> tftp_child flow c_result" where
  "tft_violation code ok c =
     c_bind (tftp_stage ERRMSG_LEN [0, 5, 0, code] (lit ''Access violation.'') c) (\<lambda>c.
     tftp_send ok c (\<lambda>c. Brk (c\<lparr>stop_flag := 1\<rparr>)))"

definition tft_data :: "bool \<Rightarrow> tftp_child \<Rightarrow> tftp_child flow c_result" where
  "tft_data ok c0 =
     (let c = c0\<lparr>send_pack := replicate SEND_LEN 0, data_buf := replicate MAXCHAR 0\<rparr>
      in if read_flag c = 1 \<or> write_flag c = 0 then tft_violation 0 ok c
         else
           c_bind (buf_read HEADER (MAXCHAR - HEADER) (packet c)) (\<lambda>body.
           c_bind (buf_write 0 body (data_buf c)) (\<lambda>d.
           c_bind (c_str d) (\<lambda>str.
           case tft_put_loop (mode_flag c) str (nextch c) of (bs, e, nx) \<Rightarrow>
             c_bind (tftp_putcs bs (fp c)) (\<lambda>f.
             let c = c\<lparr>data_buf := d, fp := f, nextch := nx, stop_flag := (if e then 1 else stop_flag c)\<rparr>
             in c_bind (tftp_stage 10 ([0, 4] @ be16 (block_number c)) [] c) (\<lambda>c.
                tftp_send ok c (\<lambda>c.
                  let c = c\<lparr>block_number := block_number c + 1\<rparr>
                  in if stop_flag c = 1 then Brk c else Go c)))))))"

fun tft_ack_fill :: "nat \<Rightarrow> int \<Rightarrow> byte list \<Rightarrow> byte list \<times> bool \<times> int \<times> byte list" where
  "tft_ack_fill 0 nx s = ([], False, nx, s)"
| "tft_ack_fill (Suc n) nx s =
     (if nx \<ge> 0
      then (case tft_ack_fill n (- 1) s of (bs, e, nx', s') \<Rightarrow> (word_of_int nx # bs, e, nx', s'))
      else case s of
          [] \<Rightarrow> ([], True, nx, [])
        | ch # s1 \<Rightarrow>
            if char_val ch = EOF then ([], True, nx, s1)
            else let (ch', nx1) = netascii_char ch
                 in case tft_ack_fill n nx1 s1 of (bs, e, nx', s') \<Rightarrow> (ch' # bs, e, nx', s'))"

text \<open>Reading the next block: the block's \<open>count\<close> and the child, or \<open>Exit\<close>. With a mode that is
  neither octet nor netascii \<open>count\<close> would be used as it was never assigned.\<close>

definition tft_ack_block :: "tftp_child \<Rightarrow> (nat option \<times> tftp_child) c_result" where
  "tft_ack_block c =
     (if mode_flag c = 0 then
        (case read_fd c of None \<Rightarrow> Inl Uninitialised
         | Some rs \<Rightarrow>
             (case tftp_read rs of
                (None, rs') \<Rightarrow> Inr (None, c\<lparr>read_fd := Some rs'\<rparr>)
              | (Some b, rs') \<Rightarrow>
                  c_bind (buf_write 0 b (data_buf c)) (\<lambda>d.
                  Inr (if length b < NOBYTES
                       then (Some (length b), c\<lparr>read_fd := Some rs', data_buf := d, stop_flag := 1\<rparr>)
                       else (Some NOBYTES, c\<lparr>read_fd := Some rs', data_buf := d\<rparr>)))))
      else if mode_flag c = 1 then
        c_bind (tftp_getcs (fp c)) (\<lambda>s.
        case tft_ack_fill NOBYTES (nextch c) s of (bs, e, nx, s') \<Rightarrow>
          c_bind (buf_write 0 bs (data_buf c)) (\<lambda>d.
          Inr (Some (length bs),
               c\<lparr>data_buf := d, nextch := nx, stop_flag := (if e then 1 else stop_flag c),
                 fp := (case fp c of Fp_read _ \<Rightarrow> Fp_read s' | f \<Rightarrow> f)\<rparr>)))
      else Inl Uninitialised)"

definition tft_ack :: "bool \<Rightarrow> tftp_child \<Rightarrow> tftp_child flow c_result" where
  "tft_ack ok c0 =
     (let c = c0\<lparr>send_pack := replicate SEND_LEN 0, data_buf := replicate MAXCHAR 0\<rparr>
      in if read_flag c = 0 \<or> write_flag c = 1 then tft_violation 2 ok c
         else if stop_flag c = 0
         then c_bind (tft_ack_block c) (\<lambda>(count, c).
              case count of None \<Rightarrow> Inr (Exit 1 c)
              | Some count \<Rightarrow>
                  c_bind (buf_read 0 count (data_buf c)) (\<lambda>payload.
                  c_bind (tftp_stage SEND_LEN ([0, 3] @ be16 (next_block (block_number c))) payload c) (\<lambda>c.
                  tftp_send ok c (\<lambda>c. Go (c\<lparr>block_number := block_number c + 1\<rparr>)))))
         else Inr (Brk c))"

text \<open>\<open>memcpy(ErrMsg, packet+4, length-4)\<close>: \<open>length\<close> is the size of \<open>packet\<close>, \<open>ErrMsg\<close> has 50 bytes.\<close>

definition tft_error :: "tftp_child \<Rightarrow> tftp_child flow c_result" where
  "tft_error c =
     c_bind (buf_read 2 2 (packet c)) (\<lambda>code.
     c_bind (buf_write 0 code (replicate 10 (0::byte))) (\<lambda>ErrorCode.
     c_bind (buf_read HEADER (MAXCHAR - HEADER) (packet c)) (\<lambda>body.
     c_bind (buf_write 0 body (replicate 50 0)) (\<lambda>ErrMsg.
     Inr (Brk (c\<lparr>stop_flag := 1\<rparr>))))))"

definition tft_dispatch :: "bool \<Rightarrow> tftp_child \<Rightarrow> tftp_child flow c_result" where
  "tft_dispatch ok c =
     (if packet c ! 1 = 3 then tft_data ok c
      else if packet c ! 1 = 4 then tft_ack ok c
      else if packet c ! 1 = 5 then tft_error c
      else Inr (Go c))"

definition tft_received :: "byte list \<Rightarrow> bool \<Rightarrow> tftp_child \<Rightarrow> tftp_child flow c_result" where
  "tft_received d ok c =
     c_bind (tft_dispatch ok (c\<lparr>packet := tftp_recv d (packet c), time_count := 0\<rparr>)) (\<lambda>f.
     Inr (case f of Go c \<Rightarrow> Go (c\<lparr>packet := replicate MAXCHAR 0\<rparr>) | _ \<Rightarrow> f))"

definition tft_round :: "net_event \<Rightarrow> bool \<Rightarrow> tftp_child \<Rightarrow> tftp_child flow c_result" where
  "tft_round ev ok c =
     (case ev of Timed_out \<Rightarrow> tft_timeout ok c
      | Recv_failed \<Rightarrow> Inr (Exit 1 c)
      | Datagram d \<Rightarrow> tft_received d ok c)"

definition tft_loop :: "(net_event \<times> bool) list \<Rightarrow> tftp_child \<Rightarrow> tftp_child flow c_result" where
  "tft_loop = child_loop tft_round"

text \<open>The cleanup after the loop: \<open>fclose(fp)\<close>, \<open>close(read_fd)\<close>, \<open>exit(0)\<close>.\<close>

definition tft_finish :: "tftp_child \<Rightarrow> tftp_child flow c_result" where
  "tft_finish c =
     (if stop_flag c = 1
      then if fp c = Fp_uninit then Inl Uninitialised
           else if read_fd c = None then Inl Uninitialised
           else Inr (Exit 0 c)
      else Inr (Go c))"

text \<open>The child from \<open>fork\<close> on. A \<open>break\<close> in the request leaves the outer loop and returns 0.\<close>

definition tft_child ::
  "tftp_fs \<Rightarrow> bool \<Rightarrow> (net_event \<times> bool) list \<Rightarrow> tftp_child \<Rightarrow> tftp_child flow c_result" where
  "tft_child fs ok es c =
     c_bind (tft_request fs ok c) (\<lambda>f.
     case f of
       Brk c1 \<Rightarrow> Inr (Exit 0 c1)
     | Exit r c1 \<Rightarrow> Inr f
     | Go c1 \<Rightarrow>
         c_bind (tft_loop es c1) (\<lambda>g. case g of Brk c2 \<Rightarrow> tft_finish c2 | _ \<Rightarrow> Inr g))"

subsection \<open>The netascii reader\<close>

definition tft_na_next :: "int \<times> byte list \<Rightarrow> byte list \<times> bool \<times> int \<times> byte list" where
  "tft_na_next st = tft_ack_fill NOBYTES (fst st) (snd st)"

lemma na_content_pending: "0 \<le> nx \<Longrightarrow> na_content (nx, s) = word_of_int nx # na_content (- 1, s)"
  by (simp add: na_content_def pending_def)

lemma na_content_nil: "nx < 0 \<Longrightarrow> na_content (nx, []) = []"
  by (simp add: na_content_def pending_def text_part_def)

lemma na_content_eof: "nx < 0 \<Longrightarrow> char_val ch = EOF \<Longrightarrow> na_content (nx, ch # s) = []"
  by (simp add: na_content_def pending_def text_part_def)

lemma na_content_char:
  "nx < 0 \<Longrightarrow> char_val ch \<noteq> EOF \<Longrightarrow> netascii_char ch = (ch', nx1) \<Longrightarrow>
     na_content (nx, ch # s) = ch' # na_content (nx1, s)"
  by (auto simp: na_content_def pending_def text_part_def netascii_char_def split: if_splits)

lemma tft_ack_fill_spec:
  "tft_ack_fill n nx s = (bs, e, nx', s') \<Longrightarrow>
     bs = take n (na_content (nx, s)) \<and> (e \<longleftrightarrow> length (na_content (nx, s)) < n) \<and>
     (\<not> e \<longrightarrow> na_content (nx', s') = drop n (na_content (nx, s)))"
proof (induction n arbitrary: nx s bs e nx' s')
  case 0
  then show ?case by auto
next
  case (Suc n)
  show ?case
  proof (cases "nx \<ge> 0")
    case True
    with Suc.prems obtain bs1 where "tft_ack_fill n (- 1) s = (bs1, e, nx', s')" "bs = word_of_int nx # bs1"
      by (auto split: prod.splits)
    with Suc.IH [OF this(1)] True show ?thesis by (simp add: na_content_pending)
  next
    case neg: False
    show ?thesis
    proof (cases "s = [] \<or> char_val (hd s) = EOF")
      case True
      with Suc.prems neg show ?thesis by (cases s) (auto simp: na_content_nil na_content_eof)
    next
      case False
      then obtain ch s1 where s: "s = ch # s1" "char_val ch \<noteq> EOF" by (cases s) auto
      obtain ch' nx1 where c: "netascii_char ch = (ch', nx1)" by (cases "netascii_char ch")
      with Suc.prems neg s obtain bs1 where "tft_ack_fill n nx1 s1 = (bs1, e, nx', s')" "bs = ch' # bs1"
        by (auto split: prod.splits)
      with Suc.IH [OF this(1)] neg s c show ?thesis by (simp add: na_content_char)
    qed
  qed
qed

lemma tft_rrq_fill_eq:
  "stop \<noteq> 1 \<Longrightarrow> tft_rrq_fill n 1 stop nx s =
     (case tft_ack_fill n nx s of (bs, e, nx', s') \<Rightarrow> (bs, e, nx', s', length bs))"
proof (induction n arbitrary: nx s)
  case 0
  then show ?case by simp
next
  case (Suc n)
  then show ?case by (cases s) (auto split: prod.splits)
qed

interpretation tft_na: block_reader tft_na_next "\<lambda>_. True" na_content
proof
  fix st :: "int \<times> byte list"
  obtain bs e nx' s' where f: "tft_ack_fill NOBYTES (fst st) (snd st) = (bs, e, nx', s')"
    by (metis prod_cases4)
  from tft_ack_fill_spec [OF f] f
  show "fst (tft_na_next st) = take NOBYTES (na_content st)"
    and "fst (snd (tft_na_next st)) \<longleftrightarrow> length (na_content st) < NOBYTES"
    and "NOBYTES \<le> length (na_content st) \<Longrightarrow> True \<and>
      na_content (snd (snd (tft_na_next st))) = drop NOBYTES (na_content st)"
    by (auto simp: tft_na_next_def)
qed

text \<open>A child reads its file through the stream in netascii mode and through the descriptor in octet
  mode; the two readers together.\<close>

type_synonym file_reader = "(int \<times> byte list) + byte list option list"

definition file_next :: "file_reader \<Rightarrow> byte list \<times> bool \<times> file_reader" where
  "file_next r =
     (case r of Inl st \<Rightarrow> (case tft_na_next st of (b, l, st') \<Rightarrow> (b, l, Inl st'))
      | Inr rs \<Rightarrow> (case octet_next rs of (b, l, rs') \<Rightarrow> (b, l, Inr rs')))"

definition file_ok :: "file_reader \<Rightarrow> bool" where
  "file_ok r = (case r of Inl st \<Rightarrow> True | Inr rs \<Rightarrow> reads_ok rs)"

definition file_content :: "file_reader \<Rightarrow> byte list" where
  "file_content r = (case r of Inl st \<Rightarrow> na_content st | Inr rs \<Rightarrow> reads_content rs)"

interpretation frd: block_reader file_next file_ok file_content
proof
  fix r
  assume r: "file_ok r"
  note defs = file_next_def file_ok_def file_content_def split_beta
  show "fst (file_next r) = take NOBYTES (file_content r)"
    using r by (cases r) (simp_all add: defs tft_na.block octet.block)
  show "fst (snd (file_next r)) \<longleftrightarrow> length (file_content r) < NOBYTES"
    using r by (cases r) (simp_all add: defs tft_na.last octet.last)
  show "file_ok (snd (snd (file_next r))) \<and> file_content (snd (snd (file_next r))) = drop NOBYTES (file_content r)"
    if "NOBYTES \<le> length (file_content r)"
    using r that by (cases r) (simp_all add: defs tft_na.rest octet.rest)
qed

subsection \<open>A child in the middle of a read transfer\<close>

definition tft_reading :: "tftp_child \<Rightarrow> bool" where
  "tft_reading c \<longleftrightarrow> read_flag c = 1 \<and> write_flag c = 0 \<and> (stop_flag c = 0 \<or> stop_flag c = 1) \<and>
     can_send c \<and> length (packet c) = MAXCHAR"

definition file_open :: "tftp_child \<Rightarrow> file_reader \<Rightarrow> bool" where
  "file_open c r \<longleftrightarrow>
     (case r of Inl st \<Rightarrow> mode_flag c = 1 \<and> nextch c = fst st \<and> fp c = Fp_read (snd st)
      | Inr rs \<Rightarrow> mode_flag c = 0 \<and> read_fd c = Some rs)"

definition tft_sends :: "tftp_child \<Rightarrow> file_reader \<Rightarrow> bool" where
  "tft_sends c r \<longleftrightarrow> tft_reading c \<and> file_open c r"

lemma file_open_simps [simp]:
  "file_open (c\<lparr>sent := x\<rparr>) r = file_open c r" "file_open (c\<lparr>time_count := t\<rparr>) r = file_open c r"
  "file_open (c\<lparr>block_number := b\<rparr>) r = file_open c r" "file_open (c\<lparr>packet := p\<rparr>) r = file_open c r"
  "file_open (c\<lparr>stop_flag := f\<rparr>) r = file_open c r" "file_open (c\<lparr>send_pack := sp\<rparr>) r = file_open c r"
  "file_open (c\<lparr>size_sp := n\<rparr>) r = file_open c r" "file_open (c\<lparr>data_buf := d\<rparr>) r = file_open c r"
  by (simp_all add: file_open_def split: sum.split)

lemma tft_timeout_reading:
  assumes "tft_reading c"
  shows "\<exists>c'. tft_round Timed_out True c = Inr (if time_count c + 1 \<ge> 10 then Brk c' else Go c') \<and>
    sent c' = sent c @ [staged c] \<and>
    (time_count c + 1 < 10 \<longrightarrow> c' = c\<lparr>sent := sent c @ [staged c], time_count := time_count c + 1\<rparr>)"
  using assms
  by (auto simp: tft_round_def tft_timeout_def tft_timeout_read_def tftp_send_ok tft_reading_def Let_def)

lemma tft_ack_last:
  assumes "tft_reading c" and "stop_flag c = 1" and "opcode_is 4 d"
  shows "\<exists>c'. tft_round (Datagram d) True c = Inr (Brk c') \<and> sent c' = sent c"
  using assms tftp_recv_opcode [OF assms(3), of "packet c"]
  by (simp add: tft_round_def tft_received_def tft_dispatch_def tft_ack_def tft_reading_def Let_def)

text \<open>Sending a block once it is read into \<open>data\<close>.\<close>

lemma tft_ack_sends:
  assumes "tft_reading c" and "stop_flag c \<noteq> 1" and "opcode_is 4 d"
    and "tft_ack_block (c\<lparr>packet := tftp_recv d (packet c), time_count := 0,
            send_pack := replicate SEND_LEN 0, data_buf := replicate MAXCHAR 0\<rparr>) = Inr (Some (length b), c1)"
    and "take (length b) (data_buf c1) = b" and "length b \<le> NOBYTES" and "NOBYTES \<le> length (data_buf c1)"
    and "send_pack c1 = replicate SEND_LEN 0" and "block_number c1 = block_number c" and "sent c1 = sent c"
  shows "\<exists>sp sz c'. tft_round (Datagram d) True c = Inr (Go c') \<and>
    c' = c1\<lparr>send_pack := sp, size_sp := sz, sent := sent c @ [data_packet (block_number c + 1) b],
            block_number := block_number c + 1, packet := replicate MAXCHAR 0\<rparr> \<and>
    staged c' = data_packet (block_number c + 1) b \<and> can_send c'"
proof -
  have payload: "buf_read 0 (length b) (data_buf c1) = Inr b"
    using assms(5-7) by (simp add: buf_read_def)
  have "length b \<le> NOBYTES" "length (send_pack c1) = SEND_LEN" using assms(6,8) by simp_all
  from tftp_stage_send [OF _ this, of "0 # 3 # be16 (block_number c + 1)"] obtain sp sz where
    st: "\<And>k. c_bind (tftp_stage SEND_LEN (0 # 3 # be16 (block_number c + 1)) b c1) (\<lambda>c. tftp_send True c k) =
      Inr (k (c1\<lparr>send_pack := sp, size_sp := sz, sent := sent c @ [data_packet (block_number c + 1) b]\<rparr>))"
    "staged (c1\<lparr>send_pack := sp, size_sp := sz\<rparr>) = data_packet (block_number c + 1) b"
    "can_send (c1\<lparr>send_pack := sp, size_sp := sz\<rparr>)"
    using assms(10) by (auto simp: data_packet_def)
  show ?thesis
    using assms(1-4,9) tftp_recv_opcode [OF assms(3), of "packet c"]
    by (intro exI [of _ sp] exI [of _ sz])
       (simp add: tft_round_def tft_received_def tft_dispatch_def tft_ack_def tft_reading_def Let_def payload st)
qed

lemma tft_ack_block_na:
  assumes "file_open c (Inl st)" and "length (data_buf c) = MAXCHAR" and "tft_na_next st = (b, l, st')"
    and "length b \<le> NOBYTES"
  shows "tft_ack_block c = Inr (Some (length b), c\<lparr>data_buf := b @ drop (length b) (data_buf c), nextch := fst st',
           stop_flag := (if l then 1 else stop_flag c), fp := Fp_read (snd st')\<rparr>)"
proof -
  have "buf_write 0 b (data_buf c) = Inr (b @ drop (length b) (data_buf c))"
    using assms(2,4) by (simp add: buf_write_def NOBYTES_def MAXCHAR_def)
  with assms show ?thesis
    by (cases st') (simp add: tft_ack_block_def tft_na_next_def tftp_getcs_def file_open_def)
qed

lemma tft_ack_block_octet:
  assumes "file_open c (Inr rs)" and "length (data_buf c) = MAXCHAR" and "octet_next rs = (b, l, rs')"
    and "reads_ok rs" and "length b \<le> NOBYTES"
  shows "tft_ack_block c = Inr (Some (length b), c\<lparr>data_buf := b @ drop (length b) (data_buf c),
           stop_flag := (if l then 1 else stop_flag c), read_fd := Some rs'\<rparr>)"
proof -
  have w: "buf_write 0 b (data_buf c) = Inr (b @ drop (length b) (data_buf c))"
    using assms(2,5) by (simp add: buf_write_def NOBYTES_def MAXCHAR_def)
  have "tftp_read rs = (Some b, rs')" and "l \<longleftrightarrow> length b < NOBYTES"
    using assms(3,4)
    by (cases rs rule: reads_ok.cases; auto simp: octet_next_def tftp_read_def)+
  with assms w show ?thesis by (auto simp: tft_ack_block_def file_open_def)
qed

lemma tft_ack_block_next:
  assumes "file_open c r" and "length (data_buf c) = MAXCHAR" and "file_ok r" and "file_next r = (b, l, r')"
  shows "\<exists>c1. tft_ack_block c = Inr (Some (length b), c1) \<and> take (length b) (data_buf c1) = b \<and>
    length b \<le> NOBYTES \<and> NOBYTES \<le> length (data_buf c1) \<and> file_open c1 r' \<and>
    c1 = c\<lparr>data_buf := data_buf c1, nextch := nextch c1, fp := fp c1, read_fd := read_fd c1,
           stop_flag := (if l then 1 else stop_flag c)\<rparr>"
proof -
  have b: "length b \<le> NOBYTES" using frd.block [OF assms(3)] assms(4) by simp
  show ?thesis
  proof (cases r)
    case (Inl st)
    with assms(4) obtain st' where "tft_na_next st = (b, l, st')" "r' = Inl st'"
      by (auto simp: file_next_def split: prod.splits)
    with tft_ack_block_na [of c st b l st'] assms Inl b show ?thesis
      by (auto simp: file_open_def NOBYTES_def MAXCHAR_def)
  next
    case (Inr rs)
    with assms(4) obtain rs' where "octet_next rs = (b, l, rs')" "r' = Inr rs'"
      by (auto simp: file_next_def split: prod.splits)
    with tft_ack_block_octet [of c rs b l rs'] assms Inr b show ?thesis
      by (auto simp: file_open_def file_ok_def NOBYTES_def MAXCHAR_def)
  qed
qed

interpretation tft_child: sending_child file_next file_ok file_content tft_round tft_sends
proof
  fix c r
  assume c: "tft_sends c r"
  then have "tft_reading c" by (simp add: tft_sends_def)
  from tft_timeout_reading [OF this] obtain c' where
    "tft_round Timed_out True c = Inr (if time_count c + 1 \<ge> 10 then Brk c' else Go c')"
    "sent c' = sent c @ [staged c]"
    "time_count c + 1 < 10 \<longrightarrow> c' = c\<lparr>sent := sent c @ [staged c], time_count := time_count c + 1\<rparr>" by blast
  with c show "\<exists>c'. tft_round Timed_out True c = Inr (if time_count c + 1 \<ge> 10 then Brk c' else Go c') \<and>
      sent c' = sent c @ [staged c] \<and> (time_count c + 1 < 10 \<longrightarrow>
        tft_sends c' r \<and> staged c' = staged c \<and> time_count c' = time_count c + 1 \<and>
        block_number c' = block_number c \<and> stop_flag c' = stop_flag c)"
    by (intro exI [of _ c']) (auto simp: tft_sends_def tft_reading_def)
next
  fix c r d
  assume "tft_sends c r" "stop_flag c = 1" "opcode_is 4 d"
  then show "\<exists>c'. tft_round (Datagram d) True c = Inr (Brk c') \<and> sent c' = sent c"
    by (intro tft_ack_last) (simp_all add: tft_sends_def)
next
  fix c r d
  assume c: "tft_sends c r" "stop_flag c \<noteq> 1" and r: "file_ok r" and d: "opcode_is 4 d"
  let ?c = "c\<lparr>packet := tftp_recv d (packet c), time_count := 0, send_pack := replicate SEND_LEN 0,
    data_buf := replicate MAXCHAR 0\<rparr>"
  obtain b l r' where n: "file_next r = (b, l, r')" by (metis prod_cases3)
  from c have o: "file_open ?c r" by (simp add: tft_sends_def)
  obtain c1 where c1: "tft_ack_block ?c = Inr (Some (length b), c1)" "take (length b) (data_buf c1) = b"
    "length b \<le> NOBYTES" "NOBYTES \<le> length (data_buf c1)" "file_open c1 r'"
    "c1 = ?c\<lparr>data_buf := data_buf c1, nextch := nextch c1, fp := fp c1, read_fd := read_fd c1,
             stop_flag := (if l then 1 else stop_flag ?c)\<rparr>"
    using tft_ack_block_next [OF o _ r n] by auto
  have eq: "send_pack c1 = replicate SEND_LEN 0" "block_number c1 = block_number c" "sent c1 = sent c"
      "time_count c1 = 0" "read_flag c1 = read_flag c" "write_flag c1 = write_flag c"
      "stop_flag c1 = (if l then 1 else stop_flag c)"
    by (subst c1(6), simp)+
  from c have rd: "tft_reading c" by (simp add: tft_sends_def)
  from tft_ack_sends [OF rd c(2) d c1(1-4) eq(1-3)] rd eq c1(5) c(2) n
  show "\<exists>c'. tft_round (Datagram d) True c = Inr (Go c') \<and> tft_sends c' (snd (snd (file_next r))) \<and>
      staged c' = data_packet (block_number c + 1) (fst (file_next r)) \<and>
      sent c' = sent c @ [staged c'] \<and> time_count c' = 0 \<and>
      block_number c' = block_number c + 1 \<and> (stop_flag c' = 1 \<longleftrightarrow> fst (snd (file_next r)))"
    by (auto simp: tft_sends_def tft_reading_def)
qed

subsection \<open>The first block\<close>

text \<open>After a successful read request: the child sends with its reader in state \<open>r\<close> and has sent the
  first block \<open>b\<close>, which is the last one if \<open>l\<close>.\<close>

definition tft_started :: "byte list \<Rightarrow> bool \<Rightarrow> file_reader \<Rightarrow> tftp_child \<Rightarrow> bool" where
  "tft_started b l r c \<longleftrightarrow> tft_sends c r \<and> staged c = data_packet 1 b \<and> sent c = [data_packet 1 b] \<and>
     time_count c = 0 \<and> block_number c = 1 \<and> (stop_flag c = 1 \<longleftrightarrow> l)"

lemma be16_1 [simp]: "be16 1 = [0, 1]"
  by (simp add: be16_def)

lemma tft_first_block_started:
  assumes "take (length b) (data_buf c) = b" and "length b \<le> NOBYTES" and "length b \<le> length (data_buf c)"
    and "length (send_pack c) = SEND_LEN" and "length (packet c) = MAXCHAR"
    and "read_flag c = 1" and "write_flag c = 0" and "stop_flag c = (if l then 1 else 0)"
    and "sent c = []" and "time_count c = 0" and "file_open c r"
  shows "\<exists>c0. tft_first_block (length b) True c = Inr (Go c0) \<and> tft_started b l r c0"
proof -
  have "buf_read 0 (length b) (data_buf c) = Inr b" using assms(1,3) by (simp add: buf_read_def)
  with tftp_stage_send [of "[0, 3, 0, 1]" b c] assms show ?thesis
    by (auto simp: tft_first_block_def data_packet_def tft_started_def tft_sends_def tft_reading_def)
qed

lemma tft_request_netascii:
  assumes "pkt ! 1 = 1" and "tftp_parse pkt = Inr (name, mode)" and "is_netascii mode"
    and "fopen_r fs name = Some f" and "length pkt = MAXCHAR" and "length dat = MAXCHAR"
    and "tft_na_next (- 1, f) = (b, l, st)"
  shows "\<exists>c0. tft_request fs True (tft_child_init pkt sp dat) = Inr (Go c0) \<and> tft_started b l (Inl st) c0"
proof -
  have oct: "\<not> is_octet mode" using assms(3) by (auto simp: is_netascii_def is_octet_def lit_def)
  have b: "length b \<le> NOBYTES" using tft_na.block [of "(- 1, f)"] assms(7) by simp
  let ?d = "b @ drop (length b) dat"
  have w: "buf_write 0 b dat = Inr ?d" using b assms(6) by (simp add: buf_write_def NOBYTES_def MAXCHAR_def)
  let ?c = "(tft_child_init pkt sp dat)\<lparr>read_flag := 1, write_flag := 0, send_pack := replicate SEND_LEN 0,
    mode_flag := 1, fp := Fp_read (snd st), data_buf := ?d, nextch := fst st, stop_flag := (if l then 1 else 0)\<rparr>"
  have "tft_request fs True (tft_child_init pkt sp dat) = tft_first_block (length b) True ?c"
    using assms oct w
    by (cases st) (simp add: tft_request_def tft_rrq_def tft_rrq_netascii_def tft_child_init_def
        tft_rrq_fill_eq tft_na_next_def)
  also have "\<exists>c0. \<dots> = Inr (Go c0) \<and> tft_started b l (Inl st) c0"
    using b assms(5) by (intro tft_first_block_started) (simp_all add: tft_child_init_def file_open_def)
  finally show ?thesis .
qed

text \<open>In octet mode the first block always has 512 bytes: what \<open>read\<close> stored and what was in \<open>data\<close>.\<close>

lemma tft_request_octet:
  assumes "pkt ! 1 = 1" and "tftp_parse pkt = Inr (name, mode)" and "is_octet mode"
    and "open_rdwr fs name = Some rs" and "reads_ok rs" and "length pkt = MAXCHAR" and "length dat = MAXCHAR"
    and "octet_next rs = (b, l, rs')"
  shows "\<exists>c0. tft_request fs True (tft_child_init pkt sp dat) = Inr (Go c0) \<and>
    tft_started (take NOBYTES (b @ drop (length b) dat)) False (Inr rs') c0"
proof -
  have b: "length b \<le> NOBYTES" using octet.block [OF assms(5)] assms(8) by simp
  let ?d = "b @ drop (length b) dat"
  have w: "buf_write 0 b dat = Inr ?d" using b assms(7) by (simp add: buf_write_def NOBYTES_def MAXCHAR_def)
  have rd: "tftp_read rs = (Some b, rs')"
    using assms(5,8) by (cases rs rule: reads_ok.cases) (auto simp: octet_next_def tftp_read_def)
  let ?c = "(tft_child_init pkt sp dat)\<lparr>read_flag := 1, write_flag := 0, send_pack := replicate SEND_LEN 0,
    mode_flag := 0, read_fd := Some rs', data_buf := ?d\<rparr>"
  have len: "length (take NOBYTES ?d) = NOBYTES" using b assms(7) by (simp add: NOBYTES_def MAXCHAR_def)
  obtain blk where blk: "blk = take NOBYTES ?d" "length blk = NOBYTES" using len by blast
  have "tft_request fs True (tft_child_init pkt sp dat) = tft_first_block (length blk) True ?c"
    unfolding blk(2) using assms w rd
    by (simp add: tft_request_def tft_rrq_def tft_rrq_octet_def tft_child_init_def)
  also have "\<exists>c0. \<dots> = Inr (Go c0) \<and> tft_started blk False (Inr rs') c0"
  proof (rule tft_first_block_started)
    show "take (length blk) (data_buf ?c) = blk" unfolding blk(2) by (simp only: blk(1)) simp
    show "length blk \<le> length (data_buf ?c)" by (simp add: blk(1))
  qed (use blk(2) assms(6) in \<open>simp_all add: tft_child_init_def file_open_def\<close>)
  finally show ?thesis using blk(1) by simp
qed

lemma tft_started_run:
  assumes "tft_started b l r c0" and "\<not> l \<longrightarrow> file_ok r" and "list_all2 sw_event_of es evs"
    and "(ps, e) = sw_run (data_packet 1 b)
      (if l then [] else data_packets 2 (blocks_of (file_content r))) 0 evs"
  shows "\<exists>c'. tft_loop es c0 = Inr (if e then Brk c' else Go c') \<and> sent c' = data_packet 1 b # ps"
  using tft_child.run_spec [of c0 r 0 es evs ps e] assms by (auto simp: tft_started_def tft_loop_def)

text \<open>A file system and requests for the examples.\<close>

definition demo_fs :: tftp_fs where
  "demo_fs = \<lparr>open_rdwr = (\<lambda>_. Some [Some [104, 105]]), fopen_r = (\<lambda>_. Some [104, 10]), fopen_wx = (\<lambda>_. True)\<rparr>"

definition demo_netascii :: "byte list" where
  "demo_netascii = request_packet 1 [102] (lit ''netascii'') (replicate 987 0)"

definition demo_octet :: "byte list" where
  "demo_octet = request_packet 1 [102] (lit ''octet'') (replicate 990 0)"

definition demo_write :: "byte list" where
  "demo_write = request_packet 2 [102] (lit ''octet'') (replicate 990 0)"

lemma demo_netascii_facts:
  "demo_netascii ! 1 = 1" "length demo_netascii = MAXCHAR" "is_netascii (lit ''netascii'')"
  "tftp_parse demo_netascii = Inr ([102], lit ''netascii'')"
proof -
  show "tftp_parse demo_netascii = Inr ([102], lit ''netascii'')"
    unfolding demo_netascii_def by (rule request_parse) (simp_all add: lit_def byte_of_char_def)
qed (simp_all add: demo_netascii_def request_packet_def MAXCHAR_def is_netascii_def)

lemma demo_octet_facts:
  "demo_octet ! 1 = 1" "length demo_octet = MAXCHAR" "is_octet (lit ''octet'')"
  "tftp_parse demo_octet = Inr ([102], lit ''octet'')"
proof -
  show "tftp_parse demo_octet = Inr ([102], lit ''octet'')"
    unfolding demo_octet_def by (rule request_parse) (simp_all add: lit_def byte_of_char_def)
qed (simp_all add: demo_octet_def request_packet_def MAXCHAR_def is_octet_def)

lemma demo_write_facts:
  "demo_write ! 1 = 2" "length demo_write = MAXCHAR" "tftp_parse demo_write = Inr ([102], lit ''octet'')"
proof -
  show "tftp_parse demo_write = Inr ([102], lit ''octet'')"
    unfolding demo_write_def by (rule request_parse) (simp_all add: lit_def byte_of_char_def)
qed (simp_all add: demo_write_def request_packet_def MAXCHAR_def)

subsection \<open>Read transfers\<close>

text \<open>Claim C8: a netascii read request of a file that can be opened makes the child of \<open>tftps.c\<close> a
  stop-and-wait sender. Whatever timeouts and acknowledgements follow, with \<open>sendto\<close> succeeding, the
  datagrams it sends are those of the specification: the text of the file up to its first byte 255,
  every line feed preceded by a carriage return and every carriage return followed by a zero, cut
  into blocks of 512 bytes with a shorter last one, in DATA packets numbered from 1 modulo 65536, each
  repeated at a timeout; the loop ends when the last block is acknowledged or at the tenth timeout in
  a row.\<close>

theorem tft_netascii_transfer:
  assumes "pkt ! 1 = 1" and "tftp_parse pkt = Inr (name, mode)" and "is_netascii mode"
    and "fopen_r fs name = Some f" and "length pkt = MAXCHAR" and "length dat = MAXCHAR"
    and "list_all2 sw_event_of es evs"
    and "data_packets 1 (blocks_of (netascii (text_part f))) = p # rest"
    and "sw_run p rest 0 evs = (ps, e)"
  shows "\<exists>c0 c'. tft_request fs True (tft_child_init pkt sp dat) = Inr (Go c0) \<and>
    tft_loop es c0 = Inr (if e then Brk c' else Go c') \<and> sent c' = p # ps"
proof -
  obtain b l st where n: "tft_na_next (- 1, f) = (b, l, st)" by (metis prod_cases3)
  from tft_request_netascii [OF assms(1-6) n] obtain c0 where
    c0: "tft_request fs True (tft_child_init pkt sp dat) = Inr (Go c0)" "tft_started b l (Inl st) c0" by blast
  have "na_content (- 1, f) = netascii (text_part f)" by (simp add: na_content_def pending_def)
  with tft_na.blocks_of_content [of "(- 1, f)"] n assms(8)
  have "p = data_packet 1 b" and "rest = (if l then [] else data_packets 2 (blocks_of (na_content st)))"
    by (auto simp: data_packet_def)
  with assms(9) have run: "(ps, e) = sw_run (data_packet 1 b)
      (if l then [] else data_packets 2 (blocks_of (file_content (Inl st)))) 0 evs"
    by (auto simp: file_content_def)
  have "\<not> l \<longrightarrow> file_ok (Inl st)" by (simp add: file_ok_def)
  from tft_started_run [OF c0(2) this assms(7) run] c0(1) \<open>p = _\<close> show ?thesis by blast
qed

theorem tft_netascii_transfer_witness:
  "\<exists>c0 c'. tft_request demo_fs True (tft_child_init demo_netascii [] (replicate 1000 7)) = Inr (Go c0) \<and>
     tft_loop [(Timed_out, True), (Datagram [0, 4, 0, 1], True)] c0 = Inr (Brk c') \<and>
     sent c' = [[0, 3, 0, 1, 104, 13, 10], [0, 3, 0, 1, 104, 13, 10]]"
proof -
  have "data_packets 1 (blocks_of (netascii (text_part [104, 10]))) = [[0, 3, 0, 1, 104, 13, 10]]"
    by (simp add: text_part_def char_val_def EOF_def blocks_of.simps NOBYTES_def)
  then show ?thesis
    using tft_netascii_transfer [of demo_netascii "[102]" "lit ''netascii''" demo_fs "[104, 10]" "replicate 1000 7"
      "[(Timed_out, True), (Datagram [0, 4, 0, 1], True)]" "[Sw_timeout, Sw_ack]" "[0, 3, 0, 1, 104, 13, 10]" "[]"
      "[[0, 3, 0, 1, 104, 13, 10]]" True "[]"] demo_netascii_facts
    by (simp add: demo_fs_def opcode_is_def MAXCHAR_def)
qed

text \<open>Claim C13: an octet read request sends the file in stop-and-wait fashion too, but its first block
  always has 512 bytes. A file of at least 512 bytes arrives as it is, in blocks of 512 bytes with a
  shorter, possibly empty, last one; a shorter file arrives padded to 512 bytes with whatever the
  buffer \<open>data\<close> held, followed by an empty block.\<close>

theorem tft_octet_transfer:
  assumes "pkt ! 1 = 1" and "tftp_parse pkt = Inr (name, mode)" and "is_octet mode"
    and "open_rdwr fs name = Some rs" and "reads_ok rs" and "length pkt = MAXCHAR" and "length dat = MAXCHAR"
    and "list_all2 sw_event_of es evs" and "content = reads_content rs"
    and "data_packets 1 (if length content < NOBYTES
           then [content @ take (NOBYTES - length content) (drop (length content) dat), []]
           else blocks_of content) = p # rest"
    and "sw_run p rest 0 evs = (ps, e)"
  shows "\<exists>c0 c'. tft_request fs True (tft_child_init pkt sp dat) = Inr (Go c0) \<and>
    tft_loop es c0 = Inr (if e then Brk c' else Go c') \<and> sent c' = p # ps"
proof -
  obtain b l rs' where n: "octet_next rs = (b, l, rs')" by (metis prod_cases3)
  from tft_request_octet [OF assms(1-7) n] obtain c0 where
    c0: "tft_request fs True (tft_child_init pkt sp dat) = Inr (Go c0)"
    "tft_started (take NOBYTES (b @ drop (length b) dat)) False (Inr rs') c0" by blast
  have b: "b = take NOBYTES content" "l \<longleftrightarrow> length content < NOBYTES"
    using octet.block [OF assms(5)] octet.last [OF assms(5)] n assms(9) by simp_all
  have rs': "reads_ok rs' \<and> reads_content rs' = drop NOBYTES content"
    using assms(5,9) n by (cases rs rule: reads_ok.cases)
      (auto simp: octet_next_def tftp_read_def reads_content_def)
  have emp: "blocks_of [] = [[]]" by (subst blocks_of.simps) (simp add: NOBYTES_def)
  have "p = data_packet 1 (take NOBYTES (b @ drop (length b) dat)) \<and>
      rest = data_packets 2 (blocks_of (reads_content rs'))"
  proof (cases "length content < NOBYTES")
    case True
    with assms(10) b rs' show ?thesis by (auto simp: data_packet_def emp)
  next
    case False
    moreover from False have "blocks_of content = take NOBYTES content # blocks_of (drop NOBYTES content)"
      by (subst blocks_of.simps) simp
    ultimately show ?thesis using assms(10) b rs' by (auto simp: data_packet_def)
  qed
  then have p: "p = data_packet 1 (take NOBYTES (b @ drop (length b) dat))"
    and "(ps, e) = sw_run p (if False then [] else data_packets 2 (blocks_of (file_content (Inr rs')))) 0 evs"
    using assms(11) by (simp_all add: file_content_def)
  moreover have "\<not> False \<longrightarrow> file_ok (Inr rs')" using rs' by (simp add: file_ok_def)
  ultimately show ?thesis using tft_started_run [OF c0(2) _ assms(8)] c0(1) by blast
qed

theorem tft_octet_transfer_witness:
  "\<exists>c0 c'. tft_request demo_fs True (tft_child_init demo_octet [] (replicate 1000 7)) = Inr (Go c0) \<and>
     tft_loop [(Datagram [0, 4, 0, 1], True), (Datagram [0, 4, 0, 2], True)] c0 = Inr (Brk c') \<and>
     sent c' = [[0, 3, 0, 1, 104, 105] @ replicate 510 7, [0, 3, 0, 2]]"
  using tft_octet_transfer [of demo_octet "[102]" "lit ''octet''" demo_fs "[Some [104, 105]]" "replicate 1000 7"
      "[(Datagram [0, 4, 0, 1], True), (Datagram [0, 4, 0, 2], True)]" "[Sw_ack, Sw_ack]" "[104, 105]"
      "[0, 3, 0, 1, 104, 105] @ replicate 510 7" "[[0, 3, 0, 2]]" "[[0, 3, 0, 2]]" True "[]"] demo_octet_facts
  by (simp add: demo_fs_def opcode_is_def MAXCHAR_def NOBYTES_def reads_content_def be16_def)

subsection \<open>Write transfers\<close>

definition tft_writing :: "byte list \<Rightarrow> tftp_child \<Rightarrow> bool" where
  "tft_writing w c \<longleftrightarrow> read_flag c = 0 \<and> write_flag c = 1 \<and> stop_flag c = 0 \<and> mode_flag c = - 1 \<and>
     nextch c = - 1 \<and> fp c = Fp_write w \<and> length (packet c) = MAXCHAR"

definition ack_packet :: "16 word \<Rightarrow> byte list" where
  "ack_packet n = [0, 4] @ be16 n"

text \<open>The bytes of the packet buffer that a DATA datagram with payload \<open>p\<close> makes the child write.\<close>

definition stored :: "byte list \<Rightarrow> byte list \<Rightarrow> byte list" where
  "stored p pkt = takeWhile (\<lambda>b. b \<noteq> 0) (p @ drop (HEADER + length p) pkt)"

lemma tft_put_loop_plain:
  "mode \<noteq> 1 \<Longrightarrow> nx < 0 \<Longrightarrow> tft_put_loop mode ds nx = (ds, (\<exists>d\<in>set ds. char_val d = EOF), nx)"
  by (induction ds) auto

lemma takeWhile_zeros: "takeWhile (\<lambda>b. b \<noteq> 0) (xs @ replicate n 0) = takeWhile (\<lambda>b. b \<noteq> (0::byte)) xs"
  by (induction xs) (auto simp: takeWhile_replicate)

lemma tftp_recv_data:
  "length pkt = MAXCHAR \<Longrightarrow> HEADER + length p \<le> MAXCHAR \<Longrightarrow>
     tftp_recv (h0 # op # h2 # h3 # p) pkt = h0 # op # h2 # h3 # p @ drop (HEADER + length p) pkt"
proof -
  assume a: "length pkt = MAXCHAR" "HEADER + length p \<le> MAXCHAR"
  have e: "HEADER + length p = Suc (Suc (Suc (Suc (length p))))" by (simp add: HEADER_def)
  show ?thesis using a unfolding e by (simp add: tftp_recv_def MAXCHAR_def)
qed

lemma ack_stage_send:
  assumes "length (send_pack x) = SEND_LEN"
  shows "c_bind (tftp_stage 10 (0 # 4 # be16 bn) [] x) (\<lambda>c. tftp_send True c k) =
      Inr (k (x\<lparr>send_pack := ack_packet bn @ drop 4 (send_pack x), size_sp := Some 4,
                sent := sent x @ [ack_packet bn]\<rparr>))"
  using assms
  by (subst tftp_stage_Inr) (simp_all add: SEND_LEN_def tftp_send_ok can_send_def staged_def ack_packet_def)

lemma tft_round_data:
  assumes "tft_writing w c" and "HEADER + length p \<le> MAXCHAR"
  shows "\<exists>c'. tft_round (Datagram (h0 # 3 # h2 # h3 # p)) True c =
      Inr (if \<exists>b\<in>set (stored p (packet c)). char_val b = EOF then Brk c' else Go c') \<and>
    sent c' = sent c @ [ack_packet (block_number c)] \<and> fp c' = Fp_write (w @ stored p (packet c)) \<and>
    ((\<forall>b\<in>set (stored p (packet c)). char_val b \<noteq> EOF) \<longrightarrow>
       tft_writing (w @ stored p (packet c)) c' \<and> block_number c' = block_number c + 1 \<and>
       time_count c' = 0 \<and> packet c' = replicate MAXCHAR 0)"
proof -
  let ?body = "p @ drop (HEADER + length p) (packet c)"
  let ?data = "?body @ replicate 4 0"
  have len: "length (packet c) = MAXCHAR" using assms(1) by (simp add: tft_writing_def)
  then have lb: "length ?body = MAXCHAR - HEADER" using assms(2) by (simp add: HEADER_def MAXCHAR_def)
  note recv = tftp_recv_data [OF len assms(2), of h0 3 h2 h3]
  have body: "buf_read HEADER (MAXCHAR - HEADER) (h0 # 3 # h2 # h3 # ?body) = Inr ?body"
    using lb by (simp add: buf_read_def HEADER_def MAXCHAR_def)
  have data: "buf_write 0 ?body (replicate MAXCHAR 0) = Inr ?data"
    using lb by (simp add: buf_write_def HEADER_def MAXCHAR_def)
  have str: "c_str ?data = Inr (stored p (packet c))"
    unfolding c_str_def stored_def takeWhile_zeros by simp
  have put: "tftp_putcs s (Fp_write w) = Inr (Fp_write (w @ s))" for s by (simp add: tftp_putcs_def)
  note defs = tft_round_def tft_received_def tft_dispatch_def recv tft_data_def tft_writing_def Let_def body data
    str [unfolded append_assoc] tft_put_loop_plain put ack_stage_send
  show ?thesis
  proof (cases "\<exists>b\<in>set (stored p (packet c)). char_val b = EOF")
    case True
    with assms(1) show ?thesis by (simp add: defs)
  next
    case False
    with assms(1) show ?thesis by (simp add: defs)
  qed
qed

lemma tft_request_write:
  assumes "pkt ! 1 = 2" and "tftp_parse pkt = Inr (name, mode)" and "fopen_wx fs name" and "length pkt = MAXCHAR"
  shows "\<exists>c0. tft_request fs True (tft_child_init pkt sp dat) = Inr (Go c0) \<and> tft_writing [] c0 \<and>
    packet c0 = pkt \<and> sent c0 = [ack_packet 0] \<and> block_number c0 = 1 \<and> time_count c0 = 0"
  using assms by (simp add: tft_request_def tft_wrq_def tft_child_init_def tft_writing_def tftp_stage_Inr SEND_LEN_def
      tftp_send_ok can_send_def staged_def ack_packet_def be16_def)

text \<open>DATA datagrams with the given payloads, whatever their other header bytes.\<close>

definition is_data :: "net_event \<times> bool \<Rightarrow> byte list \<Rightarrow> bool" where
  "is_data x p \<longleftrightarrow> HEADER + length p \<le> MAXCHAR \<and> (\<exists>h0 h2 h3. x = (Datagram (h0 # 3 # h2 # h3 # p), True))"

fun acks_from :: "16 word \<Rightarrow> nat \<Rightarrow> byte list list" where
  "acks_from n 0 = []"
| "acks_from n (Suc k) = ack_packet n # acks_from (n + 1) k"

lemma acks_from_snoc: "acks_from n (Suc k) = acks_from n k @ [ack_packet (n + of_nat k)]"
proof (induction k arbitrary: n)
  case 0
  then show ?case by simp
next
  case (Suc k)
  have "acks_from n (Suc (Suc k)) = ack_packet n # acks_from (n + 1) (Suc k)" by simp
  also have "\<dots> = ack_packet n # acks_from (n + 1) k @ [ack_packet (n + 1 + of_nat k)]"
    by (simp only: Suc.IH)
  finally show ?case by (simp add: algebra_simps)
qed

definition up_to_zero :: "byte list \<Rightarrow> byte list" where
  "up_to_zero p = takeWhile (\<lambda>b. b \<noteq> 0) p"

lemma stored_clean: "stored p (replicate n 0) = up_to_zero p"
  by (simp add: stored_def up_to_zero_def takeWhile_zeros)

text \<open>The byte 255 compares equal to \<open>EOF\<close>: the block that has it is the last one.\<close>

definition has_eof :: "byte list \<Rightarrow> bool" where
  "has_eof s \<longleftrightarrow> (\<exists>b\<in>set s. char_val b = EOF)"

fun uploaded :: "byte list list \<Rightarrow> byte list list" where
  "uploaded [] = []"
| "uploaded (s # ss) = s # (if has_eof s then [] else uploaded ss)"

lemma tft_loop_data:
  assumes "tft_writing w c" and "packet c = replicate MAXCHAR 0" and "list_all2 is_data es ps"
  shows "\<exists>c'. tft_loop es c = Inr (if list_ex has_eof (map up_to_zero ps) then Brk c' else Go c') \<and>
    fp c' = Fp_write (w @ concat (uploaded (map up_to_zero ps))) \<and>
    sent c' = sent c @ acks_from (block_number c) (length (uploaded (map up_to_zero ps)))"
  using assms
proof (induction es arbitrary: c w ps)
  case Nil
  then show ?case by (simp add: tft_loop_def tft_writing_def)
next
  case (Cons x es)
  then obtain p ps' h0 h2 h3 where x: "ps = p # ps'" "x = (Datagram (h0 # 3 # h2 # h3 # p), True)"
      "HEADER + length p \<le> MAXCHAR" "list_all2 is_data es ps'"
    by (auto simp: list_all2_Cons1 is_data_def [of x])
  have st: "stored p (packet c) = up_to_zero p" using Cons.prems(2) by (simp add: stored_clean)
  from tft_round_data [OF Cons.prems(1) x(3), of h0 h2 h3] obtain c1 where
    c1: "tft_round (Datagram (h0 # 3 # h2 # h3 # p)) True c = Inr (if has_eof (up_to_zero p) then Brk c1 else Go c1)"
    "sent c1 = sent c @ [ack_packet (block_number c)]" "fp c1 = Fp_write (w @ up_to_zero p)"
    "\<not> has_eof (up_to_zero p) \<Longrightarrow> tft_writing (w @ up_to_zero p) c1 \<and> block_number c1 = block_number c + 1 \<and> packet c1 = replicate MAXCHAR 0"
    unfolding st has_eof_def by (auto simp del: bex_simps)
  show ?case
  proof (cases "has_eof (up_to_zero p)")
    case True
    with c1(1-3) x(1,2) show ?thesis by (simp add: tft_loop_def)
  next
    case False
    with Cons.IH [OF _ _ x(4)] c1 x(1,2) show ?thesis by (fastforce simp: tft_loop_def)
  qed
qed

text \<open>Claim C16: an accepted write request makes the child of \<open>tftps.c\<close> append to the new file, for
  every DATA datagram, the bytes of its payload before the first zero byte, and answer with
  acknowledgements numbered 0, 1, 2, ... modulo 65536. The buffer the first datagram arrives in still
  holds the request, so the first payload is written together with the rest of the request behind it,
  up to the first zero byte. A stored byte 255 is taken for the end of the file: its block is still stored and
  acknowledged, and then the child leaves its loop, whatever is still to come.\<close>

theorem tft_write_transfer:
  assumes "pkt ! 1 = 2" and "tftp_parse pkt = Inr (name, mode)" and "fopen_wx fs name" and "length pkt = MAXCHAR"
    and "list_all2 is_data es (p # ps)" and "ss = stored p pkt # map up_to_zero ps"
  shows "\<exists>c0 c'. tft_request fs True (tft_child_init pkt sp dat) = Inr (Go c0) \<and>
    tft_loop es c0 = Inr (if list_ex has_eof ss then Brk c' else Go c') \<and>
    fp c' = Fp_write (concat (uploaded ss)) \<and> sent c' = acks_from 0 (Suc (length (uploaded ss)))"
proof -
  from tft_request_write [OF assms(1-4)] obtain c0 where
    c0: "tft_request fs True (tft_child_init pkt sp dat) = Inr (Go c0)" "tft_writing [] c0" "packet c0 = pkt"
    "sent c0 = [ack_packet 0]" "block_number c0 = 1" by blast
  from assms(5) obtain h0 h2 h3 es' where es: "es = (Datagram (h0 # 3 # h2 # h3 # p), True) # es'"
      "HEADER + length p \<le> MAXCHAR" "list_all2 is_data es' ps"
    by (auto simp: list_all2_Cons2 is_data_def [of _ p])
  from tft_round_data [OF c0(2) es(2), of h0 h2 h3] obtain c1 where
    c1: "tft_round (Datagram (h0 # 3 # h2 # h3 # p)) True c0 = Inr (if has_eof (stored p pkt) then Brk c1 else Go c1)"
    "sent c1 = sent c0 @ [ack_packet 1]" "fp c1 = Fp_write (stored p pkt)"
    "\<not> has_eof (stored p pkt) \<Longrightarrow> tft_writing (stored p pkt) c1 \<and> block_number c1 = 2 \<and> packet c1 = replicate MAXCHAR 0"
    unfolding c0(3,5) has_eof_def by (auto simp del: bex_simps)
  show ?thesis
  proof (cases "has_eof (stored p pkt)")
    case True
    with c0 c1(1-3) es(1) assms(6) show ?thesis by (simp add: tft_loop_def)
  next
    case False
    with tft_loop_data [OF _ _ es(3), of "stored p pkt" c1] c1 c0 es(1) assms(6) show ?thesis
      by (fastforce simp: tft_loop_def)
  qed
qed

theorem tft_write_transfer_witness:
  "\<exists>c0 c'. tft_request demo_fs True (tft_child_init demo_write [] []) = Inr (Go c0) \<and>
     tft_loop [(Datagram [0, 3, 0, 1, 104, 105], True), (Datagram [0, 3, 0, 2, 106, 255, 107], True), (Datagram [0, 3, 0, 3, 108], True)] c0 = Inr (Brk c') \<and>
     fp c' = Fp_write ([104, 105] @ lit ''tet'' @ [106, 255, 107]) \<and>
     sent c' = [[0, 4, 0, 0], [0, 4, 0, 1], [0, 4, 0, 2]]"
proof -
  have st: "stored [104, 105] demo_write = [104, 105] @ lit ''tet''"
    by (simp add: stored_def demo_write_def request_packet_def HEADER_def lit_def byte_of_char_def)
  then show ?thesis
    using tft_write_transfer [of demo_write "[102]" "lit ''octet''" demo_fs
      "[(Datagram [0, 3, 0, 1, 104, 105], True), (Datagram [0, 3, 0, 2, 106, 255, 107], True), (Datagram [0, 3, 0, 3, 108], True)]"
      "[104, 105]" "[[106, 255, 107], [108]]" _ "[]" "[]", OF _ _ _ _ _ refl]
      demo_write_facts
    by (simp add: demo_fs_def is_data_def HEADER_def MAXCHAR_def up_to_zero_def has_eof_def char_val_def EOF_def lit_def
        byte_of_char_def ack_packet_def be16_def)
qed

text \<open>In a write transfer of \<open>tftps.c\<close> two timeouts in a row end the loop, the first one
  leaves the child waiting, and neither sends anything: a lost acknowledgement is never repeated.\<close>

theorem tft_write_timeouts:
  assumes "tft_writing w c" and "time_count c = 0"
  shows "\<exists>c1 c2. tft_round Timed_out ok c = Inr (Go c1) \<and> tft_round Timed_out ok' c1 = Inr (Brk c2) \<and>
    sent c2 = sent c \<and> fp c2 = Fp_write w \<and> stop_flag c2 = 1"
  using assms by (auto simp: tft_round_def tft_timeout_def tft_timeout_write_def tft_writing_def Let_def)

theorem tft_write_timeouts_witness:
  "\<exists>c1 c2. tft_round Timed_out True ((tft_child_init (replicate 1000 0) [] [])\<lparr>write_flag := 1, fp := Fp_write [1]\<rparr>) =
      Inr (Go c1) \<and> tft_round Timed_out True c1 = Inr (Brk c2) \<and> fp c2 = Fp_write [1]"
  using tft_write_timeouts [of "[1]" "(tft_child_init (replicate 1000 0) [] [])\<lparr>write_flag := 1, fp := Fp_write [1]\<rparr>"
      True True]
  by (auto simp: tft_writing_def tft_child_init_def MAXCHAR_def)

text \<open>A request that is neither a read nor a write request leaves a child that waits for ever:
  however many timeouts pass, the child of \<open>tftps.c\<close> goes round its loop, unchanged and without
  sending anything.\<close>

theorem tft_idle_child_never_ends:
  assumes "pkt ! 1 \<noteq> 1" and "pkt ! 1 \<noteq> 2"
  shows "tft_request fs ok (tft_child_init pkt sp dat) = Inr (Go (tft_child_init pkt sp dat)) \<and>
    tft_loop (replicate n (Timed_out, ok)) (tft_child_init pkt sp dat) = Inr (Go (tft_child_init pkt sp dat))"
proof -
  let ?c = "tft_child_init pkt sp dat"
  have "tft_round Timed_out ok ?c = Inr (Go ?c)"
    by (simp add: tft_round_def tft_timeout_def tft_child_init_def)
  then have "tft_loop (replicate n (Timed_out, ok)) ?c = Inr (Go ?c)"
    by (induction n) (simp_all add: tft_loop_def)
  with assms show ?thesis by (simp add: tft_request_def tft_child_init_def)
qed

theorem tft_idle_child_never_ends_witness:
  "tft_loop (replicate 1000000 (Timed_out, True)) (tft_child_init (replicate 1000 0) [] []) =
     Inr (Go (tft_child_init (replicate 1000 0) [] []))"
  using tft_idle_child_never_ends [of "replicate 1000 0" demo_fs True "[]" "[]" 1000000] by simp

text \<open>An ERROR datagram from the client makes the child of \<open>tftps.c\<close> copy 996 bytes into the
  50 bytes of \<open>ErrMsg\<close>, whatever the datagram holds beyond its opcode.\<close>

theorem tft_error_overflows:
  assumes "opcode_is 5 d" and "length (packet c) = MAXCHAR"
  shows "tft_round (Datagram d) ok c = Inl Out_of_bounds"
  using assms tftp_recv_opcode [OF assms(1), of "packet c"]
  by (simp add: tft_round_def tft_received_def tft_dispatch_def tft_error_def Let_def buf_read_def buf_write_def HEADER_def MAXCHAR_def)

theorem tft_error_overflows_witness:
  "tft_round (Datagram [0, 5, 0, 0, 0]) True (tft_child_init (replicate 1000 0) [] []) = Inl Out_of_bounds"
  using tft_error_overflows [of "[0, 5, 0, 0, 0]" "tft_child_init (replicate 1000 0) [] []" True]
  by (simp add: opcode_is_def tft_child_init_def MAXCHAR_def)

subsection \<open>Cleanup\<close>

lemma tft_violation_keeps:
  "fp c1 = fp c \<Longrightarrow> read_fd c1 = read_fd c \<Longrightarrow> stop_flag c1 = stop_flag c \<Longrightarrow>
     ensures (keeps_files c) (tft_violation code ok c1)"
  unfolding tft_violation_def by (intro ensures_intros) (simp_all add: keeps_files_def)

lemma tft_timeout_keeps: "ensures (keeps_files c) (tft_timeout ok c)"
proof -
  have rd: "ensures (keeps_files c) (if read_flag c = 1 \<and> write_flag c = 0 then tft_timeout_read ok c else Inr (Go c))"
    unfolding tft_timeout_read_def by (intro ensures_intros) (auto simp: keeps_files_def Let_def)
  show ?thesis
    unfolding tft_timeout_def
    by (rule ensures_bind, drule ensuresD [OF rd])
       (auto simp: keeps_files_def tft_timeout_write_def Let_def ensures_def split: flow.splits)
qed

lemma tft_data_keeps: "ensures (keeps_files c) (tft_data ok c)"
  unfolding tft_data_def Let_def
  by (intro tft_violation_keeps ensures_intros) (auto simp: keeps_files_def)

lemma tft_ack_block_keeps:
  "ensures (\<lambda>(n, c'). (fp c' = Fp_uninit \<longleftrightarrow> fp c = Fp_uninit) \<and> (read_fd c' = None \<longleftrightarrow> read_fd c = None) \<and>
     (stop_flag c' = stop_flag c \<or> stop_flag c' = 1)) (tft_ack_block c)"
  unfolding tft_ack_block_def by (intro ensures_intros) (auto split: stream.splits)

lemma tft_ack_keeps: "ensures (keeps_files c) (tft_ack ok c)"
  unfolding tft_ack_def Let_def
  by (intro tft_violation_keeps ensures_intros)
     (auto simp: keeps_files_def dest!: ensuresD [OF tft_ack_block_keeps])

lemma tft_dispatch_keeps: "ensures (keeps_files c) (tft_dispatch ok c)"
  unfolding tft_dispatch_def tft_error_def
  by (intro tft_data_keeps tft_ack_keeps ensures_intros) (auto simp: keeps_files_def)

lemma tft_round_keeps: "ensures (keeps_files c) (tft_round ev ok c)"
proof (cases ev)
  case (Datagram d)
  let ?c = "c\<lparr>packet := tftp_recv d (packet c), time_count := 0\<rparr>"
  have "keeps_files c (case f of Go c \<Rightarrow> Go (c\<lparr>packet := replicate MAXCHAR 0\<rparr>) | _ \<Rightarrow> f)"
    if "tft_dispatch ok ?c = Inr f" for f
    using ensuresD [OF tft_dispatch_keeps that] by (cases f) (simp_all add: keeps_files_def)
  with Datagram show ?thesis by (auto simp: tft_round_def tft_received_def intro!: ensures_bind ensures_Inr)
qed (auto simp: tft_round_def keeps_files_def [of c "Exit _ _"] intro: tft_timeout_keeps ensures_Inr)

lemma tft_request_one_file:
  "ensures (\<lambda>f. one_file (flow_state f)) (tft_request fs ok (tft_child_init pkt sp dat))"
  unfolding tft_request_def tft_rrq_def tft_wrq_def tft_rrq_octet_def tft_rrq_netascii_def tft_rrq_bad_mode_def
    tft_first_block_def tft_child_init_def Let_def
  by (intro ensures_intros) (auto simp: one_file_def)

text \<open>No transfer of \<open>tftps.c\<close> is cleaned up properly. Of \<open>fp\<close> and \<open>read_fd\<close> a child assigns at
  most one, but the cleanup after the loop closes both: every child that leaves its loop uses an
  uninitialised variable, \<open>fp\<close> in octet mode and \<open>read_fd\<close> otherwise.\<close>

theorem tft_cleanup_uninitialised:
  assumes "tft_request fs ok (tft_child_init pkt sp dat) = Inr (Go c0)" and "tft_loop es c0 = Inr (Brk c1)"
  shows "tft_finish c1 = Inl Uninitialised \<and> tft_child fs ok es (tft_child_init pkt sp dat) = Inl Uninitialised"
proof -
  have "one_file c0" using ensuresD [OF tft_request_one_file assms(1)] by simp
  from child_loop_one_file [OF tft_round_keeps assms(2) [unfolded tft_loop_def] this] assms
  show ?thesis by (auto simp: tft_finish_def one_file_def tft_child_def)
qed

theorem tft_cleanup_uninitialised_witness:
  "tft_child demo_fs True [(Timed_out, True), (Timed_out, True)] (tft_child_init demo_write [] []) = Inl Uninitialised"
proof -
  obtain c0 where c0: "tft_request demo_fs True (tft_child_init demo_write [] []) = Inr (Go c0)" "tft_writing [] c0"
      "time_count c0 = 0"
    using tft_request_write [OF demo_write_facts(1,3), of demo_fs] demo_write_facts(2) by (auto simp: demo_fs_def)
  then obtain c1 where "tft_loop [(Timed_out, True), (Timed_out, True)] c0 = Inr (Brk c1)"
    by (auto simp: tft_loop_def tft_round_def tft_timeout_def tft_timeout_write_def tft_writing_def Let_def)
  with tft_cleanup_uninitialised [OF c0(1)] show ?thesis by blast
qed

subsection \<open>Starting the server\<close>

lemma tft_bind_loop_spec:
  "tft_bind_loop rs i k =
     (case find (\<lambda>j. rs ! j = (True, True)) [0..<length rs] of None \<Rightarrow> (None, k) | Some j \<Rightarrow> (Some (i + j), k + 1))"
proof (induction rs arbitrary: i)
  case Nil
  then show ?case by simp
next
  case (Cons r rs)
  have up: "[0..<Suc (length rs)] = 0 # map Suc [0..<length rs]"
    by (simp add: map_Suc_upt upt_conv_Cons del: upt_Suc)
  have shift: "find P (map Suc xs) = map_option Suc (find (\<lambda>j. P (Suc j)) xs)" for P xs
    by (induction xs) simp_all
  show ?case
    using Cons.IH [of "i + 1"]
    by (cases r; cases "find (\<lambda>j. rs ! j = (True, True)) [0..<length rs]")
       (simp_all add: up shift del: upt_Suc)
qed

text \<open>The start-up of \<open>tftps.c\<close> binds the first address for which both \<open>socket\<close> and \<open>bind\<close>
  succeed, and leaves no other socket open; it fails exactly when there is no such address.\<close>

theorem tft_bind_first:
  "tft_bind_loop rs 0 0 =
     (case find (\<lambda>j. rs ! j = (True, True)) [0..<length rs] of None \<Rightarrow> (None, 0) | Some j \<Rightarrow> (Some j, 1))"
  by (simp add: tft_bind_loop_spec split: option.split)

text \<open>\<open>dec2bin\<close> stores the five low bits of its argument as characters, most significant first,
  followed by a terminating zero, and nothing behind it; a buffer shorter than six bytes is overrun.\<close>

theorem tft_dec2bin_spec:
  "tft_dec2bin num str =
     (if 6 \<le> length str
      then Inr (map (\<lambda>i. if bit num i then 49 else 48) [4, 3, 2, 1, 0] @ [0] @ drop 6 str)
      else Inl Out_of_bounds)"
proof (cases "6 \<le> length str")
  case True
  have bits: "(16 AND num = 0) = (\<not> bit num 4)" "(8 AND num = 0) = (\<not> bit num 3)" "(4 AND num = 0) = (\<not> bit num 2)"
      "(2 AND num = 0) = (\<not> bit num 1)" "(1 AND num = 0) = (\<not> bit num 0)"
    using and_exp_eq_0_iff_not_bit [of num 4] and_exp_eq_0_iff_not_bit [of num 3] and_exp_eq_0_iff_not_bit [of num 2]
      and_exp_eq_0_iff_not_bit [of num 1] and_exp_eq_0_iff_not_bit [of num 0] by (simp_all add: and.commute)
  have "tft_dec2bin_loop (Suc (Suc (Suc (Suc (Suc (Suc n)))))) 32 num =
      map (\<lambda>i. if bit num i then 49 else 48) [4, 3, 2, 1, 0]" for n
    by (simp add: bits Let_def drop_bit_Suc)
  from this [of 26] have loop: "tft_dec2bin_loop 32 (push_bit 1 0x10) num =
      map (\<lambda>i. if bit num i then 49 else 48) [4, 3, 2, 1, 0]" by simp
  have five: "Suc (Suc (Suc (Suc (Suc 0)))) = 5" by simp
  have "drop (Suc (Suc (Suc (Suc (Suc 0))))) (str[5 := 0]) = 0 # drop 6 str"
    unfolding five using True Cons_nth_drop_Suc [of 5 "str[5 := 0]"] by simp
  with True show ?thesis unfolding tft_dec2bin_def loop by (simp add: arr_set_def buf_write_def)
next
  case False
  then show ?thesis by (simp add: tft_dec2bin_def arr_set_def)
qed

end
