(* ===== verification/Tftp_Server.thy ===== *)
theory Tftp_Server
  imports Tftps
begin

section \<open>The TFTP server server.c\<close>

text \<open>
  The other version of the server, in the order of its source and with the same conventions as
  \<open>Tftps\<close>. It differs from \<open>tftps.c\<close> in three places: it retransmits at every timeout, also in a write
  transfer; it writes 512 bytes of every DATA datagram and numbers its acknowledgements one higher;
  and it does not clear \<open>packet\<close> between datagrams. Its read path is proved equal to that of
  \<open>tftps.c\<close>, so it inherits the read transfer theorems; its write path is characterised separately.
\<close>

text \<open>\<open>dec2bin\<close>: the five low bits of \<open>num\<close> as characters, and the terminator it stores first.\<close>

fun srv_dec2bin_loop :: "nat \<Rightarrow> 32 word \<Rightarrow> 32 word \<Rightarrow> byte list" where
  "srv_dec2bin_loop 0 msk num = []"
| "srv_dec2bin_loop (Suc fuel) msk num =
     (let m = drop_bit 1 msk
      in if m = 0 then []
         else (if m AND num \<noteq> 0 then 49 else 48) # srv_dec2bin_loop fuel m num)"

definition srv_dec2bin :: "32 word \<Rightarrow> byte list \<Rightarrow> byte list c_result" where
  "srv_dec2bin num str =
     c_bind (arr_set str 5 0) (\<lambda>s. buf_write 0 (srv_dec2bin_loop 32 (push_bit 1 0x10) num) s)"

text \<open>The parent's search for an address to bind: for each result whether \<open>socket\<close> and \<open>bind\<close>
  succeed. The answer is the position bound and how many sockets stay open.\<close>

fun srv_bind_loop :: "(bool \<times> bool) list \<Rightarrow> nat \<Rightarrow> nat \<Rightarrow> nat option \<times> nat" where
  "srv_bind_loop [] i opened = (None, opened)"
| "srv_bind_loop ((sock_ok, bind_ok) # rs) i opened =
     (if \<not> sock_ok then srv_bind_loop rs (i + 1) opened
      else if \<not> bind_ok then srv_bind_loop rs (i + 1) (opened + 1 - 1)
      else (Some i, opened + 1))"

text \<open>The child's variables after \<open>fork\<close>: those with initialisers, and the indeterminate rest, of
  which \<open>send_pack\<close> and \<open>data\<close> are read as they happen to be.\<close>

definition srv_child_init :: "byte list \<Rightarrow> byte list \<Rightarrow> byte list \<Rightarrow> tftp_child" where
  "srv_child_init pkt sp dat =
     \<lparr>packet = pkt, send_pack = sp, data_buf = dat, size_sp = None, read_flag = 0, write_flag = 0,
      stop_flag = 0, mode_flag = - 1, time_count = 0, block_number = 0, nextch = - 1, fp = Fp_uninit,
      read_fd = None, sent = []\<rparr>"

definition srv_child_socket :: "bool \<Rightarrow> bool \<Rightarrow> bool \<Rightarrow> tftp_child \<Rightarrow> tftp_child flow" where
  "srv_child_socket socket_ok setsockopt_ok bind_ok c =
     (if \<not> socket_ok then Exit 1 c else if \<not> setsockopt_ok then Exit 1 c else if \<not> bind_ok then Exit 1 c else Go c)"

subsection \<open>The read request\<close>

definition srv_first_block :: "nat \<Rightarrow> bool \<Rightarrow> tftp_child \<Rightarrow> tftp_child flow c_result" where
  "srv_first_block count ok c =
     c_bind (buf_read 0 count (data_buf c)) (\<lambda>payload.
     c_bind (tftp_stage SEND_LEN [0, 3, 0, 1] payload c) (\<lambda>c.
     tftp_send ok c (\<lambda>c. Go (c\<lparr>block_number := 1\<rparr>))))"

definition srv_rrq_octet :: "tftp_fs \<Rightarrow> byte list \<Rightarrow> bool \<Rightarrow> tftp_child \<Rightarrow> tftp_child flow c_result" where
  "srv_rrq_octet fs name ok c0 =
     (let c = c0\<lparr>mode_flag := 0\<rparr>
      in case open_rdwr fs name of
           None \<Rightarrow> Inr (Exit 1 c)
         | Some rs \<Rightarrow>
             (case tftp_read rs of
                (None, rs') \<Rightarrow> Inr (Exit 1 (c\<lparr>read_fd := Some rs'\<rparr>))
              | (Some b, rs') \<Rightarrow>
                  c_bind (buf_write 0 b (data_buf c)) (\<lambda>d.
                  srv_first_block NOBYTES ok (c\<lparr>read_fd := Some rs', data_buf := d\<rparr>))))"

text \<open>The loop that fills \<open>data\<close> for the first block: the slots left, the variables it reads, the
  stream; then the bytes stored, whether it met \<open>EOF\<close>, \<open>nextch\<close>, the stream, and \<open>count\<close>.\<close>

fun srv_rrq_fill :: "nat \<Rightarrow> int \<Rightarrow> int \<Rightarrow> int \<Rightarrow> byte list \<Rightarrow> byte list \<times> bool \<times> int \<times> byte list \<times> nat" where
  "srv_rrq_fill 0 mode stop nx s = ([], False, nx, s, 0)"
| "srv_rrq_fill (Suc n) mode stop nx s =
     (if nx \<ge> 0
      then (case srv_rrq_fill n mode stop (- 1) s of (bs, e, nx', s', k) \<Rightarrow> (word_of_int nx # bs, e, nx', s', Suc k))
      else case s of
          [] \<Rightarrow> ([], True, nx, [], 0)
        | ch # s1 \<Rightarrow>
            if char_val ch = EOF then ([], True, nx, s1, 0)
            else
              let (ch', nx1) = (if mode = 1 then netascii_char ch else (ch, nx))
              in if stop = 1 then ([ch'], False, nx1, s1, 0)
                 else (case srv_rrq_fill n mode stop nx1 s1 of (bs, e, nx', s', k) \<Rightarrow> (ch' # bs, e, nx', s', Suc k)))"

definition srv_rrq_netascii :: "tftp_fs \<Rightarrow> byte list \<Rightarrow> bool \<Rightarrow> tftp_child \<Rightarrow> tftp_child flow c_result" where
  "srv_rrq_netascii fs name ok c0 =
     (let c = c0\<lparr>mode_flag := 1\<rparr>
      in case fopen_r fs name of
           None \<Rightarrow>
             c_bind (tftp_stage ERRMSG_LEN [0, 5, 0, 1] (lit ''File not found'') c) (\<lambda>c.
             tftp_send ok c (\<lambda>c. Brk (c\<lparr>stop_flag := 1\<rparr>)))
         | Some s \<Rightarrow>
             (case srv_rrq_fill NOBYTES (mode_flag c) (stop_flag c) (nextch c) s of (bs, e, nx, s', count) \<Rightarrow>
                c_bind (buf_write 0 bs (data_buf c)) (\<lambda>d.
                srv_first_block count ok
                  (c\<lparr>fp := Fp_read s', data_buf := d, nextch := nx,
                     stop_flag := (if e then 1 else stop_flag c)\<rparr>))))"

definition srv_rrq_bad_mode :: "bool \<Rightarrow> tftp_child \<Rightarrow> tftp_child flow c_result" where
  "srv_rrq_bad_mode ok c =
     c_bind (tftp_stage ERRMSG_LEN [0, 5, 0, 4] (lit ''Illegal TFTP operation.'') c) (\<lambda>c.
     tftp_send ok c (\<lambda>c. Brk (c\<lparr>stop_flag := 1\<rparr>)))"

definition srv_rrq :: "tftp_fs \<Rightarrow> bool \<Rightarrow> tftp_child \<Rightarrow> tftp_child flow c_result" where
  "srv_rrq fs ok c0 =
     (let c = c0\<lparr>read_flag := 1, write_flag := 0, send_pack := replicate SEND_LEN 0\<rparr>
      in c_bind (tftp_parse (packet c)) (\<lambda>(name, mode).
           if is_octet mode then srv_rrq_octet fs name ok c
           else if is_netascii mode then srv_rrq_netascii fs name ok c
           else srv_rrq_bad_mode ok c))"

subsection \<open>The write request\<close>

definition srv_wrq :: "tftp_fs \<Rightarrow> bool \<Rightarrow> tftp_child \<Rightarrow> tftp_child flow c_result" where
  "srv_wrq fs ok c0 =
     (let c = c0\<lparr>read_flag := 0, write_flag := 1\<rparr>
      in c_bind (tftp_parse (packet c)) (\<lambda>(name, mode).
           let c = c\<lparr>send_pack := replicate SEND_LEN 0\<rparr>
           in if \<not> fopen_wx fs name
              then c_bind (tftp_stage ERRMSG_LEN [0, 5, 0, 6] (lit ''File already exists.'') c) (\<lambda>c.
                   tftp_send ok c (\<lambda>c. Brk (c\<lparr>stop_flag := 1\<rparr>)))
              else c_bind (tftp_stage 10 [0, 4, 0, 0] [] (c\<lparr>fp := Fp_write []\<rparr>)) (\<lambda>c.
                   tftp_send ok c (\<lambda>c. Go (c\<lparr>block_number := 1\<rparr>)))))"

definition srv_request :: "tftp_fs \<Rightarrow> bool \<Rightarrow> tftp_child \<Rightarrow> tftp_child flow c_result" where
  "srv_request fs ok c =
     (if packet c ! 1 = 1 then srv_rrq fs ok c
      else if packet c ! 1 = 2 then srv_wrq fs ok c
      else Inr (Go c))"

subsection \<open>The transfer loop\<close>

definition srv_timeout :: "bool \<Rightarrow> tftp_child \<Rightarrow> tftp_child flow c_result" where
  "srv_timeout ok c =
     tftp_send ok c (\<lambda>c.
       let c = c\<lparr>time_count := time_count c + 1\<rparr>
       in if time_count c \<ge> 10 then Brk (c\<lparr>stop_flag := 1\<rparr>) else Go c)"

text \<open>The loop that writes a block into the file: the slots of \<open>data\<close> left, of 512. It stops at a
  character that equals \<open>EOF\<close>. The result is what \<open>putc\<close> gets, whether \<open>EOF\<close> was met, and \<open>nextch\<close>.\<close>

fun srv_put_loop :: "int \<Rightarrow> byte list \<Rightarrow> int \<Rightarrow> byte list \<times> bool \<times> int" where
  "srv_put_loop mode [] nx = ([], False, nx)"
| "srv_put_loop mode (d # ds) nx =
     (if nx \<ge> 0
      then (case srv_put_loop mode ds (- 1) of (bs, e, nx') \<Rightarrow> (word_of_int nx # bs, e, nx'))
      else if char_val d = EOF then ([], True, nx)
      else
        let (ch, nx1) = (if mode = 1 then netascii_char d else (d, nx))
        in case srv_put_loop mode ds nx1 of (bs, e, nx') \<Rightarrow> (ch # bs, e, nx'))"

definition srv_final :: int where
  "srv_final = - 1"

definition srv_violation :: "byte \<Rightarrow> bool \<Rightarrow> tftp_child \<Rightarrow> tftp_child flow c_result" where
  "srv_violation code ok c =
     c_bind (tftp_stage ERRMSG_LEN [0, 5, 0, code] (lit ''Access violation.'') c) (\<lambda>c.
     tftp_send ok c (\<lambda>c. Brk (c\<lparr>stop_flag := 1\<rparr>)))"

definition srv_data :: "bool \<Rightarrow> tftp_child \<Rightarrow> tftp_child flow c_result" where
  "srv_data ok c0 =
     (let c = c0\<lparr>send_pack := replicate SEND_LEN 0, data_buf := replicate MAXCHAR 0\<rparr>
      in if read_flag c = 1 \<or> write_flag c = 0 then srv_violation 0 ok c
         else
           c_bind (buf_read HEADER (MAXCHAR - HEADER) (packet c)) (\<lambda>body.
           c_bind (buf_write 0 body (data_buf c)) (\<lambda>d.
           c_bind (buf_read 0 NOBYTES d) (\<lambda>slots.
           case srv_put_loop (mode_flag c) slots (nextch c) of (bs, e, nx) \<Rightarrow>
             c_bind (tftp_putcs bs (fp c)) (\<lambda>f.
             let c = c\<lparr>data_buf := d, fp := f, nextch := nx, stop_flag := (if e then 1 else stop_flag c)\<rparr>
             in c_bind (tftp_stage 10 ([0, 4] @ be16 (next_block (block_number c))) [] c) (\<lambda>c.
                tftp_send ok c (\<lambda>c.
                  if uint (block_number c) = srv_final then Brk (c\<lparr>stop_flag := 1\<rparr>)
                  else Go (c\<lparr>block_number := block_number c + 1\<rparr>))))))))"

fun srv_ack_fill :: "nat \<Rightarrow> int \<Rightarrow> byte list \<Rightarrow> byte list \<times> bool \<times> int \<times> byte list" where
  "srv_ack_fill 0 nx s = ([], False, nx, s)"
| "srv_ack_fill (Suc n) nx s =
     (if nx \<ge> 0
      then (case srv_ack_fill n (- 1) s of (bs, e, nx', s') \<Rightarrow> (word_of_int nx # bs, e, nx', s'))
      else case s of
          [] \<Rightarrow> ([], True, nx, [])
        | ch # s1 \<Rightarrow>
            if char_val ch = EOF then ([], True, nx, s1)
            else let (ch', nx1) = netascii_char ch
                 in case srv_ack_fill n nx1 s1 of (bs, e, nx', s') \<Rightarrow> (ch' # bs, e, nx', s'))"

text \<open>Reading the next block: the block's \<open>count\<close> and the child, or \<open>Exit\<close>. With a mode that is
  neither octet nor netascii \<open>count\<close> would be used as it was never assigned.\<close>

definition srv_ack_block :: "tftp_child \<Rightarrow> (nat option \<times> tftp_child) c_result" where
  "srv_ack_block c =
     (if mode_flag c = 0 then
        (case read_fd c of None \<Rightarrow> Inl Uninitialised
         | Some rs \<Rightarrow>
             (case tftp_read rs of
                (None, rs') \<Rightarrow> Inr (None, c\<lparr>read_fd := Some rs'\<rparr>)
              | (Some b, rs') \<Rightarrow>
                  c_bind (buf_write 0 b (data_buf c)) (\<lambda>d.
                  Inr (if length b < NOBYTES
                       then (Some (length b), c\<lparr>read_fd := Some rs', data_buf := d, stop_flag := 1\<rparr>)
                       else (Some NOBYTES, c\<lparr>read_fd := Some rs', data_buf := d\<rparr>)))))
      else if mode_flag c = 1 then
        c_bind (tftp_getcs (fp c)) (\<lambda>s.
        case srv_ack_fill NOBYTES (nextch c) s of (bs, e, nx, s') \<Rightarrow>
          c_bind (buf_write 0 bs (data_buf c)) (\<lambda>d.
          Inr (Some (length bs),
               c\<lparr>data_buf := d, nextch := nx, stop_flag := (if e then 1 else stop_flag c),
                 fp := (case fp c of Fp_read _ \<Rightarrow> Fp_read s' | f \<Rightarrow> f)\<rparr>)))
      else Inl Uninitialised)"

definition srv_ack :: "bool \<Rightarrow> tftp_child \<Rightarrow> tftp_child flow c_result" where
  "srv_ack ok c0 =
     (let c = c0\<lparr>send_pack := replicate SEND_LEN 0, data_buf := replicate MAXCHAR 0\<rparr>
      in if read_flag c = 0 \<or> write_flag c = 1 then srv_violation 2 ok c
         else if stop_flag c = 0
         then c_bind (srv_ack_block c) (\<lambda>(count, c).
              case count of None \<Rightarrow> Inr (Exit 1 c)
              | Some count \<Rightarrow>
                  c_bind (buf_read 0 count (data_buf c)) (\<lambda>payload.
                  c_bind (tftp_stage SEND_LEN ([0, 3] @ be16 (next_block (block_number c))) payload c) (\<lambda>c.
                  tftp_send ok c (\<lambda>c. Go (c\<lparr>block_number := block_number c + 1\<rparr>)))))
         else Inr (Brk c))"

text \<open>\<open>memcpy(ErrMsg, packet+4, length-4)\<close>: \<open>length\<close> is the size of \<open>packet\<close>, \<open>ErrMsg\<close> has 50 bytes.\<close>

definition srv_error :: "tftp_child \<Rightarrow> tftp_child flow c_result" where
  "srv_error c =
     c_bind (buf_read 2 2 (packet c)) (\<lambda>code.
     c_bind (buf_write 0 code (replicate 10 (0::byte))) (\<lambda>ErrorCode.
     c_bind (buf_read HEADER (MAXCHAR - HEADER) (packet c)) (\<lambda>body.
     c_bind (buf_write 0 body (replicate 50 0)) (\<lambda>ErrMsg.
     Inr (Brk (c\<lparr>stop_flag := 1\<rparr>))))))"

definition srv_dispatch :: "bool \<Rightarrow> tftp_child \<Rightarrow> tftp_child flow c_result" where
  "srv_dispatch ok c =
     (if packet c ! 1 = 3 then srv_data ok c
      else if packet c ! 1 = 4 then srv_ack ok c
      else if packet c ! 1 = 5 then srv_error c
      else Inr (Go c))"

text \<open>Nothing clears \<open>packet\<close> between two datagrams.\<close>

definition srv_received :: "byte list \<Rightarrow> bool \<Rightarrow> tftp_child \<Rightarrow> tftp_child flow c_result" where
  "srv_received d ok c = srv_dispatch ok (c\<lparr>packet := tftp_recv d (packet c), time_count := 0\<rparr>)"

definition srv_round :: "net_event \<Rightarrow> bool \<Rightarrow> tftp_child \<Rightarrow> tftp_child flow c_result" where
  "srv_round ev ok c =
     (case ev of Timed_out \<Rightarrow> srv_timeout ok c
      | Recv_failed \<Rightarrow> Inr (Exit 1 c)
      | Datagram d \<Rightarrow> srv_received d ok c)"

definition srv_loop :: "(net_event \<times> bool) list \<Rightarrow> tftp_child \<Rightarrow> tftp_child flow c_result" where
  "srv_loop = child_loop srv_round"

text \<open>The cleanup after the loop: \<open>fclose(fp)\<close>, \<open>close(read_fd)\<close>, \<open>exit(0)\<close>.\<close>

definition srv_finish :: "tftp_child \<Rightarrow> tftp_child flow c_result" where
  "srv_finish c =
     (if stop_flag c = 1
      then if fp c = Fp_uninit then Inl Uninitialised
           else if read_fd c = None then Inl Uninitialised
           else Inr (Exit 0 c)
      else Inr (Go c))"

text \<open>The child from \<open>fork\<close> on. A \<open>break\<close> in the request leaves the outer loop and returns 0.\<close>

definition srv_child ::
  "tftp_fs \<Rightarrow> bool \<Rightarrow> (net_event \<times> bool) list \<Rightarrow> tftp_child \<Rightarrow> tftp_child flow c_result" where
  "srv_child fs ok es c =
     c_bind (srv_request fs ok c) (\<lambda>f.
     case f of
       Brk c1 \<Rightarrow> Inr (Exit 0 c1)
     | Exit r c1 \<Rightarrow> Inr f
     | Go c1 \<Rightarrow>
         c_bind (srv_loop es c1) (\<lambda>g. case g of Brk c2 \<Rightarrow> srv_finish c2 | _ \<Rightarrow> Inr g))"

subsection \<open>What server.c has in common with tftps.c\<close>

lemma srv_rrq_fill_eq: "srv_rrq_fill = tft_rrq_fill"
proof (intro ext)
  show "srv_rrq_fill n mode stop nx s = tft_rrq_fill n mode stop nx s" for n mode stop nx s
    by (induction n mode stop nx s rule: tft_rrq_fill.induct) (auto split: list.splits prod.splits)
qed

lemma srv_ack_fill_eq: "srv_ack_fill = tft_ack_fill"
proof (intro ext)
  show "srv_ack_fill n nx s = tft_ack_fill n nx s" for n nx s
    by (induction n nx s rule: tft_ack_fill.induct) (auto split: list.splits prod.splits)
qed

lemma srv_first_block_eq: "srv_first_block = tft_first_block"
  by (intro ext) (simp add: srv_first_block_def tft_first_block_def)

lemma srv_rrq_eq: "srv_rrq = tft_rrq"
proof -
  have "srv_rrq_octet = tft_rrq_octet"
    by (intro ext) (simp only: srv_rrq_octet_def tft_rrq_octet_def srv_first_block_eq)
  moreover have "srv_rrq_netascii = tft_rrq_netascii"
    by (intro ext) (simp only: srv_rrq_netascii_def tft_rrq_netascii_def srv_first_block_eq srv_rrq_fill_eq)
  moreover have "srv_rrq_bad_mode = tft_rrq_bad_mode"
    by (intro ext) (simp only: srv_rrq_bad_mode_def tft_rrq_bad_mode_def)
  ultimately show ?thesis by (intro ext) (simp only: srv_rrq_def tft_rrq_def)
qed

lemma srv_request_eq: "srv_request = tft_request"
  by (intro ext) (simp only: srv_request_def tft_request_def srv_rrq_eq srv_wrq_def tft_wrq_def)

lemma srv_violation_eq: "srv_violation = tft_violation"
  by (intro ext) (simp add: srv_violation_def tft_violation_def)

lemma srv_ack_eq: "srv_ack = tft_ack"
proof -
  have "srv_ack_block = tft_ack_block"
    by (intro ext) (simp only: srv_ack_block_def tft_ack_block_def srv_ack_fill_eq)
  then show ?thesis by (intro ext) (simp only: srv_ack_def tft_ack_def srv_violation_eq)
qed

lemma srv_error_eq: "srv_error = tft_error"
  by (intro ext) (simp add: srv_error_def tft_error_def)

lemma srv_child_init_eq: "srv_child_init = tft_child_init"
  by (intro ext) (simp add: srv_child_init_def tft_child_init_def)

lemma srv_dec2bin_eq: "srv_dec2bin = tft_dec2bin"
proof -
  have "srv_dec2bin_loop fuel msk num = tft_dec2bin_loop fuel msk num" for fuel msk num
    by (induction fuel msk num rule: tft_dec2bin_loop.induct) (simp_all add: Let_def)
  then show ?thesis by (intro ext) (simp add: srv_dec2bin_def tft_dec2bin_def)
qed

lemma srv_bind_loop_eq: "srv_bind_loop rs i k = tft_bind_loop rs i k"
  by (induction rs i k rule: tft_bind_loop.induct) simp_all

text \<open>\<open>server.c\<close> and \<open>tftps.c\<close> treat requests, acknowledgements and ERROR datagrams in the same
  way: in every state of a child and for every outcome of the system calls they make the same changes,
  send the same packets and fail in the same way. They also bind the same address and agree on
  \<open>dec2bin\<close>.\<close>

theorem srv_same_as_tft:
  "srv_request fs ok c = tft_request fs ok c \<and> srv_ack ok c = tft_ack ok c \<and> srv_error c = tft_error c \<and>
   srv_bind_loop rs i k = tft_bind_loop rs i k \<and> srv_dec2bin num str = tft_dec2bin num str"
  by (simp only: srv_request_eq srv_ack_eq srv_error_eq srv_bind_loop_eq srv_dec2bin_eq simp_thms)

lemma srv_dispatch_eq: "packet c ! 1 \<noteq> 3 \<Longrightarrow> srv_dispatch ok c = tft_dispatch ok c"
  by (simp add: srv_dispatch_def tft_dispatch_def srv_ack_eq srv_error_eq)

subsection \<open>Read transfers\<close>

lemma tft_ack_packet: "ensures (\<lambda>f. packet (flow_state f) = packet c) (tft_ack ok c)"
proof -
  have blk: "ensures (\<lambda>(n, c'). packet c' = packet c) (tft_ack_block c)" for c
    unfolding tft_ack_block_def by (intro ensures_intros) (auto split: stream.splits)
  show ?thesis
    unfolding tft_ack_def tft_violation_def Let_def
    by (intro ensures_intros) (auto dest!: ensuresD [OF blk])
qed

text \<open>An acknowledgement has in \<open>server.c\<close> the effect it has in \<open>tftps.c\<close>, but for the cleared \<open>packet\<close>.\<close>

lemma srv_ack_round:
  assumes "opcode_is 4 d" and "tft_round (Datagram d) ok c = Inr f"
  shows "\<exists>g. srv_round (Datagram d) ok c = Inr g \<and> packet (flow_state g) = tftp_recv d (packet c) \<and>
    f = (case g of Go c \<Rightarrow> Go (c\<lparr>packet := replicate MAXCHAR 0\<rparr>) | _ \<Rightarrow> g)"
proof -
  let ?c = "c\<lparr>packet := tftp_recv d (packet c), time_count := 0\<rparr>"
  have op: "packet ?c ! 1 = 4" using tftp_recv_opcode [OF assms(1)] by simp
  then have "packet ?c ! 1 \<noteq> 3" by simp
  note eq = srv_dispatch_eq [OF this]
  obtain g where g: "tft_dispatch ok ?c = Inr g" "f = (case g of Go c \<Rightarrow> Go (c\<lparr>packet := replicate MAXCHAR 0\<rparr>) | _ \<Rightarrow> g)"
    using assms(2) by (auto simp: tft_round_def tft_received_def c_bind_Inr_iff)
  from g(1) op have "tft_ack ok ?c = Inr g" by (simp add: tft_dispatch_def)
  from ensuresD [OF tft_ack_packet this] g eq show ?thesis by (simp add: srv_round_def srv_received_def)
qed

interpretation srv_child: sending_child file_next file_ok file_content srv_round tft_sends
proof
  fix c r
  assume "tft_sends c r"
  then show "\<exists>c'. srv_round Timed_out True c = Inr (if time_count c + 1 \<ge> 10 then Brk c' else Go c') \<and>
      sent c' = sent c @ [staged c] \<and> (time_count c + 1 < 10 \<longrightarrow>
        tft_sends c' r \<and> staged c' = staged c \<and> time_count c' = time_count c + 1 \<and>
        block_number c' = block_number c \<and> stop_flag c' = stop_flag c)"
    by (auto simp: srv_round_def srv_timeout_def tft_sends_def tft_reading_def tftp_send_ok Let_def)
next
  fix c r d
  assume "tft_sends c r" "stop_flag c = 1" and d: "opcode_is 4 d"
  then obtain c1 where c1: "tft_round (Datagram d) True c = Inr (Brk c1)" "sent c1 = sent c"
    using tft_child.ack_last by blast
  from srv_ack_round [OF d c1(1)] obtain g where
    "srv_round (Datagram d) True c = Inr g" "Brk c1 = (case g of Go c \<Rightarrow> Go (c\<lparr>packet := replicate MAXCHAR 0\<rparr>) | _ \<Rightarrow> g)"
    by blast
  with c1(2) show "\<exists>c'. srv_round (Datagram d) True c = Inr (Brk c') \<and> sent c' = sent c" by (cases g) auto
next
  fix c r d
  assume c: "tft_sends c r" "stop_flag c \<noteq> 1" "file_ok r" and d: "opcode_is 4 d"
  from tft_child.ack_next [OF c d] obtain c1 where
    c1: "tft_round (Datagram d) True c = Inr (Go c1)" "tft_sends c1 (snd (snd (file_next r)))"
    "staged c1 = data_packet (block_number c + 1) (fst (file_next r))" "sent c1 = sent c @ [staged c1]"
    "time_count c1 = 0" "block_number c1 = block_number c + 1" "stop_flag c1 = 1 \<longleftrightarrow> fst (snd (file_next r))" by blast
  from srv_ack_round [OF d c1(1)] obtain g where g: "srv_round (Datagram d) True c = Inr g"
    "packet (flow_state g) = tftp_recv d (packet c)"
    "Go c1 = (case g of Go c \<Rightarrow> Go (c\<lparr>packet := replicate MAXCHAR 0\<rparr>) | _ \<Rightarrow> g)" by blast
  then obtain c2 where c2: "g = Go c2" "c1 = c2\<lparr>packet := replicate MAXCHAR 0\<rparr>" by (cases g) auto
  have "length (packet c2) = MAXCHAR" using g(2) c2(1) c(1) by (simp add: tft_sends_def tft_reading_def)
  with c1 c2 g(1) show "\<exists>c'. srv_round (Datagram d) True c = Inr (Go c') \<and> tft_sends c' (snd (snd (file_next r))) \<and>
      staged c' = data_packet (block_number c + 1) (fst (file_next r)) \<and>
      sent c' = sent c @ [staged c'] \<and> time_count c' = 0 \<and>
      block_number c' = block_number c + 1 \<and> (stop_flag c' = 1 \<longleftrightarrow> fst (snd (file_next r)))"
    by (auto simp: tft_sends_def tft_reading_def)
qed

text \<open>Claim C17: from the same state of a child in the middle of a read transfer, \<open>server.c\<close> and \<open>tftps.c\<close>
  send the same datagrams and end at the same point, whatever timeouts and acknowledgements follow.\<close>

theorem srv_reads_like_tft:
  assumes "tft_sends c r" and "stop_flag c \<noteq> 1 \<longrightarrow> file_ok r" and "0 \<le> time_count c"
    and "list_all2 sw_event_of es evs"
  shows "\<exists>e ct cs. tft_loop es c = Inr (if e then Brk ct else Go ct) \<and>
    srv_loop es c = Inr (if e then Brk cs else Go cs) \<and> sent cs = sent ct"
proof -
  obtain t where t: "time_count c = int t" using assms(3) nonneg_int_cases by blast
  obtain ps e where run: "(ps, e) = sw_run (staged c)
      (if stop_flag c = 1 then [] else data_packets (block_number c + 1) (blocks_of (file_content r))) t evs"
    by (metis surj_pair)
  from tft_child.run_spec [OF assms(1,2) t assms(4) run] srv_child.run_spec [OF assms(1,2) t assms(4) run]
  show ?thesis unfolding tft_loop_def srv_loop_def by metis
qed

definition demo_reader :: tftp_child where
  "demo_reader = (tft_child_init (replicate 1000 0) [0, 3, 0, 1, 65] [])\<lparr>read_flag := 1, mode_flag := 1,
     size_sp := Some 5, block_number := 1, fp := Fp_read [66]\<rparr>"

theorem srv_reads_like_tft_witness:
  "\<exists>e ct cs. tft_loop [(Datagram [0, 4, 0, 1], True), (Timed_out, True)] demo_reader = Inr (if e then Brk ct else Go ct) \<and>
    srv_loop [(Datagram [0, 4, 0, 1], True), (Timed_out, True)] demo_reader = Inr (if e then Brk cs else Go cs) \<and>
    sent cs = sent ct"
  using srv_reads_like_tft [of demo_reader "Inl (- 1, [66])" "[(Datagram [0, 4, 0, 1], True), (Timed_out, True)]"
      "[Sw_ack, Sw_timeout]"]
  by (simp add: demo_reader_def tft_sends_def tft_reading_def can_send_def file_open_def file_ok_def
      tft_child_init_def MAXCHAR_def opcode_is_def)

subsection \<open>Write transfers\<close>

definition srv_writing :: "byte list \<Rightarrow> tftp_child \<Rightarrow> bool" where
  "srv_writing w c \<longleftrightarrow> read_flag c = 0 \<and> write_flag c = 1 \<and> mode_flag c = - 1 \<and>
     nextch c = - 1 \<and> fp c = Fp_write w \<and> length (packet c) = MAXCHAR"

definition before_eof :: "byte list \<Rightarrow> byte list" where
  "before_eof = takeWhile (\<lambda>b. char_val b \<noteq> EOF)"

lemma srv_put_loop_plain:
  "mode \<noteq> 1 \<Longrightarrow> nx < 0 \<Longrightarrow> srv_put_loop mode ds nx = (before_eof ds, (\<exists>d\<in>set ds. char_val d = EOF), nx)"
  by (induction ds) (auto simp: before_eof_def)

text \<open>The 512 bytes a DATA datagram with payload \<open>p\<close> makes the child look at.\<close>

definition slots_of :: "byte list \<Rightarrow> byte list \<Rightarrow> byte list" where
  "slots_of p pkt = take NOBYTES (p @ drop (HEADER + length p) pkt)"

lemma srv_round_data:
  assumes "srv_writing w c" and "HEADER + length p \<le> MAXCHAR"
  shows "\<exists>c'. srv_round (Datagram (h0 # 3 # h2 # h3 # p)) True c = Inr (Go c') \<and>
    sent c' = sent c @ [ack_packet (block_number c + 1)] \<and> srv_writing (w @ before_eof (slots_of p (packet c))) c' \<and>
    block_number c' = block_number c + 1 \<and> packet c' = h0 # 3 # h2 # h3 # p @ drop (HEADER + length p) (packet c)"
proof -
  let ?body = "p @ drop (HEADER + length p) (packet c)"
  have len: "length (packet c) = MAXCHAR" using assms(1) by (simp add: srv_writing_def)
  then have lb: "length ?body = MAXCHAR - HEADER" using assms(2) by (simp add: HEADER_def MAXCHAR_def)
  note recv = tftp_recv_data [OF len assms(2), of h0 3 h2 h3]
  have body: "buf_read HEADER (MAXCHAR - HEADER) (h0 # 3 # h2 # h3 # ?body) = Inr ?body"
    using lb by (simp add: buf_read_def HEADER_def MAXCHAR_def)
  have data: "buf_write 0 ?body (replicate MAXCHAR 0) = Inr (?body @ replicate 4 0)"
    using lb by (simp add: buf_write_def HEADER_def MAXCHAR_def)
  have "buf_read 0 NOBYTES (?body @ replicate 4 0) = Inr (take NOBYTES (?body @ replicate 4 0))"
    using lb by (simp add: buf_read_def HEADER_def MAXCHAR_def NOBYTES_def)
  also have "take NOBYTES (?body @ replicate 4 0) = slots_of p (packet c)"
    unfolding slots_of_def take_append [of _ ?body] lb by (simp add: HEADER_def MAXCHAR_def NOBYTES_def)
  finally have slots: "buf_read 0 NOBYTES (?body @ replicate 4 0) = Inr (slots_of p (packet c))" .
  have put: "tftp_putcs s (Fp_write w) = Inr (Fp_write (w @ s))" for s by (simp add: tftp_putcs_def)
  have fin: "uint bn \<noteq> srv_final" for bn :: "16 word" 
    unfolding srv_final_def using uint_ge_0 [of bn] by linarith
  have plen: "Suc (Suc (Suc (Suc (length p + (MAXCHAR - (HEADER + length p)))))) = MAXCHAR"
    using assms(2) by (simp add: HEADER_def MAXCHAR_def)
  show ?thesis
    using assms(1)
    by (simp add: srv_round_def srv_received_def srv_dispatch_def recv srv_data_def srv_writing_def Let_def
        body data slots [unfolded append_assoc] srv_put_loop_plain put ack_stage_send fin plen)
qed

lemma srv_loop_full_blocks:
  assumes "srv_writing w c" and "list_all2 is_data es ps"
    and "\<forall>p\<in>set ps. length p = NOBYTES"
  shows "\<exists>c'. srv_loop es c = Inr (Go c') \<and> srv_writing (w @ concat (map before_eof ps)) c' \<and>
    sent c' = sent c @ acks_from (block_number c + 1) (length ps) \<and>
    block_number c' = block_number c + of_nat (length ps) \<and>
    take NOBYTES (drop HEADER (packet c')) = last (take NOBYTES (drop HEADER (packet c)) # ps)"
  using assms
proof (induction es arbitrary: c w ps)
  case Nil
  then show ?case by (simp add: srv_loop_def)
next
  case (Cons x es)
  then obtain p ps' h0 h2 h3 where x: "ps = p # ps'" "x = (Datagram (h0 # 3 # h2 # h3 # p), True)"
      "HEADER + length p \<le> MAXCHAR" "list_all2 is_data es ps'"
    by (auto simp: list_all2_Cons1 is_data_def [of x])
  have full: "slots_of p (packet c) = p" using Cons.prems(3) x(1) by (simp add: slots_of_def)
  from srv_round_data [OF Cons.prems(1) x(3), of h0 h2 h3] full obtain c1 where
    c1: "srv_round (Datagram (h0 # 3 # h2 # h3 # p)) True c = Inr (Go c1)"
    "sent c1 = sent c @ [ack_packet (block_number c + 1)]" "srv_writing (w @ before_eof p) c1"
    "block_number c1 = block_number c + 1" "packet c1 = h0 # 3 # h2 # h3 # p @ drop (HEADER + length p) (packet c)"
    by auto
  have "take NOBYTES (drop HEADER (packet c1)) = p"
    using c1(5) Cons.prems(3) x(1) by (simp add: HEADER_def)
  with Cons.IH [OF c1(3) x(4)] Cons.prems(3) c1 x(1,2) show ?case
    by (auto simp: srv_loop_def algebra_simps)
qed

text \<open>Claim C21: \<open>server.c\<close> stores an uploaded file in blocks of 512 bytes. After the full blocks
  \<open>ps\<close>, a last DATA datagram with the shorter payload \<open>q\<close> appends \<open>q\<close> followed by the end of the
  previous block, so that the file on disk repeats up to 511 bytes; and the block number in each
  acknowledgement of a DATA datagram is one higher than that of the datagram, 2 for the first. A byte 255 is taken for the end of
  the file: of its block only what precedes it is stored, but the transfer goes on.\<close>

theorem srv_write_transfer:
  assumes "pkt ! 1 = 2" and "tftp_parse pkt = Inr (name, mode)" and "fopen_wx fs name" and "length pkt = MAXCHAR"
    and "list_all2 is_data es ps" and "ps \<noteq> []"
    and "\<forall>p\<in>set ps. length p = NOBYTES"
    and "is_data x q" and "length q < NOBYTES"
  shows "\<exists>c0 c'. srv_request fs True (srv_child_init pkt sp dat) = Inr (Go c0) \<and>
    srv_loop (es @ [x]) c0 = Inr (Go c') \<and>
    fp c' = Fp_write (concat (map before_eof ps) @ before_eof (q @ drop (length q) (last ps))) \<and>
    sent c' = ack_packet 0 # acks_from 2 (Suc (length ps))"
proof -
  from tft_request_write [OF assms(1-4)] obtain c0 where
    c0: "srv_request fs True (srv_child_init pkt sp dat) = Inr (Go c0)" "srv_writing [] c0"
    "sent c0 = [ack_packet 0]" "block_number c0 = 1"
    by (auto simp: srv_request_eq srv_child_init_eq tft_writing_def srv_writing_def)
  from srv_loop_full_blocks [OF c0(2) assms(5,7)] assms(6) c0(3,4) obtain c1 where
    c1: "srv_loop es c0 = Inr (Go c1)" "srv_writing (concat (map before_eof ps)) c1" "sent c1 = ack_packet 0 # acks_from 2 (length ps)"
    "block_number c1 = 1 + of_nat (length ps)" "take NOBYTES (drop HEADER (packet c1)) = last ps"
    by (auto simp: algebra_simps)
  from assms(8) obtain h0 h2 h3 where x: "x = (Datagram (h0 # 3 # h2 # h3 # q), True)" "HEADER + length q \<le> MAXCHAR"
    by (auto simp: is_data_def)
  have "slots_of q (packet c1) = q @ drop (length q) (last ps)"
    using assms(9) c1(5) by (simp add: slots_of_def drop_take add.commute flip: c1(5))
  then obtain c2 where c2: "srv_round (Datagram (h0 # 3 # h2 # h3 # q)) True c1 = Inr (Go c2)"
    "sent c2 = sent c1 @ [ack_packet (block_number c1 + 1)]"
    "srv_writing (concat (map before_eof ps) @ before_eof (q @ drop (length q) (last ps))) c2"
    using srv_round_data [OF c1(2) x(2), of h0 h2 h3] by auto
  have "srv_loop (es @ [x]) c0 = Inr (Go c2)"
    using child_loop_append [of srv_round es c0 c1 "[x]"] c1(1) c2(1) x(1) by (simp add: srv_loop_def)
  moreover have "acks_from 2 (Suc (length ps)) = acks_from 2 (length ps) @ [ack_packet (2 + of_nat (length ps))]"
    by (rule acks_from_snoc)
  ultimately show ?thesis using c0(1) c1(3,4) c2(2,3) by (auto simp: srv_writing_def algebra_simps)
qed

lemma demo_block: "is_data (Datagram ([0, 3, 0, 1] @ replicate 512 65), True) (replicate 512 65)"
  by (simp add: is_data_def HEADER_def MAXCHAR_def)

theorem srv_write_transfer_witness:
  "\<exists>c0 c'. srv_request demo_fs True (srv_child_init demo_write [] []) = Inr (Go c0) \<and>
    srv_loop [(Datagram ([0, 3, 0, 1] @ replicate 512 65), True), (Datagram [0, 3, 0, 2, 66], True)] c0 = Inr (Go c') \<and>
    fp c' = Fp_write (replicate 512 65 @ [66] @ replicate 511 65) \<and>
    sent c' = [[0, 4, 0, 0], [0, 4, 0, 2], [0, 4, 0, 3]]"
proof -
  have "list_all2 is_data [(Datagram ([0, 3, 0, 1] @ replicate 512 65), True)] [replicate 512 65]"
    using demo_block by simp
  moreover have "is_data (Datagram [0, 3, 0, 2, 66], True) [66]"
    by (simp add: is_data_def HEADER_def MAXCHAR_def)
  ultimately show ?thesis
    using srv_write_transfer [of demo_write "[102]" "lit ''octet''" demo_fs
        "[(Datagram ([0, 3, 0, 1] @ replicate 512 65), True)]" "[replicate 512 65]"
        "(Datagram [0, 3, 0, 2, 66], True)" "[66]" "[]" "[]"] demo_write_facts
    by (simp add: demo_fs_def NOBYTES_def before_eof_def takeWhile_replicate char_val_def EOF_def ack_packet_def be16_def)
qed

subsection \<open>Timeouts and cleanup\<close>

text \<open>A request that is neither a read nor a write request makes the child of \<open>server.c\<close>, at
  its first timeout, call \<open>sendto\<close> with a length that was never assigned.\<close>

theorem srv_idle_timeout_uninitialised:
  assumes "pkt ! 1 \<noteq> 1" and "pkt ! 1 \<noteq> 2"
  shows "srv_child fs ok ((Timed_out, ok') # es) (srv_child_init pkt sp dat) = Inl Uninitialised"
  using assms by (simp add: srv_child_def srv_request_def srv_loop_def srv_round_def srv_timeout_def tftp_send_def
      srv_child_init_def)

theorem srv_idle_timeout_uninitialised_witness:
  "srv_child demo_fs True [(Timed_out, True)] (srv_child_init (replicate 1000 0) [] []) = Inl Uninitialised"
  using srv_idle_timeout_uninitialised [of "replicate 1000 0" demo_fs True True "[]" "[]" "[]"] by simp

lemma srv_data_keeps: "ensures (keeps_files c) (srv_data ok c)"
  unfolding srv_data_def srv_violation_eq Let_def
  by (intro tft_violation_keeps ensures_intros) (auto simp: keeps_files_def)

lemma srv_round_keeps: "ensures (keeps_files c) (srv_round ev ok c)"
proof (cases ev)
  case Timed_out
  have "ensures (keeps_files c) (srv_timeout ok c)"
    unfolding srv_timeout_def by (intro ensures_intros) (auto simp: keeps_files_def Let_def)
  with Timed_out show ?thesis by (simp add: srv_round_def)
next
  case (Datagram d)
  let ?c = "c\<lparr>packet := tftp_recv d (packet c), time_count := 0\<rparr>"
  have "ensures (keeps_files ?c) (srv_dispatch ok ?c)"
    unfolding srv_dispatch_def srv_ack_eq srv_error_eq tft_error_def
    by (intro srv_data_keeps tft_ack_keeps ensures_intros) (auto simp: keeps_files_def)
  moreover have "keeps_files ?c = keeps_files c" by (intro ext) (simp add: keeps_files_def)
  ultimately show ?thesis using Datagram by (simp add: srv_round_def srv_received_def)
next
  case Recv_failed
  then show ?thesis by (auto simp: srv_round_def keeps_files_def intro: ensures_Inr)
qed

text \<open>In \<open>server.c\<close> too every child that leaves its transfer loop closes a file variable that
  was never assigned.\<close>

theorem srv_cleanup_uninitialised:
  assumes "srv_request fs ok (srv_child_init pkt sp dat) = Inr (Go c0)" and "srv_loop es c0 = Inr (Brk c1)"
  shows "srv_finish c1 = Inl Uninitialised \<and> srv_child fs ok es (srv_child_init pkt sp dat) = Inl Uninitialised"
proof -
  have "one_file c0"
    using ensuresD [OF tft_request_one_file assms(1) [unfolded srv_request_eq srv_child_init_eq]] by simp
  from child_loop_one_file [OF srv_round_keeps assms(2) [unfolded srv_loop_def] this] assms
  show ?thesis by (auto simp: srv_finish_def one_file_def srv_child_def)
qed

theorem srv_cleanup_uninitialised_witness:
  "srv_child demo_fs True [(Datagram [0, 4, 0, 1], True)] (srv_child_init demo_write [] []) = Inl Uninitialised"
proof -
  obtain c0 where c0: "srv_request demo_fs True (srv_child_init demo_write [] []) = Inr (Go c0)" "tft_writing [] c0"
    using tft_request_write [OF demo_write_facts(1,3), of demo_fs] demo_write_facts(2)
    by (auto simp: demo_fs_def srv_request_eq srv_child_init_eq)
  then have "packet (c0\<lparr>packet := tftp_recv [0, 4, 0, 1] (packet c0), time_count := 0\<rparr>) ! 1 = 4"
    by (simp add: tftp_recv_def MAXCHAR_def)
  with c0 obtain c1 where "srv_loop [(Datagram [0, 4, 0, 1], True)] c0 = Inr (Brk c1)"
    by (auto simp: srv_loop_def srv_round_def srv_received_def srv_dispatch_def srv_ack_def srv_violation_def Let_def
        tft_writing_def tftp_stage_Inr SEND_LEN_def ERRMSG_LEN_def tftp_send_ok can_send_def)
  with srv_cleanup_uninitialised [OF c0(1)] show ?thesis by blast
qed

end
