(* ===== verification/Tftp_Delivery.thy ===== *)
theory Tftp_Delivery
  imports Tftp_Server
begin

section \<open>A file reaches the client (ECEN602/assignment3: tftps.c and server.c with a client)\<close>

text \<open>
  The read transfers of both servers together with a client that keeps to the protocol and a network that loses
  datagrams in both directions. The client is a specification: it takes a DATA packet that carries the number it expects,
  and is complete with the first block of fewer than 512 bytes. The network decides for every packet the server sends
  whether it is lost, its acknowledgement is lost, or both arrive; after a loss the server's timer runs out.
\<close>

datatype outcome = Data_lost | Ack_lost | Delivered

fun sw_of :: "outcome \<Rightarrow> sw_event" where
  "sw_of Delivered = Sw_ack"
| "sw_of _ = Sw_timeout"

text \<open>What the child's loop meets: an acknowledgement, whatever its number, or a timeout.\<close>

fun reports :: "net_event \<times> bool \<Rightarrow> outcome \<Rightarrow> bool" where
  "reports (Datagram d, ok) out \<longleftrightarrow> ok \<and> opcode_is 4 d \<and> out = Delivered"
| "reports (Timed_out, ok) out \<longleftrightarrow> ok \<and> out \<noteq> Delivered"
| "reports (Recv_failed, ok) out \<longleftrightarrow> False"

record receiver =
  expected :: "16 word"
  got :: "byte list"
  complete :: bool

definition rcv_step :: "byte list \<Rightarrow> receiver \<Rightarrow> receiver" where
  "rcv_step p r =
     (if take 4 p = [0, 3] @ be16 (expected r) \<and> \<not> complete r
      then \<lparr>expected = expected r + 1, got = got r @ drop 4 p, complete = length (drop 4 p) < NOBYTES\<rparr>
      else r)"

definition arrived :: "byte list list \<Rightarrow> outcome list \<Rightarrow> byte list list" where
  "arrived ps os = map fst (filter (\<lambda>(p, out). out \<noteq> Data_lost) (zip ps os))"

definition received :: "byte list list \<Rightarrow> receiver" where
  "received ps = fold rcv_step ps \<lparr>expected = 1, got = [], complete = False\<rparr>"

text \<open>A network that delivers \<open>k\<close> packets, the last at the end, with fewer than ten losses in a row; \<open>t\<close> are the losses
  since the last delivery.\<close>

fun network_ok :: "nat \<Rightarrow> nat \<Rightarrow> outcome list \<Rightarrow> bool" where
  "network_ok t k [] \<longleftrightarrow> k = 0"
| "network_ok t k (out # os) \<longleftrightarrow> 0 < k \<and>
     (if out = Delivered then network_ok 0 (k - 1) os else t + 1 < 10 \<and> network_ok (t + 1) k os)"

text \<open>The text of a netascii transmission: a carriage return with a line feed is a line end, with a zero itself.\<close>

fun netascii_text :: "byte list \<Rightarrow> byte list" where
  "netascii_text (b # c # bs) =
     (if b = 13 \<and> c = 10 then 10 # netascii_text bs
      else if b = 13 \<and> c = 0 then 13 # netascii_text bs
      else b # netascii_text (c # bs))"
| "netascii_text bs = bs"

lemma netascii_roundtrip: "netascii_text (netascii bs) = bs"
proof (induction bs)
  case (Cons b bs)
  show ?case
  proof (cases "b = 10 \<or> b = 13")
    case False
    then show ?thesis using Cons by (cases "netascii bs") simp_all
  qed (use Cons in auto)
qed simp

subsection \<open>Packets and blocks\<close>

lemma be16_inj: "be16 m = be16 n \<longleftrightarrow> m = n"
proof -
  have mask: "(0xFF00 :: 16 word) = push_bit 8 (mask 8)" "(0x00FF :: 16 word) = mask 8"
    by (simp_all add: mask_eq_exp_minus_1 push_bit_eq_mult)
  have "push_bit 8 (ucast (be16 w ! 0)) OR ucast (be16 w ! 1) = w" for w :: "16 word"
    by (rule bit_word_eqI) (auto simp: be16_def mask bit_simps)
  then show ?thesis by metis
qed

lemma rcv_packet:
  "rcv_step (data_packet n b) r =
     (if n = expected r \<and> \<not> complete r
      then \<lparr>expected = expected r + 1, got = got r @ b, complete = length b < NOBYTES\<rparr> else r)"
  by (simp add: rcv_step_def data_packet_def be16_inj numeral_eq_Suc take_Suc_conv_app_nth)

lemma data_packets_map: "data_packets n bs = map (\<lambda>i. data_packet (n + of_nat i) (bs ! i)) [0..<length bs]"
proof (induction bs arbitrary: n)
  case (Cons b bs)
  have "[0..<length (b # bs)] = 0 # map Suc [0..<length bs]" by (simp add: map_Suc_upt upt_conv_Cons del: upt_Suc)
  with Cons show ?case by (simp add: data_packet_def add.assoc del: upt_Suc)
qed simp

text \<open>Full blocks with a shorter one at the end.\<close>

fun block_list :: "byte list list \<Rightarrow> bool" where
  "block_list [] \<longleftrightarrow> False"
| "block_list [b] \<longleftrightarrow> length b < NOBYTES"
| "block_list (b # bs) \<longleftrightarrow> length b = NOBYTES \<and> block_list bs"

lemma blocks_of_list: "block_list (blocks_of xs) \<and> concat (blocks_of xs) = xs"
proof (induction xs rule: blocks_of.induct)
  case (1 xs)
  show ?case
  proof (cases "length xs < NOBYTES")
    case True
    then show ?thesis by (subst (1 2) blocks_of.simps) simp
  next
    case False
    have "blocks_of (drop NOBYTES xs) \<noteq> []" by (subst blocks_of.simps) simp
    with 1 False show ?thesis
      by (subst (1 2) blocks_of.simps) (cases "blocks_of (drop NOBYTES xs)", auto)
  qed
qed

subsection \<open>The stop-and-wait sender delivers\<close>

lemma arrived_Cons: "arrived (p # ps) (out # os) = (if out = Data_lost then [] else [p]) @ arrived ps os"
  by (simp add: arrived_def)

lemma sw_delivers:
  assumes "network_ok t (Suc (length bs)) os" and "block_list (b # bs)"
    and "sw_run (data_packet n b) (data_packets (n + 1) bs) t (map sw_of os) = (ps, e)"
    and "r = \<lparr>expected = n, got = g, complete = False\<rparr> \<or> r = \<lparr>expected = n + 1, got = g @ b, complete = length b < NOBYTES\<rparr>"
  shows "e \<and> fold rcv_step (arrived (data_packet n b # ps) os) r =
    \<lparr>expected = n + 1 + of_nat (length bs), got = g @ b @ concat bs, complete = True\<rparr>"
  using assms
proof (induction os arbitrary: t n b bs ps r g)
  case Nil
  then show ?case by simp
next
  case (Cons out os)
  let ?p = "data_packet n b"
  have step: "rcv_step ?p r = \<lparr>expected = n + 1, got = g @ b, complete = length b < NOBYTES\<rparr>"
    using Cons.prems(4) by (auto simp: rcv_packet)
  show ?case
  proof (cases "out = Delivered")
    case True
    show ?thesis
    proof (cases bs)
      case Nil
      with Cons.prems(1) True have "os = []" by (cases os) simp_all
      with Nil True Cons.prems(2,3) step show ?thesis by (auto simp: arrived_def)
    next
      case (Cons b' bs')
      have p': "data_packets (n + 1) bs = data_packet (n + 1) b' # data_packets (n + 1 + 1) bs'"
        by (simp add: Cons data_packet_def)
      from Cons.prems(3) True p' obtain ps' where ps: "ps = data_packet (n + 1) b' # ps'"
          "sw_run (data_packet (n + 1) b') (data_packets (n + 1 + 1) bs') 0 (map sw_of os) = (ps', e)"
        by (auto split: prod.splits)
      have "network_ok 0 (Suc (length bs')) os" "block_list (b' # bs')" "length b = NOBYTES"
        using Cons.prems(1,2) True Cons by simp_all
      from Cons.IH [OF this(1,2) ps(2), of "rcv_step ?p r" "g @ b"] step this(3)
      have "e \<and> fold rcv_step (arrived ps os) (rcv_step ?p r) =
          \<lparr>expected = n + 1 + 1 + of_nat (length bs'), got = (g @ b) @ b' @ concat bs', complete = True\<rparr>"
        by (simp add: ps(1))
      with True Cons show ?thesis by (simp add: arrived_Cons algebra_simps)
    qed
  next
    case False
    then have ev: "sw_of out = Sw_timeout" by (cases out) simp_all
    from Cons.prems(1) False have t: "t + 1 < 10" "network_ok (t + 1) (Suc (length bs)) os" by simp_all
    from Cons.prems(3) ev t(1) obtain ps' where ps: "ps = ?p # ps'"
        "sw_run ?p (data_packets (n + 1) bs) (t + 1) (map sw_of os) = (ps', e)"
      by (auto split: prod.splits)
    let ?r = "if out = Data_lost then r else rcv_step ?p r"
    have "?r = \<lparr>expected = n, got = g, complete = False\<rparr> \<or> ?r = \<lparr>expected = n + 1, got = g @ b, complete = length b < NOBYTES\<rparr>"
      using Cons.prems(4) step by simp
    from Cons.IH [OF t(2) Cons.prems(2) ps(2) this] show ?thesis by (cases "out = Data_lost") (simp_all add: arrived_Cons ps(1))
  qed
qed

lemma reports_sw: "list_all2 reports es os \<Longrightarrow> list_all2 sw_event_of es (map sw_of os)"
proof (induction es os rule: list_all2_induct)
  case (Cons x xs y ys)
  obtain ev ok where "x = (ev, ok)" by (cases x)
  with Cons show ?case by (cases ev; cases y) simp_all
qed simp

context sending_child
begin

lemma delivers:
  assumes "sends c s" and "stop_flag c \<noteq> 1 \<longrightarrow> invar s"
    and "staged c = data_packet 1 b" and "sent c = [data_packet 1 b]" and "time_count c = 0" and "block_number c = 1"
    and "blocks_of body = b # (if stop_flag c = 1 then [] else blocks_of (content s))"
    and "network_ok 0 (length (blocks_of body)) os" and "list_all2 reports es os"
  shows "\<exists>c'. child_loop round es c = Inr (Brk c') \<and> got (received (arrived (sent c') os)) = body \<and>
    complete (received (arrived (sent c') os))"
proof -
  let ?bs = "if stop_flag c = 1 then [] else blocks_of (content s)"
  obtain ps e where run: "sw_run (data_packet 1 b) (data_packets (1 + 1) ?bs) 0 (map sw_of os) = (ps, e)" by (metis surj_pair)
  have blk: "block_list (b # ?bs)" "concat (b # ?bs) = body" using blocks_of_list [of body] assms(7) by simp_all
  have "network_ok 0 (Suc (length ?bs)) os" using assms(7,8) by simp
  from sw_delivers [OF this blk(1) run, of "\<lparr>expected = 1, got = [], complete = False\<rparr>" "[]"] blk(2)
  have fin: "e" "got (received (arrived (data_packet 1 b # ps) os)) = body" "complete (received (arrived (data_packet 1 b # ps) os))"
    by (simp_all add: received_def)
  have "(ps, e) = sw_run (staged c) (if stop_flag c = 1 then [] else data_packets (block_number c + 1) (blocks_of (content s))) 0 (map sw_of os)"
    using run assms(3,6) by (auto split: if_splits)
  from run_spec [OF assms(1,2) _ reports_sw [OF assms(9)] this] assms(5)
  obtain c' where "child_loop round es c = Inr (if e then Brk c' else Go c')" "sent c' = sent c @ ps" by auto
  with fin assms(4) show ?thesis by auto
qed

end

subsection \<open>Both servers deliver\<close>

text \<open>The client holds exactly \<open>body\<close> and knows that it is complete.\<close>

definition client_has :: "byte list \<Rightarrow> outcome list \<Rightarrow> tftp_child \<Rightarrow> bool" where
  "client_has body os c \<longleftrightarrow> got (received (arrived (sent c) os)) = body \<and> complete (received (arrived (sent c) os))"

lemma started_delivers:
  assumes "tft_started b l r c" and "\<not> l \<longrightarrow> file_ok r"
    and "blocks_of body = b # (if l then [] else blocks_of (file_content r))"
    and "network_ok 0 (length (blocks_of body)) os" and "list_all2 reports es os"
  shows "\<exists>ct cs. tft_loop es c = Inr (Brk ct) \<and> srv_loop es c = Inr (Brk cs) \<and> client_has body os ct \<and> client_has body os cs"
proof -
  have c: "tft_sends c r" "stop_flag c \<noteq> 1 \<longrightarrow> file_ok r" "staged c = data_packet 1 b" "sent c = [data_packet 1 b]"
      "time_count c = 0" "block_number c = 1" "blocks_of body = b # (if stop_flag c = 1 then [] else blocks_of (file_content r))"
    using assms(1-3) by (auto simp: tft_started_def)
  from tft_child.delivers [OF c assms(4,5)] srv_child.delivers [OF c assms(4,5)] show ?thesis
    by (auto simp: client_has_def tft_loop_def srv_loop_def)
qed

text \<open>Claim C7: a text file reaches the client. For a netascii read request of a file that can be opened, over a network that loses data packets
  and acknowledgements but never ten in a row, the transfer of each of the two servers ends, and a client that keeps to the protocol is then
  complete and has, after decoding, exactly the text of the file, nothing missing and nothing twice.\<close>

theorem tftp_netascii_delivers:
  assumes "pkt ! 1 = 1" and "tftp_parse pkt = Inr (name, mode)" and "is_netascii mode"
    and "fopen_r fs name = Some f" and "length pkt = MAXCHAR" and "length dat = MAXCHAR"
    and "network_ok 0 (length (blocks_of (netascii (text_part f)))) os" and "list_all2 reports es os"
  shows "\<exists>c0 ct cs. tft_request fs True (tft_child_init pkt sp dat) = Inr (Go c0) \<and> tft_loop es c0 = Inr (Brk ct) \<and>
    srv_request fs True (srv_child_init pkt sp dat) = Inr (Go c0) \<and> srv_loop es c0 = Inr (Brk cs) \<and>
    netascii_text (got (received (arrived (sent ct) os))) = text_part f \<and> complete (received (arrived (sent ct) os)) \<and>
    netascii_text (got (received (arrived (sent cs) os))) = text_part f \<and> complete (received (arrived (sent cs) os))"
proof -
  obtain b l st where n: "tft_na_next (- 1, f) = (b, l, st)" by (metis prod_cases3)
  from tft_request_netascii [OF assms(1-6) n] obtain c0 where
    c0: "tft_request fs True (tft_child_init pkt sp dat) = Inr (Go c0)" "tft_started b l (Inl st) c0" by blast
  have "na_content (- 1, f) = netascii (text_part f)" by (simp add: na_content_def pending_def)
  with tft_na.blocks_of_content [of "(- 1, f)"] n
  have "blocks_of (netascii (text_part f)) = b # (if l then [] else blocks_of (file_content (Inl st)))"
    by (simp add: file_content_def)
  from started_delivers [OF c0(2) _ this assms(7,8)] c0(1) show ?thesis
    by (auto simp: file_ok_def client_has_def srv_request_eq srv_child_init_eq netascii_roundtrip)
qed

theorem tftp_netascii_delivers_witness:
  "\<exists>c0 ct. tft_request demo_fs True (tft_child_init demo_netascii [] (replicate 1000 7)) = Inr (Go c0) \<and>
     tft_loop [(Timed_out, True), (Timed_out, True), (Datagram [0, 4, 0, 1], True)] c0 = Inr (Brk ct) \<and>
     netascii_text (got (received (arrived (sent ct) [Data_lost, Ack_lost, Delivered]))) = [104, 10]"
proof -
  have "blocks_of (netascii (text_part [104, 10])) = [[104, 13, 10]]" "text_part [104, 10] = [104, 10]"
    by (simp_all add: text_part_def char_val_def EOF_def blocks_of.simps NOBYTES_def)
  then show ?thesis
    using tftp_netascii_delivers [of demo_netascii "[102]" "lit ''netascii''" demo_fs "[104, 10]" "replicate 1000 7"
      "[Data_lost, Ack_lost, Delivered]" "[(Timed_out, True), (Timed_out, True), (Datagram [0, 4, 0, 1], True)]" "[]"] demo_netascii_facts
    by (auto simp: demo_fs_def opcode_is_def MAXCHAR_def)
qed

text \<open>Claim C6: a binary file of at least 512 bytes reaches the client. Under the same conditions an octet read request gives the client
  exactly the bytes of the file, from either server.\<close>

theorem tftp_octet_delivers:
  assumes "pkt ! 1 = 1" and "tftp_parse pkt = Inr (name, mode)" and "is_octet mode"
    and "open_rdwr fs name = Some rs" and "reads_ok rs" and "length pkt = MAXCHAR" and "length dat = MAXCHAR"
    and "NOBYTES \<le> length (reads_content rs)"
    and "network_ok 0 (length (blocks_of (reads_content rs))) os" and "list_all2 reports es os"
  shows "\<exists>c0 ct cs. tft_request fs True (tft_child_init pkt sp dat) = Inr (Go c0) \<and> tft_loop es c0 = Inr (Brk ct) \<and>
    srv_request fs True (srv_child_init pkt sp dat) = Inr (Go c0) \<and> srv_loop es c0 = Inr (Brk cs) \<and>
    got (received (arrived (sent ct) os)) = reads_content rs \<and> complete (received (arrived (sent ct) os)) \<and>
    got (received (arrived (sent cs) os)) = reads_content rs \<and> complete (received (arrived (sent cs) os))"
proof -
  obtain b l rs' where n: "octet_next rs = (b, l, rs')" by (metis prod_cases3)
  from tft_request_octet [OF assms(1-7) n] obtain c0 where
    c0: "tft_request fs True (tft_child_init pkt sp dat) = Inr (Go c0)"
    "tft_started (take NOBYTES (b @ drop (length b) dat)) False (Inr rs') c0" by blast
  have b: "b = take NOBYTES (reads_content rs)" "length b = NOBYTES" "\<not> l"
    using octet.block [OF assms(5)] octet.last [OF assms(5)] n assms(8) by simp_all
  have rs': "reads_ok rs'" "reads_content rs' = drop NOBYTES (reads_content rs)"
    using octet.rest [OF assms(5,8)] n by simp_all
  have "blocks_of (reads_content rs) = b # (if False then [] else blocks_of (file_content (Inr rs')))"
    using octet.blocks_of_content [OF assms(5)] n b(3) by (simp add: file_content_def)
  moreover have "take NOBYTES (b @ drop (length b) dat) = b" using b(2) by simp
  ultimately show ?thesis
    using started_delivers [OF c0(2) _ _ assms(9,10)] rs'(1) c0(1)
    by (auto simp: file_ok_def client_has_def srv_request_eq srv_child_init_eq)
qed

definition demo_big_fs :: tftp_fs where
  "demo_big_fs = \<lparr>open_rdwr = (\<lambda>_. Some [Some (replicate 512 65), Some [66]]), fopen_r = (\<lambda>_. None), fopen_wx = (\<lambda>_. True)\<rparr>"

theorem tftp_octet_delivers_witness:
  "\<exists>c0 cs. srv_request demo_big_fs True (srv_child_init demo_octet [] (replicate 1000 7)) = Inr (Go c0) \<and>
     srv_loop [(Timed_out, True), (Datagram [0, 4, 0, 1], True), (Datagram [0, 4, 0, 2], True)] c0 = Inr (Brk cs) \<and>
     got (received (arrived (sent cs) [Ack_lost, Delivered, Delivered])) = replicate 512 65 @ [66]"
proof -
  let ?rs = "[Some (replicate 512 65), Some [66]]"
  have c: "reads_content ?rs = replicate 512 65 @ [66]" by (simp add: reads_content_def)
  have "blocks_of (replicate 512 65 @ [66]) = [replicate 512 65, [66]]"
    by (subst blocks_of.simps, subst blocks_of.simps) (simp add: NOBYTES_def)
  then have "network_ok 0 (length (blocks_of (reads_content ?rs))) [Ack_lost, Delivered, Delivered]" unfolding c by simp
  moreover have "open_rdwr demo_big_fs [102] = Some ?rs" by (simp add: demo_big_fs_def)
  moreover have "reads_ok ?rs" "NOBYTES \<le> length (reads_content ?rs)" unfolding c by (simp_all add: NOBYTES_def)
  ultimately show ?thesis
    using tftp_octet_delivers [of demo_octet "[102]" "lit ''octet''" demo_big_fs ?rs "replicate 1000 7" "[Ack_lost, Delivered, Delivered]"
      "[(Timed_out, True), (Datagram [0, 4, 0, 1], True), (Datagram [0, 4, 0, 2], True)]" "[]"] demo_octet_facts
    unfolding c by (auto simp: opcode_is_def MAXCHAR_def)
qed

subsection \<open>An acknowledgement that comes late\<close>

lemma sw_run_sends: "set (fst (sw_run cur tail t evs)) \<subseteq> set (cur # tail)"
proof (induction cur tail t evs rule: sw_run.induct)
  case (2 cur tail t es)
  then show ?case by (auto simp: split_beta)
next
  case (3 cur tail t es)
  then show ?case by (cases tail) (auto simp: split_beta)
qed simp

lemma not_expected:
  assumes "\<forall>p\<in>set ps. \<exists>n b. p = data_packet n b \<and> n \<noteq> expected r"
  shows "fold rcv_step ps r = r"
  using assms by (induction ps) (auto simp: rcv_packet)

text \<open>Claim C36: the servers do not look at the number of an acknowledgement, and a late one costs the client a block. When the first packet is
  repeated because its acknowledgement is slow, and both acknowledgements then arrive, the server sends blocks 2 and 3 in a row and never
  repeats block 2: if that single packet is lost, the client never gets past block 1, whatever follows.\<close>

theorem tftp_late_ack_loses_block:
  assumes "pkt ! 1 = 1" and "tftp_parse pkt = Inr (name, mode)" and "is_netascii mode"
    and "fopen_r fs name = Some f" and "length pkt = MAXCHAR" and "length dat = MAXCHAR"
    and "blocks_of (netascii (text_part f)) = b1 # b2 # b3 # bs" and "length bs < 65000"
    and "opcode_is 4 ack1" and "opcode_is 4 ack2" and "list_all2 sw_event_of es evs"
  shows "\<exists>c0 flow ps. tft_request fs True (tft_child_init pkt sp dat) = Inr (Go c0) \<and>
    tft_loop ((Timed_out, True) # (Datagram ack1, True) # (Datagram ack2, True) # es) c0 = Inr flow \<and>
    sent (flow_state flow) = [data_packet 1 b1, data_packet 1 b1, data_packet 2 b2] @ ps \<and>
    (\<forall>qs. set qs \<subseteq> set ps \<longrightarrow> received ([data_packet 1 b1, data_packet 1 b1] @ qs) = \<lparr>expected = 2, got = b1, complete = False\<rparr>)"
proof -
  obtain b l st where n: "tft_na_next (- 1, f) = (b, l, st)" by (metis prod_cases3)
  from tft_request_netascii [OF assms(1-6) n] obtain c0 where
    c0: "tft_request fs True (tft_child_init pkt sp dat) = Inr (Go c0)" "tft_started b l (Inl st) c0" by blast
  have "na_content (- 1, f) = netascii (text_part f)" by (simp add: na_content_def pending_def)
  with tft_na.blocks_of_content [of "(- 1, f)"] n assms(7)
  have b: "b = b1" "\<not> l" "blocks_of (file_content (Inl st)) = b2 # b3 # bs" by (auto simp: file_content_def split: if_splits)
  let ?rest = "data_packets 4 bs"
  let ?ev = "Sw_timeout # Sw_ack # Sw_ack # evs"
  obtain ps e where run: "sw_run (data_packet 3 b3) ?rest 0 evs = (ps, e)" by (metis surj_pair)
  have dp: "data_packets 2 (b2 # b3 # bs) = data_packet 2 b2 # data_packet 3 b3 # ?rest" by (simp add: data_packet_def)
  have ev: "list_all2 sw_event_of ((Timed_out, True) # (Datagram ack1, True) # (Datagram ack2, True) # es) ?ev" using assms(9-11) by simp
  have "([data_packet 1 b1, data_packet 2 b2, data_packet 3 b3] @ ps, e) =
      sw_run (data_packet 1 b) (if l then [] else data_packets 2 (blocks_of (file_content (Inl st)))) 0 ?ev"
    unfolding b(3) dp using b(1,2) run by simp
  from tft_started_run [OF c0(2) _ ev this] obtain c' where
    c': "tft_loop ((Timed_out, True) # (Datagram ack1, True) # (Datagram ack2, True) # es) c0 = Inr (if e then Brk c' else Go c')"
    "sent c' = data_packet 1 b1 # [data_packet 1 b1, data_packet 2 b2, data_packet 3 b3] @ ps"
    using b by (auto simp: file_ok_def)
  have "length b1 = NOBYTES" using blocks_of_list [of "netascii (text_part f)"] assms(7) by simp
  then have one: "received ([data_packet 1 b1, data_packet 1 b1] @ qs) = fold rcv_step qs \<lparr>expected = 2, got = b1, complete = False\<rparr>" for qs
    by (simp add: received_def rcv_packet)
  have ne: "(4 :: 16 word) + of_nat i \<noteq> 2" if "i < length bs" for i
  proof
    assume "(4 :: 16 word) + of_nat i = 2"
    then have "(of_nat (4 + i) :: 16 word) = of_nat 2" by simp
    then have "unat (of_nat (4 + i) :: 16 word) = unat (of_nat 2 :: 16 word)" by (rule arg_cong)
    then have "(4 + i) mod 65536 = 2" unfolding unat_of_nat by simp
    with that assms(8) show False by simp
  qed
  have "\<exists>n b. p = data_packet n b \<and> n \<noteq> 2" if "p \<in> set (data_packet 3 b3 # ps)" for p
  proof -
    have "p = data_packet 3 b3 \<or> p \<in> set ?rest" using sw_run_sends [of "data_packet 3 b3" ?rest 0 evs] run that by auto
    then show ?thesis
    proof
      assume "p = data_packet 3 b3"
      then show ?thesis by (intro exI [of _ 3] exI [of _ b3]) simp
    next
      assume "p \<in> set ?rest"
      then obtain i where "i < length bs" "p = data_packet (4 + of_nat i) (bs ! i)" by (auto simp: data_packets_map)
      with ne show ?thesis by blast
    qed
  qed
  then have "received ([data_packet 1 b1, data_packet 1 b1] @ qs) = \<lparr>expected = 2, got = b1, complete = False\<rparr>"
    if "set qs \<subseteq> set (data_packet 3 b3 # ps)" for qs
    unfolding one using that by (intro not_expected) auto
  with c0(1) c' show ?thesis
    by (intro exI [of _ c0] exI [of _ "if e then Brk c' else Go c'"] exI [of _ "data_packet 3 b3 # ps"]) auto
qed

lemma demo_long_text: "blocks_of (netascii (text_part (replicate 1100 65))) = [replicate 512 65, replicate 512 65, replicate 76 65]"
proof -
  have "netascii (replicate n 65) = replicate n 65" for n by (induction n) simp_all
  moreover have "text_part (replicate n 65) = replicate n 65" for n by (induction n) (simp_all add: text_part_def char_val_def EOF_def)
  moreover have "blocks_of (replicate 1100 (65 :: byte)) = [replicate 512 65, replicate 512 65, replicate 76 65]"
    by (subst blocks_of.simps, subst blocks_of.simps, subst blocks_of.simps) (simp add: NOBYTES_def)
  ultimately show ?thesis by simp
qed

theorem tftp_late_ack_loses_block_witness:
  "\<exists>c0 flow ps. tft_request (demo_fs\<lparr>fopen_r := \<lambda>_. Some (replicate 1100 65)\<rparr>) True (tft_child_init demo_netascii [] (replicate 1000 7)) = Inr (Go c0) \<and>
    tft_loop [(Timed_out, True), (Datagram [0, 4, 0, 1], True), (Datagram [0, 4, 0, 1], True)] c0 = Inr flow \<and>
    sent (flow_state flow) = [data_packet 1 (replicate 512 65), data_packet 1 (replicate 512 65), data_packet 2 (replicate 512 65)] @ ps"
  using tftp_late_ack_loses_block [of demo_netascii "[102]" "lit ''netascii''" "demo_fs\<lparr>fopen_r := \<lambda>_. Some (replicate 1100 65)\<rparr>" "replicate 1100 65"
    "replicate 1000 7" "replicate 512 65" "replicate 512 65" "replicate 76 65" "[]" "[0, 4, 0, 1]" "[0, 4, 0, 1]" "[]" "[]" "[]", OF demo_netascii_facts(1,4,3) _ demo_netascii_facts(2) _ demo_long_text]
  by (auto simp: opcode_is_def MAXCHAR_def)

end
