(* ===== verification/Tftp_Programs.thy ===== *)
theory Tftp_Programs
  imports Tftp_Delivery
begin

section \<open>The TFTP servers as programs (ECEN602/assignment3: main of tftps.c and server.c)\<close>

text \<open>
  Both programs bind a socket, install the handler for ended children and then receive requests for ever; each
  request is answered by a child process. The buffer \<open>packet\<close> is never cleared by the parent, so that a child
  finds the rest of earlier requests behind its own. \<open>fork\<close> is not checked: a request for which it fails is lost.
\<close>

datatype server_end = Listening | Stopped int

text \<open>One round of the parent: the datagram, whether \<open>fork\<close> made a child, and what the child meets: the results of
  its socket calls, the file system, whether the first \<open>sendto\<close> succeeds, and the events of its loop.\<close>

record tftp_request =
  req_datagram :: "byte list"
  req_forked :: bool
  req_sockets :: "bool \<times> bool \<times> bool"
  req_fs :: tftp_fs
  req_send_ok :: bool
  req_events :: "(net_event \<times> bool) list"

text \<open>The child up to the end of its transfer loop; \<open>Brk\<close> says that the cleanup follows. \<open>sp\<close> and \<open>dat\<close> are what
  \<open>send_pack\<close> and \<open>data\<close> hold.\<close>

definition tft_transfer :: "byte list \<Rightarrow> byte list \<Rightarrow> tftp_request \<Rightarrow> byte list \<Rightarrow> tftp_child flow c_result" where
  "tft_transfer sp dat r pkt =
     (case req_sockets r of (socket_ok, setsockopt_ok, bind_ok) \<Rightarrow>
      case tft_child_socket socket_ok setsockopt_ok bind_ok (tft_child_init pkt sp dat) of
        Go c \<Rightarrow> c_bind (tft_request (req_fs r) (req_send_ok r) c) (\<lambda>f.
          case f of Brk c1 \<Rightarrow> Inr (Exit 0 c1) | Exit n c1 \<Rightarrow> Inr f | Go c1 \<Rightarrow> tft_loop (req_events r) c1)
      | f \<Rightarrow> Inr f)"

definition tft_process :: "byte list \<Rightarrow> byte list \<Rightarrow> tftp_request \<Rightarrow> byte list \<Rightarrow> tftp_child flow c_result" where
  "tft_process sp dat r pkt =
     c_bind (tft_transfer sp dat r pkt) (\<lambda>g. case g of Brk c \<Rightarrow> tft_finish c | _ \<Rightarrow> Inr g)"

definition srv_transfer :: "byte list \<Rightarrow> byte list \<Rightarrow> tftp_request \<Rightarrow> byte list \<Rightarrow> tftp_child flow c_result" where
  "srv_transfer sp dat r pkt =
     (case req_sockets r of (socket_ok, setsockopt_ok, bind_ok) \<Rightarrow>
      case srv_child_socket socket_ok setsockopt_ok bind_ok (srv_child_init pkt sp dat) of
        Go c \<Rightarrow> c_bind (srv_request (req_fs r) (req_send_ok r) c) (\<lambda>f.
          case f of Brk c1 \<Rightarrow> Inr (Exit 0 c1) | Exit n c1 \<Rightarrow> Inr f | Go c1 \<Rightarrow> srv_loop (req_events r) c1)
      | f \<Rightarrow> Inr f)"

definition srv_process :: "byte list \<Rightarrow> byte list \<Rightarrow> tftp_request \<Rightarrow> byte list \<Rightarrow> tftp_child flow c_result" where
  "srv_process sp dat r pkt =
     c_bind (srv_transfer sp dat r pkt) (\<lambda>g. case g of Brk c \<Rightarrow> srv_finish c | _ \<Rightarrow> Inr g)"

text \<open>The parent's loop: \<open>None\<close> is a failing \<open>recvfrom\<close>. The result has the children, oldest first.\<close>

fun tftp_parent :: "(tftp_request \<Rightarrow> byte list \<Rightarrow> 'c) \<Rightarrow> tftp_request option list \<Rightarrow> byte list \<Rightarrow> server_end \<times> 'c list" where
  "tftp_parent child [] pkt = (Listening, [])"
| "tftp_parent child (None # rs) pkt = (Stopped 1, [])"
| "tftp_parent child (Some r # rs) pkt =
     (let pkt1 = tftp_recv (req_datagram r) pkt
      in case tftp_parent child rs pkt1 of (how, children) \<Rightarrow>
           (how, if req_forked r then child r pkt1 # children else children))"

text \<open>\<open>sigchld_handler\<close>: the results of \<open>waitpid\<close>, and how many children it reaps.\<close>

definition sigchld_handler :: "int list \<Rightarrow> nat" where
  "sigchld_handler pids = length (takeWhile (\<lambda>pid. 0 < pid) pids)"

text \<open>The results of \<open>getaddrinfo\<close>, of \<open>socket\<close> and \<open>bind\<close> for each address, and of \<open>sigaction\<close>.\<close>

definition tft_main :: "byte list \<Rightarrow> byte list \<Rightarrow> byte list \<Rightarrow> (bool \<times> bool) list option \<Rightarrow> bool \<Rightarrow> tftp_request option list \<Rightarrow>
    server_end \<times> tftp_child flow c_result list" where
  "tft_main pkt sp dat addrs sigaction_ok rs =
     (case addrs of None \<Rightarrow> (Stopped 1, [])
      | Some as \<Rightarrow>
          if fst (tft_bind_loop as 0 0) = None then (Stopped 2, [])
          else if \<not> sigaction_ok then (Stopped 1, [])
          else tftp_parent (tft_process sp dat) rs pkt)"

definition srv_main :: "byte list \<Rightarrow> byte list \<Rightarrow> byte list \<Rightarrow> (bool \<times> bool) list option \<Rightarrow> bool \<Rightarrow> tftp_request option list \<Rightarrow>
    server_end \<times> tftp_child flow c_result list" where
  "srv_main pkt sp dat addrs sigaction_ok rs =
     (case addrs of None \<Rightarrow> (Stopped 1, [])
      | Some as \<Rightarrow>
          if fst (srv_bind_loop as 0 0) = None then (Stopped 2, [])
          else if \<not> sigaction_ok then (Stopped 1, [])
          else tftp_parent (srv_process sp dat) rs pkt)"

subsection \<open>The child of the program is the child of the transfer\<close>

lemma tft_process_child:
  "req_sockets r = (True, True, True) \<Longrightarrow>
     tft_process sp dat r pkt = tft_child (req_fs r) (req_send_ok r) (req_events r) (tft_child_init pkt sp dat)"
  by (auto simp: tft_process_def tft_transfer_def tft_child_socket_def tft_child_def c_bind_def
      split: sum.splits flow.splits)

lemma srv_process_child:
  "req_sockets r = (True, True, True) \<Longrightarrow>
     srv_process sp dat r pkt = srv_child (req_fs r) (req_send_ok r) (req_events r) (srv_child_init pkt sp dat)"
  by (auto simp: srv_process_def srv_transfer_def srv_child_socket_def srv_child_def c_bind_def
      split: sum.splits flow.splits)

subsection \<open>Starting and stopping\<close>

lemma bind_loop_none: "fst (tft_bind_loop as i n) = None \<longleftrightarrow> (True, True) \<notin> set as" "srv_bind_loop as i n = tft_bind_loop as i n"
  by (induction as i n rule: tft_bind_loop.induct) auto

text \<open>The servers come to their loop exactly if some address can be bound and the handler installed; a failing \<open>recvfrom\<close> stops
  the parent but not the children it has, and exactly the forked requests before it have one.\<close>

theorem tft_main_listens:
  "fst (tft_main pkt sp dat addrs sigaction_ok rs) = Listening \<longleftrightarrow>
     (\<exists>as. addrs = Some as \<and> (True, True) \<in> set as) \<and> sigaction_ok \<and> None \<notin> set rs"
  "fst (srv_main pkt sp dat addrs sigaction_ok rs) = Listening \<longleftrightarrow>
     (\<exists>as. addrs = Some as \<and> (True, True) \<in> set as) \<and> sigaction_ok \<and> None \<notin> set rs"
proof -
  have "fst (tftp_parent child rs pkt) = Listening \<longleftrightarrow> None \<notin> set rs" for child :: "tftp_request \<Rightarrow> byte list \<Rightarrow> tftp_child flow c_result"
    by (induction child rs pkt rule: tftp_parent.induct) (auto simp: Let_def split: prod.splits)
  then show "fst (tft_main pkt sp dat addrs sigaction_ok rs) = Listening \<longleftrightarrow>
     (\<exists>as. addrs = Some as \<and> (True, True) \<in> set as) \<and> sigaction_ok \<and> None \<notin> set rs"
    "fst (srv_main pkt sp dat addrs sigaction_ok rs) = Listening \<longleftrightarrow>
     (\<exists>as. addrs = Some as \<and> (True, True) \<in> set as) \<and> sigaction_ok \<and> None \<notin> set rs"
    by (auto simp: tft_main_def srv_main_def bind_loop_none split: option.splits)
qed

lemma tftp_parent_children:
  "length (snd (tftp_parent child rs pkt)) = length (filter (\<lambda>r. req_forked (the r)) (takeWhile (\<lambda>r. r \<noteq> None) rs))"
  by (induction child rs pkt rule: tftp_parent.induct) (auto simp: Let_def split: prod.splits)

subsection \<open>Every client is served\<close>

text \<open>A read request in netascii mode of a file that can be opened, with a network that loses datagrams as in the
  previous theory; \<open>os\<close> are the fates of the packets and \<open>f\<close> is the file.\<close>

definition asks_text :: "tftp_request \<Rightarrow> outcome list \<Rightarrow> byte list \<Rightarrow> bool" where
  "asks_text r os f \<longleftrightarrow> req_forked r \<and> req_sockets r = (True, True, True) \<and> req_send_ok r \<and>
     (\<exists>name mode. req_datagram r = [0, 1] @ name @ [0] @ mode @ [0] \<and> 0 \<notin> set name \<and> 0 \<notin> set mode \<and>
        length name < 10 \<and> is_netascii mode \<and> fopen_r (req_fs r) name = Some f) \<and>
     network_ok 0 (length (blocks_of (netascii (text_part f)))) os \<and> list_all2 reports (req_events r) os"

lemma recv_request:
  assumes "d = [0, op] @ name @ [0] @ mode @ [0]" and "length name < 10" and "length mode < 10" and "length pkt = MAXCHAR"
  shows "\<exists>rest. tftp_recv d pkt = request_packet op name mode rest \<and> length (tftp_recv d pkt) = MAXCHAR"
proof -
  have "length d \<le> MAXCHAR" using assms(1-3) by (simp add: MAXCHAR_def)
  then have "tftp_recv d pkt = request_packet op name mode (drop (length d) pkt)" by (simp add: tftp_recv_def request_packet_def assms(1))
  moreover have "length (tftp_recv d pkt) = MAXCHAR" using \<open>length d \<le> MAXCHAR\<close> assms(4) by (simp add: tftp_recv_def)
  ultimately show ?thesis by blast
qed

lemma text_transfer:
  assumes "asks_text r os f" and "length pkt = MAXCHAR" and "length dat = MAXCHAR"
  shows "(\<exists>c. tft_transfer sp dat r (tftp_recv (req_datagram r) pkt) = Inr (Brk c) \<and> client_has (netascii (text_part f)) os c) \<and>
    (\<exists>c. srv_transfer sp dat r (tftp_recv (req_datagram r) pkt) = Inr (Brk c) \<and> client_has (netascii (text_part f)) os c) \<and>
    length (tftp_recv (req_datagram r) pkt) = MAXCHAR"
proof -
  obtain name mode where d: "req_datagram r = [0, 1] @ name @ [0] @ mode @ [0]" "0 \<notin> set name" "0 \<notin> set mode"
      "length name < 10" "is_netascii mode" "fopen_r (req_fs r) name = Some f"
    using assms(1) by (auto simp: asks_text_def)
  then have "length mode < 10" by (auto simp: is_netascii_def lit_def)
  from recv_request [OF d(1,4) this assms(2)] obtain rest where
    pkt: "tftp_recv (req_datagram r) pkt = request_packet 1 name mode rest" "length (tftp_recv (req_datagram r) pkt) = MAXCHAR" by blast
  have one: "tftp_recv (req_datagram r) pkt ! 1 = 1" by (simp add: pkt(1) request_packet_def)
  have parse: "tftp_parse (tftp_recv (req_datagram r) pkt) = Inr (name, mode)"
    unfolding pkt(1) by (rule request_parse [OF d(2,3,4) \<open>length mode < 10\<close>])
  obtain b l st where n: "tft_na_next (- 1, f) = (b, l, st)" by (metis prod_cases3)
  from tft_request_netascii [OF one parse d(5,6) pkt(2) assms(3) n] obtain c0 where
    c0: "tft_request (req_fs r) True (tft_child_init (tftp_recv (req_datagram r) pkt) sp dat) = Inr (Go c0)" "tft_started b l (Inl st) c0"
    by blast
  have "na_content (- 1, f) = netascii (text_part f)" by (simp add: na_content_def pending_def)
  with tft_na.blocks_of_content [of "(- 1, f)"] n
  have blk: "blocks_of (netascii (text_part f)) = b # (if l then [] else blocks_of (file_content (Inl st)))"
    by (simp add: file_content_def)
  have net: "network_ok 0 (length (blocks_of (netascii (text_part f)))) os" "list_all2 reports (req_events r) os"
    using assms(1) by (simp_all add: asks_text_def)
  have "\<not> l \<longrightarrow> file_ok (Inl st)" by (simp add: file_ok_def)
  from started_delivers [OF c0(2) this blk net] obtain ct cs where "tft_loop (req_events r) c0 = Inr (Brk ct)" "srv_loop (req_events r) c0 = Inr (Brk cs)"
      "client_has (netascii (text_part f)) os ct" "client_has (netascii (text_part f)) os cs" by blast
  with c0(1) pkt(2) assms(1) show ?thesis
    by (simp add: asks_text_def tft_transfer_def srv_transfer_def tft_child_socket_def srv_child_socket_def
        srv_request_eq srv_child_init_eq)
qed

lemma parent_all:
  assumes "\<And>r os f pkt. (r, os, f) \<in> set clients \<Longrightarrow> length pkt = MAXCHAR \<Longrightarrow>
      P os f (child r (tftp_recv (req_datagram r) pkt)) \<and> length (tftp_recv (req_datagram r) pkt) = MAXCHAR"
    and "\<forall>(r, os, f)\<in>set clients. req_forked r" and "length pkt = MAXCHAR"
  shows "\<exists>cs. tftp_parent child (map (\<lambda>x. Some (fst x)) clients) pkt = (Listening, cs) \<and>
    list_all2 (\<lambda>(r, os, f) c. P os f c) clients cs"
  using assms
proof (induction clients arbitrary: pkt)
  case (Cons x clients)
  obtain r os f where x: "x = (r, os, f)" by (cases x)
  from Cons.prems(1) [of r os f pkt] Cons.prems(3) x
  have r: "P os f (child r (tftp_recv (req_datagram r) pkt))" "length (tftp_recv (req_datagram r) pkt) = MAXCHAR" by simp_all
  from Cons.IH [OF Cons.prems(1) _ r(2)] Cons.prems(2) obtain cs where
    "tftp_parent child (map (\<lambda>x. Some (fst x)) clients) (tftp_recv (req_datagram r) pkt) = (Listening, cs)"
    "list_all2 (\<lambda>(r, os, f) c. P os f c) clients cs" by fastforce
  with x r(1) Cons.prems(2) show ?case
    by (intro exI [of _ "child r (tftp_recv (req_datagram r) pkt) # cs"]) (simp add: Let_def)
qed simp

text \<open>A child whose transfer loop has ended runs into the cleanup, which closes a variable that was never assigned.\<close>

lemma transfer_cleanup:
  assumes "req_sockets r = (True, True, True)"
  shows "tft_transfer sp dat r pkt = Inr (Brk c) \<Longrightarrow> tft_process sp dat r pkt = Inl Uninitialised"
    and "srv_transfer sp dat r pkt = Inr (Brk c) \<Longrightarrow> srv_process sp dat r pkt = Inl Uninitialised"
proof -
  assume t: "tft_transfer sp dat r pkt = Inr (Brk c)"
  then obtain c0 where "tft_request (req_fs r) (req_send_ok r) (tft_child_init pkt sp dat) = Inr (Go c0)" "tft_loop (req_events r) c0 = Inr (Brk c)"
    using assms by (auto simp: tft_transfer_def tft_child_socket_def c_bind_Inr_iff split: flow.splits) (metis flow.exhaust)
  with tft_cleanup_uninitialised t show "tft_process sp dat r pkt = Inl Uninitialised" by (simp add: tft_process_def)
next
  assume t: "srv_transfer sp dat r pkt = Inr (Brk c)"
  then obtain c0 where "srv_request (req_fs r) (req_send_ok r) (srv_child_init pkt sp dat) = Inr (Go c0)" "srv_loop (req_events r) c0 = Inr (Brk c)"
    using assms by (auto simp: srv_transfer_def srv_child_socket_def c_bind_Inr_iff split: flow.splits) (metis flow.exhaust)
  with srv_cleanup_uninitialised t show "srv_process sp dat r pkt = Inl Uninitialised" by (simp add: srv_process_def)
qed

definition has_text :: "outcome list \<Rightarrow> byte list \<Rightarrow> tftp_child flow c_result \<Rightarrow> bool" where
  "has_text os f res \<longleftrightarrow> (\<exists>c. res = Inr (Brk c) \<and> complete (received (arrived (sent c) os)) \<and>
     netascii_text (got (received (arrived (sent c) os))) = text_part f)"

lemma replicate_list_all2: "list_all2 (\<lambda>_ y. y = c) xs ys \<Longrightarrow> ys = map (\<lambda>_. c) xs"
  by (induction xs ys rule: list_all2_induct) simp_all

text \<open>Claim C3: both TFTP servers, from their start, with any number of clients that ask for text files in netascii mode. Whatever requests came before, and
  although the buffer still holds them, every client (with a file name of at most nine characters) gets a child of its own, and over a network that
  never loses ten datagrams in a row each client ends up with exactly the text of its file, up to the first byte 255; the parent goes on receiving.
  When its transfer is over every child closes a variable that was never assigned, so that none of them ends
  in a defined way.\<close>

theorem tftp_servers_serve:
  assumes "\<forall>(r, os, f)\<in>set clients. asks_text r os f" and "length pkt = MAXCHAR" and "length dat = MAXCHAR" and "(True, True) \<in> set as"
    and "rs = map (\<lambda>x. Some (fst x)) clients"
  shows "tft_main pkt sp dat (Some as) True rs = (Listening, map (\<lambda>_. Inl Uninitialised) clients) \<and>
    srv_main pkt sp dat (Some as) True rs = (Listening, map (\<lambda>_. Inl Uninitialised) clients) \<and>
    (\<exists>cts css. tftp_parent (tft_transfer sp dat) rs pkt = (Listening, cts) \<and> tftp_parent (srv_transfer sp dat) rs pkt = (Listening, css) \<and>
      list_all2 (\<lambda>(r, os, f). has_text os f) clients cts \<and> list_all2 (\<lambda>(r, os, f). has_text os f) clients css)"
proof -
  have forked: "\<forall>(r, os, f)\<in>set clients. req_forked r" using assms(1) by (auto simp: asks_text_def)
  have child: "has_text os f (tft_transfer sp dat r (tftp_recv (req_datagram r) pkt)) \<and> length (tftp_recv (req_datagram r) pkt) = MAXCHAR"
    "has_text os f (srv_transfer sp dat r (tftp_recv (req_datagram r) pkt)) \<and> length (tftp_recv (req_datagram r) pkt) = MAXCHAR"
    "tft_process sp dat r (tftp_recv (req_datagram r) pkt) = Inl Uninitialised \<and> length (tftp_recv (req_datagram r) pkt) = MAXCHAR"
    "srv_process sp dat r (tftp_recv (req_datagram r) pkt) = Inl Uninitialised \<and> length (tftp_recv (req_datagram r) pkt) = MAXCHAR"
    if "(r, os, f) \<in> set clients" "length pkt = MAXCHAR" for r os f pkt
  proof -
    have a: "asks_text r os f" using assms(1) that(1) by auto
    from text_transfer [OF this that(2) assms(3), of sp] obtain ct cs where
      t: "tft_transfer sp dat r (tftp_recv (req_datagram r) pkt) = Inr (Brk ct)" "client_has (netascii (text_part f)) os ct"
        "srv_transfer sp dat r (tftp_recv (req_datagram r) pkt) = Inr (Brk cs)" "client_has (netascii (text_part f)) os cs"
        "length (tftp_recv (req_datagram r) pkt) = MAXCHAR" by blast
    have "req_sockets r = (True, True, True)" using a by (simp add: asks_text_def)
    from transfer_cleanup [OF this] t show
      "has_text os f (tft_transfer sp dat r (tftp_recv (req_datagram r) pkt)) \<and> length (tftp_recv (req_datagram r) pkt) = MAXCHAR"
      "has_text os f (srv_transfer sp dat r (tftp_recv (req_datagram r) pkt)) \<and> length (tftp_recv (req_datagram r) pkt) = MAXCHAR"
      "tft_process sp dat r (tftp_recv (req_datagram r) pkt) = Inl Uninitialised \<and> length (tftp_recv (req_datagram r) pkt) = MAXCHAR"
      "srv_process sp dat r (tftp_recv (req_datagram r) pkt) = Inl Uninitialised \<and> length (tftp_recv (req_datagram r) pkt) = MAXCHAR"
      by (auto simp: has_text_def client_has_def netascii_roundtrip)
  qed
  have ended: "tftp_parent ch rs pkt = (Listening, map (\<lambda>_. Inl Uninitialised) clients)"
    if h: "\<And>r os f pkt. (r, os, f) \<in> set clients \<Longrightarrow> length pkt = MAXCHAR \<Longrightarrow> ch r (tftp_recv (req_datagram r) pkt) = Inl Uninitialised \<and>
      length (tftp_recv (req_datagram r) pkt) = MAXCHAR" for ch :: "tftp_request \<Rightarrow> byte list \<Rightarrow> tftp_child flow c_result"
  proof -
    have "\<exists>cs. tftp_parent ch (map (\<lambda>x. Some (fst x)) clients) pkt = (Listening, cs) \<and> list_all2 (\<lambda>(r, os, f) c. c = Inl Uninitialised) clients cs"
      by (rule parent_all [of clients "\<lambda>_ _ c. c = Inl Uninitialised"]) (use h forked assms(2) in auto)
    then obtain cs where "tftp_parent ch rs pkt = (Listening, cs)" "list_all2 (\<lambda>(r, os, f) c. c = Inl Uninitialised) clients cs"
      using assms(5) by blast
    with replicate_list_all2 [of "Inl Uninitialised" clients cs] show ?thesis by (simp add: case_prod_unfold)
  qed
  have "tft_main pkt sp dat (Some as) True rs = tftp_parent (tft_process sp dat) rs pkt" "srv_main pkt sp dat (Some as) True rs = tftp_parent (srv_process sp dat) rs pkt"
    using assms(4) by (simp_all add: tft_main_def srv_main_def bind_loop_none)
  moreover have "tftp_parent (tft_process sp dat) rs pkt = (Listening, map (\<lambda>_. Inl Uninitialised) clients)"
    by (rule ended, rule child(3), assumption+)
  moreover have "tftp_parent (srv_process sp dat) rs pkt = (Listening, map (\<lambda>_. Inl Uninitialised) clients)"
    by (rule ended, rule child(4), assumption+)
  moreover have "\<exists>cts. tftp_parent (tft_transfer sp dat) rs pkt = (Listening, cts) \<and> list_all2 (\<lambda>(r, os, f). has_text os f) clients cts"
    unfolding assms(5) by (rule parent_all [of clients has_text]) (use child(1) forked assms(2) in auto)
  moreover have "\<exists>css. tftp_parent (srv_transfer sp dat) rs pkt = (Listening, css) \<and> list_all2 (\<lambda>(r, os, f). has_text os f) clients css"
    unfolding assms(5) by (rule parent_all [of clients has_text]) (use child(2) forked assms(2) in auto)
  ultimately show ?thesis by auto
qed

definition demo_request :: "byte list \<Rightarrow> (net_event \<times> bool) list \<Rightarrow> tftp_request" where
  "demo_request name evs = \<lparr>req_datagram = [0, 1] @ name @ [0] @ lit ''netascii'' @ [0], req_forked = True,
     req_sockets = (True, True, True), req_fs = demo_fs, req_send_ok = True, req_events = evs\<rparr>"

lemma demo_asks:
  assumes "0 \<notin> set name" and "length name < 10" and "network_ok 0 1 os" and "list_all2 reports evs os"
  shows "asks_text (demo_request name evs) os [104, 10]"
proof -
  have "blocks_of (netascii (text_part [104, 10])) = [[104, 13, 10]]"
    by (simp add: text_part_def char_val_def EOF_def blocks_of.simps NOBYTES_def)
  moreover have "0 \<notin> set (lit ''netascii'')" "is_netascii (lit ''netascii'')" by (simp_all add: lit_def is_netascii_def byte_of_char_def)
  ultimately show ?thesis
    using assms unfolding asks_text_def demo_request_def
    by (simp, intro exI [of _ name] exI [of _ "lit ''netascii''"]) (simp add: demo_fs_def)
qed

theorem tftp_servers_serve_witness:
  "fst (tft_main (replicate 1000 9) [] (replicate 1000 7) (Some [(True, True)]) True
      [Some (demo_request [102, 102, 102] [(Timed_out, True), (Datagram [0, 4, 0, 1], True)]), Some (demo_request [102] [(Datagram [0, 4, 0, 1], True)])]) = Listening \<and>
   (\<exists>c1 c2. tftp_parent (tft_transfer [] (replicate 1000 7))
      [Some (demo_request [102, 102, 102] [(Timed_out, True), (Datagram [0, 4, 0, 1], True)]), Some (demo_request [102] [(Datagram [0, 4, 0, 1], True)])]
      (replicate 1000 9) = (Listening, [Inr (Brk c1), Inr (Brk c2)]) \<and>
    netascii_text (got (received (arrived (sent c1) [Data_lost, Delivered]))) = [104, 10] \<and>
    netascii_text (got (received (arrived (sent c2) [Delivered]))) = [104, 10])"
proof -
  let ?r1 = "demo_request [102, 102, 102] [(Timed_out, True), (Datagram [0, 4, 0, 1], True)]"
  let ?r2 = "demo_request [102] [(Datagram [0, 4, 0, 1], True)]"
  have "asks_text ?r1 [Data_lost, Delivered] [104, 10]" "asks_text ?r2 [Delivered] [104, 10]"
    by (rule demo_asks; simp add: opcode_is_def)+
  moreover have "text_part [104, 10] = [104, 10]" by (simp add: text_part_def char_val_def EOF_def)
  ultimately show ?thesis
    using tftp_servers_serve [of "[(?r1, [Data_lost, Delivered], [104, 10]), (?r2, [Delivered], [104, 10])]" "replicate 1000 9" "replicate 1000 7" "[(True, True)]" _ "[]", OF _ _ _ _ refl]
    by (auto simp: MAXCHAR_def has_text_def list_all2_Cons1 simp del: tftp_parent.simps)
qed

end
