(* ===== verification/Query_Cache.thy ===== *)
theory Query_Cache
  imports Prelude
begin

section \<open>The page cache of the proxy (ECEN602/assignment4/query\_cache.cpp)\<close>

text \<open>
  A doubly linked list of the pages the proxy holds, most recently stored first. The nodes live in a
  heap, a map from addresses to nodes: \<open>new\<close> takes the next unused address, \<open>delete\<close> removes a node, and
  following a pointer to a removed node is a use after free. A loop along the list is a
  \<open>partial_function\<close>, so that not returning is the value \<open>None\<close>. The strings of a request live as long
  as the process and are values here; the clock readings are arguments.

  Definitions come in the order of the source, then the list a well-formed cache stands for, the
  effect of every operation on it, and what happens when an eleventh page is stored.
\<close>

definition cachesize :: nat where
  "cachesize = 10"

record request_info =
  address :: "byte list"
  resource :: "byte list"
  expires :: int
  accessed :: "byte list"

record cache_node =
  req :: request_info
  next_ptr :: "nat option"
  prev_ptr :: "nat option"

type_synonym cache_heap = "nat \<rightharpoonup> cache_node"

record query_cache =
  heap :: cache_heap
  fresh :: nat
  head :: "nat option"
  curr_cache_size :: int

definition query_cache_new :: "query_cache" where
  "query_cache_new = \<lparr>heap = Map.empty, fresh = 0, head = None, curr_cache_size = 0\<rparr>"

definition deref :: "cache_heap \<Rightarrow> nat option \<Rightarrow> cache_node c_result" where
  "deref h p = (case p of None \<Rightarrow> Inl Null_deref
     | Some a \<Rightarrow> (case h a of None \<Rightarrow> Inl Use_after_free | Some n \<Rightarrow> Inr n))"

definition set_next :: "cache_heap \<Rightarrow> nat option \<Rightarrow> nat option \<Rightarrow> cache_heap c_result" where
  "set_next h p v = c_bind (deref h p) (\<lambda>n. Inr (h(the p \<mapsto> n\<lparr>next_ptr := v\<rparr>)))"

definition set_prev :: "cache_heap \<Rightarrow> nat option \<Rightarrow> nat option \<Rightarrow> cache_heap c_result" where
  "set_prev h p v = c_bind (deref h p) (\<lambda>n. Inr (h(the p \<mapsto> n\<lparr>prev_ptr := v\<rparr>)))"

fun qc_walk :: "nat \<Rightarrow> cache_heap \<Rightarrow> nat option \<Rightarrow> nat option c_result" where
  "qc_walk 0 h p = Inr p"
| "qc_walk (Suc m) h p = c_bind (deref h p) (\<lambda>n. qc_walk m h (next_ptr n))"

definition qc_dequeue :: "query_cache \<Rightarrow> query_cache c_result" where
  "qc_dequeue q =
     (if head q = None then Inr q
      else c_bind (qc_walk (cachesize - 1) (heap q) (head q)) (\<lambda>cur.
           c_bind (set_next (heap q) cur None) (\<lambda>h.
           Inr (q\<lparr>heap := h(the cur := None), curr_cache_size := curr_cache_size q - 1\<rparr>))))"

definition qc_push :: "request_info \<Rightarrow> byte list \<Rightarrow> query_cache \<Rightarrow> query_cache c_result" where
  "qc_push request stamp q =
     (let cur = fresh q;
          node = \<lparr>req = request\<lparr>accessed := stamp\<rparr>, next_ptr = None, prev_ptr = None\<rparr>;
          q1 = q\<lparr>heap := (heap q)(cur \<mapsto> node), fresh := Suc (fresh q)\<rparr>
      in if head q1 = None
         then Inr (q1\<lparr>head := Some cur, curr_cache_size := curr_cache_size q + 1\<rparr>)
         else c_bind (set_prev (heap q1) (head q1) (Some cur)) (\<lambda>h.
              Inr (q1\<lparr>heap := h(cur \<mapsto> node\<lparr>next_ptr := head q1\<rparr>), head := Some cur,
                      curr_cache_size := curr_cache_size q + 1\<rparr>)))"

definition qc_enqueue :: "request_info \<Rightarrow> byte list \<Rightarrow> query_cache \<Rightarrow> query_cache c_result" where
  "qc_enqueue request stamp q =
     c_bind (qc_push request stamp q) (\<lambda>q.
     if curr_cache_size q = int cachesize + 1 then qc_dequeue q else Inr q)"

definition same_page :: "request_info \<Rightarrow> request_info \<Rightarrow> bool" where
  "same_page r r' \<longleftrightarrow> address r = address r' \<and> resource r = resource r'"

partial_function (option) qc_find :: "cache_heap \<Rightarrow> request_info \<Rightarrow> nat option \<Rightarrow> nat option c_result option" where
  "qc_find h request cur =
     (case cur of None \<Rightarrow> Some (Inr None)
      | Some a \<Rightarrow>
          (case h a of None \<Rightarrow> Some (Inl Use_after_free)
           | Some n \<Rightarrow> if same_page (req n) request then Some (Inr (Some a)) else qc_find h request (next_ptr n)))"

text \<open>\<open>t1 = curr->prev; t2 = curr->next\<close> and the relinking around \<open>curr\<close>.\<close>

definition qc_unlink :: "nat \<Rightarrow> query_cache \<Rightarrow> query_cache c_result" where
  "qc_unlink cur q =
     c_bind (deref (heap q) (Some cur)) (\<lambda>n.
     let t1 = prev_ptr n; t2 = next_ptr n
     in c_bind (if t1 \<noteq> None then c_bind (set_next (heap q) t1 t2) (\<lambda>h. Inr (q\<lparr>heap := h\<rparr>))
                else Inr (q\<lparr>head := t2\<rparr>)) (\<lambda>q.
        c_bind (if t2 \<noteq> None then c_bind (set_prev (heap q) t2 t1) (\<lambda>h. Inr (q\<lparr>heap := h\<rparr>)) else Inr q) (\<lambda>q.
        Inr (q\<lparr>curr_cache_size := curr_cache_size q - 1\<rparr>))))"

definition qc_remove :: "request_info \<Rightarrow> query_cache \<Rightarrow> query_cache c_result option" where
  "qc_remove request q =
     map_option (\<lambda>r. c_bind r (\<lambda>found.
       case found of None \<Rightarrow> Inr q
       | Some cur \<Rightarrow> c_bind (qc_unlink cur q) (\<lambda>q. Inr (q\<lparr>heap := (heap q)(cur := None)\<rparr>))))
       (qc_find (heap q) request (head q))"

text \<open>\<open>now\<close> is what \<open>mktime\<close> makes of the current time, \<open>now2\<close> the time stored into an expired entry.\<close>

definition qc_check_cache :: "int \<Rightarrow> int \<Rightarrow> request_info \<Rightarrow> query_cache \<Rightarrow> (int \<times> query_cache) c_result option" where
  "qc_check_cache now now2 request q =
     map_option (\<lambda>r. c_bind r (\<lambda>found.
       case found of None \<Rightarrow> Inr (2, q)
       | Some cur \<Rightarrow>
           c_bind (deref (heap q) (Some cur)) (\<lambda>n.
           if now > expires (req n)
           then c_bind (qc_unlink cur (q\<lparr>heap := (heap q)(cur \<mapsto> n\<lparr>req := (req n)\<lparr>expires := now2\<rparr>\<rparr>)\<rparr>)) (\<lambda>q.
                Inr (1, q))
           else Inr (0, q))))
       (qc_find (heap q) request (head q))"

definition qc_is_cache_exist :: "request_info \<Rightarrow> query_cache \<Rightarrow> bool c_result option" where
  "qc_is_cache_exist request q =
     map_option (\<lambda>r. c_bind r (\<lambda>found. Inr (found \<noteq> None))) (qc_find (heap q) request (head q))"

definition qc_get_size :: "query_cache \<Rightarrow> int" where
  "qc_get_size q = curr_cache_size q"

subsection \<open>The list of a well-formed cache\<close>

fun dlist :: "cache_heap \<Rightarrow> nat option \<Rightarrow> nat option \<Rightarrow> (nat \<times> request_info) list \<Rightarrow> bool" where
  "dlist h p c [] \<longleftrightarrow> c = None"
| "dlist h p c ((a, r) # xs) \<longleftrightarrow>
     c = Some a \<and> (\<exists>n. h a = Some \<lparr>req = r, next_ptr = n, prev_ptr = p\<rparr> \<and> dlist h (Some a) n xs)"

definition qc_inv :: "query_cache \<Rightarrow> (nat \<times> request_info) list \<Rightarrow> bool" where
  "qc_inv q xs \<longleftrightarrow> dlist (heap q) None (head q) xs \<and> distinct (map fst xs) \<and>
     (\<forall>a\<in>fst ` set xs. a < fresh q) \<and> curr_cache_size q = int (length xs)"

lemma dlist_cong: "(\<And>a. a \<in> fst ` set xs \<Longrightarrow> h a = h' a) \<Longrightarrow> dlist h p c xs \<longleftrightarrow> dlist h' p c xs"
  by (induction xs arbitrary: p c) auto

lemma dlist_upd [simp]: "a \<notin> fst ` set xs \<Longrightarrow> dlist (h(a := v)) p c xs \<longleftrightarrow> dlist h p c xs"
  by (rule dlist_cong) auto

lemma dlist_head: "dlist h p c xs \<Longrightarrow> c = (if xs = [] then None else Some (fst (hd xs)))"
  by (cases xs) auto

lemma dlist_alloc: "dlist h p c xs \<Longrightarrow> x \<in> set xs \<Longrightarrow> h (fst x) \<noteq> None"
  by (induction xs arbitrary: p c) auto

lemma qc_push_inv:
  assumes "qc_inv q xs"
  shows "\<exists>q'. qc_push r stamp q = Inr q' \<and> qc_inv q' ((fresh q, r\<lparr>accessed := stamp\<rparr>) # xs)"
proof (cases xs)
  case Nil
  with assms show ?thesis by (simp add: qc_push_def qc_inv_def Let_def)
next
  case (Cons x ys)
  obtain b s where x: "x = (b, s)" by (cases x)
  from assms Cons x obtain n where n: "heap q b = Some \<lparr>req = s, next_ptr = n, prev_ptr = None\<rparr>"
      "dlist (heap q) (Some b) n ys" "head q = Some b" "b \<notin> fst ` set ys" "b < fresh q" "\<forall>a\<in>fst ` set ys. a < fresh q"
    by (auto simp: qc_inv_def)
  let ?h = "(heap q)(fresh q \<mapsto> \<lparr>req = r\<lparr>accessed := stamp\<rparr>, next_ptr = Some b, prev_ptr = None\<rparr>,
     b \<mapsto> \<lparr>req = s, next_ptr = n, prev_ptr = Some (fresh q)\<rparr>)"
  have "dlist ?h (Some b) n ys" using n by (subst dlist_cong [of _ _ "heap q"]) auto
  with assms n Cons x show ?thesis
    by (auto simp: qc_push_def qc_inv_def Let_def set_prev_def deref_def fun_upd_twist)
qed

subsection \<open>Unlinking a node\<close>

fun dseg :: "cache_heap \<Rightarrow> nat option \<Rightarrow> nat option \<Rightarrow> (nat \<times> request_info) list \<Rightarrow> nat option \<Rightarrow> bool" where
  "dseg h p c [] m \<longleftrightarrow> c = m"
| "dseg h p c ((a, r) # xs) m \<longleftrightarrow>
     c = Some a \<and> (\<exists>n. h a = Some \<lparr>req = r, next_ptr = n, prev_ptr = p\<rparr> \<and> dseg h (Some a) n xs m)"

definition last_ptr :: "nat option \<Rightarrow> (nat \<times> request_info) list \<Rightarrow> nat option" where
  "last_ptr p xs = (if xs = [] then p else Some (fst (last xs)))"

lemma last_ptr_Cons [simp]: "last_ptr p ((a, r) # xs) = last_ptr (Some a) xs"
  by (simp add: last_ptr_def)

lemma dlist_append: "dlist h p c (ys @ zs) \<longleftrightarrow> (\<exists>m. dseg h p c ys m \<and> dlist h (last_ptr p ys) m zs)"
proof (induction ys arbitrary: p c)
  case Nil
  then show ?case by (simp add: last_ptr_def)
next
  case (Cons y ys)
  then show ?case by (cases y) auto
qed

lemma dseg_snoc:
  "dseg h p c (ys @ [(b, s)]) m \<longleftrightarrow>
     dseg h p c ys (Some b) \<and> h b = Some \<lparr>req = s, next_ptr = m, prev_ptr = last_ptr p ys\<rparr>"
proof (induction ys arbitrary: p c)
  case Nil
  then show ?case by (auto simp: last_ptr_def)
next
  case (Cons y ys)
  then show ?case by (cases y) auto
qed

lemma dseg_cong: "(\<And>a. a \<in> fst ` set xs \<Longrightarrow> h a = h' a) \<Longrightarrow> dseg h p c xs m \<longleftrightarrow> dseg h' p c xs m"
  by (induction xs arbitrary: p c) auto

lemma dseg_upd [simp]: "a \<notin> fst ` set xs \<Longrightarrow> dseg (h(a := v)) p c xs m \<longleftrightarrow> dseg h p c xs m"
  by (rule dseg_cong) auto

text \<open>Setting the back pointer of the first node of a list, if it has one.\<close>

lemma dlist_set_prev:
  assumes "dlist h p c zs" and "distinct (map fst zs)"
  shows "\<exists>h'. (if c \<noteq> None then set_prev h c p' else Inr h) = Inr h' \<and> dlist h' p' c zs \<and>
    (\<forall>b. b \<notin> fst ` set zs \<longrightarrow> h' b = h b)"
proof (cases zs)
  case Nil
  with assms show ?thesis by simp
next
  case (Cons z ws)
  obtain d u where z: "z = (d, u)" by (cases z)
  with assms Cons obtain n where n: "c = Some d" "h d = Some \<lparr>req = u, next_ptr = n, prev_ptr = p\<rparr>"
      "dlist h (Some d) n ws" "d \<notin> fst ` set ws" by auto
  let ?h = "h(d \<mapsto> \<lparr>req = u, next_ptr = n, prev_ptr = p'\<rparr>)"
  have "dlist ?h (Some d) n ws" using n by (subst dlist_cong [of _ _ h]) auto
  with n Cons z show ?thesis by (simp add: set_prev_def deref_def)
qed

lemma qc_unlink_inv:
  assumes inv: "qc_inv q (ys @ (a, r) # zs)"
  shows "\<exists>q'. qc_unlink a q = Inr q' \<and> qc_inv q' (ys @ zs) \<and> a \<notin> fst ` set (ys @ zs)"
proof -
  from inv obtain t2 where a: "dseg (heap q) None (head q) ys (Some a)"
      "heap q a = Some \<lparr>req = r, next_ptr = t2, prev_ptr = last_ptr None ys\<rparr>" "dlist (heap q) (Some a) t2 zs"
    and d: "distinct (map fst (ys @ (a, r) # zs))"
    by (auto simp: qc_inv_def dlist_append)
  from d have dz: "distinct (map fst zs)" and na: "a \<notin> fst ` set (ys @ zs)" by auto
  show ?thesis
  proof (cases ys rule: rev_cases)
    case Nil
    from dlist_set_prev [OF a(3) dz, of None] obtain h' where
      "(if t2 \<noteq> None then set_prev (heap q) t2 None else Inr (heap q)) = Inr h'" "dlist h' None t2 zs" by blast
    with a inv Nil na show ?thesis
      by (auto simp: qc_unlink_def deref_def last_ptr_def Let_def qc_inv_def split: if_splits)
  next
    case (snoc ys' y)
    obtain b s where y: "y = (b, s)" by (cases y)
    with a(1) snoc have b: "dseg (heap q) None (head q) ys' (Some b)"
        "heap q b = Some \<lparr>req = s, next_ptr = Some a, prev_ptr = last_ptr None ys'\<rparr>" by (auto simp: dseg_snoc)
    let ?h = "(heap q)(b \<mapsto> \<lparr>req = s, next_ptr = t2, prev_ptr = last_ptr None ys'\<rparr>)"
    have nb: "b \<notin> fst ` set ys'" "b \<notin> fst ` set zs" using d snoc y by auto
    have "dlist ?h (Some a) t2 zs" using a(3) nb by (subst dlist_cong [of _ _ "heap q"]) auto
    from dlist_set_prev [OF this dz, of "Some b"] obtain h' where
      h': "(if t2 \<noteq> None then set_prev ?h t2 (Some b) else Inr ?h) = Inr h'" "dlist h' (Some b) t2 zs"
      "\<forall>x. x \<notin> fst ` set zs \<longrightarrow> h' x = ?h x" by blast
    have "dseg h' None (head q) ys' (Some b)"
    proof (subst dseg_cong [of _ _ "heap q"])
      fix x assume "x \<in> fst ` set ys'"
      with d snoc nb have "x \<notin> fst ` set zs" "x \<noteq> b" by auto
      with h'(3) show "h' x = heap q x" by simp
    qed (rule b(1))
    moreover have "h' b = Some \<lparr>req = s, next_ptr = t2, prev_ptr = last_ptr None ys'\<rparr>" using h'(3) nb by simp
    ultimately have "dlist h' None (head q) (ys @ zs)"
      using h'(2) snoc y by (auto simp: dlist_append dseg_snoc last_ptr_def simp del: append_assoc)
    moreover have "qc_unlink a q = Inr (q\<lparr>heap := h', curr_cache_size := curr_cache_size q - 1\<rparr>)"
      using a(2) b(2) h'(1) snoc y
      by (auto simp: qc_unlink_def deref_def set_next_def last_ptr_def Let_def split: if_splits)
    ultimately show ?thesis using inv na by (auto simp: qc_inv_def)
  qed
qed

subsection \<open>The operations on the list\<close>

lemma qc_find_dlist:
  "dlist h p c xs \<Longrightarrow> qc_find h k c = Some (Inr (map_option fst (find (\<lambda>x. same_page (snd x) k) xs)))"
proof (induction xs arbitrary: p c)
  case Nil
  then show ?case by (subst qc_find.simps) simp
next
  case (Cons x xs)
  obtain a r where x: "x = (a, r)" by (cases x)
  with Cons.prems obtain n where n: "c = Some a" "h a = Some \<lparr>req = r, next_ptr = n, prev_ptr = p\<rparr>"
      "dlist h (Some a) n xs" by auto
  with Cons.IH [OF n(3)] x show ?case by (subst qc_find.simps) simp
qed

fun del_page :: "request_info \<Rightarrow> request_info list \<Rightarrow> request_info list" where
  "del_page k [] = []"
| "del_page k (x # xs) = (if same_page x k then xs else x # del_page k xs)"

lemma find_split:
  "find P xs = Some x \<Longrightarrow> \<exists>ys zs. xs = ys @ x # zs \<and> P x \<and> (\<forall>y\<in>set ys. \<not> P y)"
proof (induction xs)
  case Nil
  then show ?case by simp
next
  case (Cons y xs)
  show ?case
  proof (cases "P y")
    case True
    with Cons.prems show ?thesis by (intro exI [of _ "[]"] exI [of _ xs]) simp
  next
    case False
    with Cons obtain ys zs where "xs = ys @ x # zs" "P x" "\<forall>y\<in>set ys. \<not> P y" by auto
    with False show ?thesis by (intro exI [of _ "y # ys"] exI [of _ zs]) simp
  qed
qed

lemma del_page_split:
  "\<forall>y\<in>set ys. \<not> same_page y k \<Longrightarrow> same_page x k \<Longrightarrow> del_page k (ys @ x # zs) = ys @ zs"
  by (induction ys) auto

lemma del_page_none: "\<forall>y\<in>set xs. \<not> same_page y k \<Longrightarrow> del_page k xs = xs"
  by (induction xs) auto

definition page_at :: "request_info \<Rightarrow> request_info list \<Rightarrow> request_info option" where
  "page_at k xs = find (\<lambda>x. same_page x k) xs"

lemma del_page_shorter: "page_at k xs = Some r \<Longrightarrow> length (del_page k xs) < length xs"
  by (induction xs) (auto simp: page_at_def split: if_splits)

lemma find_map_snd: "find (\<lambda>x. P (snd x)) xs = None \<longleftrightarrow> find P (map snd xs) = None"
  by (auto simp: find_None_iff)

lemma qc_inv_find:
  assumes "qc_inv q xs"
  shows "(page_at k (map snd xs) = None \<and> qc_find (heap q) k (head q) = Some (Inr None)) \<or>
    (\<exists>ys a r zs. xs = ys @ (a, r) # zs \<and> page_at k (map snd xs) = Some r \<and>
       qc_find (heap q) k (head q) = Some (Inr (Some a)) \<and> del_page k (map snd xs) = map snd (ys @ zs))"
proof (cases "find (\<lambda>x. same_page (snd x) k) xs")
  case None
  with assms qc_find_dlist [of "heap q" None "head q" xs k] find_map_snd [of "\<lambda>x. same_page x k" xs] show ?thesis
    by (simp add: qc_inv_def page_at_def)
next
  case (Some x)
  obtain a r where x: "x = (a, r)" by (cases x)
  from find_split [OF Some] x obtain ys zs where
    s: "xs = ys @ (a, r) # zs" "same_page r k" "\<forall>y\<in>set ys. \<not> same_page (snd y) k" by auto
  then have "find (\<lambda>x. same_page x k) (map snd xs) = Some r" by (induction ys arbitrary: xs) auto
  moreover have "del_page k (map snd xs) = map snd (ys @ zs)"
    using s del_page_split [of "map snd ys" k r "map snd zs"] by simp
  ultimately show ?thesis
    using assms qc_find_dlist [of "heap q" None "head q" xs k] Some x s(1) by (auto simp: qc_inv_def page_at_def)
qed

lemma qc_remove_inv:
  assumes "qc_inv q xs"
  shows "\<exists>q' xs'. qc_remove k q = Some (Inr q') \<and> qc_inv q' xs' \<and> map snd xs' = del_page k (map snd xs)"
  using qc_inv_find [OF assms, of k]
proof (elim disjE exE conjE)
  assume n: "page_at k (map snd xs) = None" "qc_find (heap q) k (head q) = Some (Inr None)"
  then have "\<forall>y\<in>set (map snd xs). \<not> same_page y k" by (auto simp: page_at_def find_None_iff)
  from del_page_none [OF this] n assms show ?thesis by (auto simp: qc_remove_def)
next
  fix ys a r zs
  assume f: "xs = ys @ (a, r) # zs" "qc_find (heap q) k (head q) = Some (Inr (Some a))"
    "del_page k (map snd xs) = map snd (ys @ zs)"
  from qc_unlink_inv assms f(1) obtain q' where q': "qc_unlink a q = Inr q'" "qc_inv q' (ys @ zs)" "a \<notin> fst ` set (ys @ zs)"
    by blast
  then have "dlist ((heap q')(a := None)) None (head q') (ys @ zs)"
    by (simp add: qc_inv_def)
  with q' have "qc_inv (q'\<lparr>heap := (heap q')(a := None)\<rparr>) (ys @ zs)" by (simp add: qc_inv_def)
  with f q'(1) show ?thesis by (auto simp: qc_remove_def)
qed

lemma qc_check_inv:
  assumes "qc_inv q xs"
  shows "\<exists>q' xs'. qc_check_cache now now2 k q =
      Some (Inr (case page_at k (map snd xs) of None \<Rightarrow> 2 | Some r \<Rightarrow> if now > expires r then 1 else 0, q')) \<and> qc_inv q' xs' \<and>
    map snd xs' = (case page_at k (map snd xs) of Some r \<Rightarrow> if now > expires r then del_page k (map snd xs) else map snd xs
                   | None \<Rightarrow> map snd xs)"
  using qc_inv_find [OF assms, of k]
proof (elim disjE exE conjE)
  assume "page_at k (map snd xs) = None" "qc_find (heap q) k (head q) = Some (Inr None)"
  with assms show ?thesis by (auto simp: qc_check_cache_def)
next
  fix ys a r zs
  assume f: "xs = ys @ (a, r) # zs" "page_at k (map snd xs) = Some r" "qc_find (heap q) k (head q) = Some (Inr (Some a))"
    "del_page k (map snd xs) = map snd (ys @ zs)"
  from assms f(1) obtain n where n: "heap q a = Some \<lparr>req = r, next_ptr = n, prev_ptr = last_ptr None ys\<rparr>"
    by (auto simp: qc_inv_def dlist_append)
  let ?q = "q\<lparr>heap := (heap q)(a \<mapsto> \<lparr>req = r\<lparr>expires := now2\<rparr>, next_ptr = n, prev_ptr = last_ptr None ys\<rparr>)\<rparr>"
  have na: "a \<notin> fst ` set ys" "a \<notin> fst ` set zs" using assms f(1) by (auto simp: qc_inv_def)
  have "qc_inv ?q (ys @ (a, r\<lparr>expires := now2\<rparr>) # zs)"
    using assms f(1) n na by (auto simp: qc_inv_def dlist_append)
  from qc_unlink_inv [OF this] obtain q' where "qc_unlink a ?q = Inr q'" "qc_inv q' (ys @ zs)" by blast
  with assms f n show ?thesis
    by (cases "now > expires r") (auto simp: qc_check_cache_def deref_def)
qed

subsection \<open>Sequences of calls\<close>

datatype qc_op =
    Op_enqueue request_info "byte list"
  | Op_remove request_info
  | Op_check int int request_info
  | Op_exist request_info
  | Op_size

text \<open>One call and what its caller sees, a truth value as 0 or 1.\<close>

fun qc_call :: "qc_op \<Rightarrow> query_cache \<Rightarrow> (int \<times> query_cache) c_result option" where
  "qc_call (Op_enqueue r stamp) q = Some (c_bind (qc_enqueue r stamp q) (\<lambda>q. Inr (0, q)))"
| "qc_call (Op_remove r) q = map_option (\<lambda>x. c_bind x (\<lambda>q. Inr (0, q))) (qc_remove r q)"
| "qc_call (Op_check now now2 r) q = qc_check_cache now now2 r q"
| "qc_call (Op_exist r) q = map_option (\<lambda>x. c_bind x (\<lambda>b. Inr (of_bool b, q))) (qc_is_cache_exist r q)"
| "qc_call Op_size q = Some (Inr (qc_get_size q, q))"

fun qc_run :: "qc_op list \<Rightarrow> query_cache \<Rightarrow> int list c_result option" where
  "qc_run [] q = Some (Inr [])"
| "qc_run (op # ops) q =
     Option.bind (qc_call op q) (\<lambda>x. case x of Inl u \<Rightarrow> Some (Inl u)
       | Inr (v, q') \<Rightarrow> map_option (\<lambda>y. c_bind y (\<lambda>vs. Inr (v # vs))) (qc_run ops q'))"

text \<open>The same calls on a list of pages, which never grows beyond ten: \<open>None\<close> where it would.\<close>

fun page_call :: "qc_op \<Rightarrow> request_info list \<Rightarrow> (int \<times> request_info list) option" where
  "page_call (Op_enqueue r stamp) xs = (if length xs < cachesize then Some (0, r\<lparr>accessed := stamp\<rparr> # xs) else None)"
| "page_call (Op_remove r) xs = Some (0, del_page r xs)"
| "page_call (Op_check now now2 r) xs =
     (case page_at r xs of None \<Rightarrow> Some (2, xs)
      | Some p \<Rightarrow> if now > expires p then Some (1, del_page r xs) else Some (0, xs))"
| "page_call (Op_exist r) xs = Some (of_bool (page_at r xs \<noteq> None), xs)"
| "page_call Op_size xs = Some (int (length xs), xs)"

fun page_run :: "qc_op list \<Rightarrow> request_info list \<Rightarrow> int list option" where
  "page_run [] xs = Some []"
| "page_run (op # ops) xs = Option.bind (page_call op xs) (\<lambda>(v, xs'). map_option (\<lambda>vs. v # vs) (page_run ops xs'))"

lemma qc_enqueue_inv:
  assumes "qc_inv q xs" and "length xs < cachesize"
  shows "\<exists>q' xs'. qc_enqueue r stamp q = Inr q' \<and> qc_inv q' xs' \<and> map snd xs' = r\<lparr>accessed := stamp\<rparr> # map snd xs"
proof -
  from qc_push_inv [OF assms(1)] obtain q' where q': "qc_push r stamp q = Inr q'"
    "qc_inv q' ((fresh q, r\<lparr>accessed := stamp\<rparr>) # xs)" by blast
  then have "curr_cache_size q' \<noteq> int cachesize + 1" using assms(2) by (simp add: qc_inv_def)
  with q' show ?thesis by (auto simp: qc_enqueue_def)
qed

lemma qc_call_refines:
  assumes "qc_inv q xs" and "page_call op (map snd xs) = Some (v, ps)"
  shows "\<exists>q' xs'. qc_call op q = Some (Inr (v, q')) \<and> qc_inv q' xs' \<and> map snd xs' = ps"
proof (cases op)
  case (Op_enqueue r stamp)
  with assms(2) have l: "length xs < cachesize" and o: "v = 0" "ps = r\<lparr>accessed := stamp\<rparr> # map snd xs"
    by (auto split: if_splits)
  from qc_enqueue_inv [OF assms(1) l] obtain q' xs' where
    "qc_enqueue r stamp q = Inr q'" "qc_inv q' xs'" "map snd xs' = r\<lparr>accessed := stamp\<rparr> # map snd xs" by metis
  with Op_enqueue o show ?thesis by (intro exI [of _ q'] exI [of _ xs']) simp
next
  case (Op_remove r)
  with assms qc_remove_inv [OF assms(1), of r] show ?thesis by auto
next
  case (Op_check now now2 r)
  with assms qc_check_inv [OF assms(1), of now now2 r] show ?thesis by (auto split: option.splits if_splits)
next
  case (Op_exist r)
  with assms qc_inv_find [OF assms(1), of r] show ?thesis by (auto simp: qc_is_cache_exist_def)
next
  case Op_size
  with assms show ?thesis by (auto simp: qc_get_size_def qc_inv_def)
qed

text \<open>Claim C9: as long as the cache holds at most ten pages it behaves like a list of pages, most
  recent first: any sequence of calls on a new cache returns exactly what it returns on the list. In
  particular every loop along the cache ends, no freed node is touched, lookups find exactly the pages
  stored and neither removed nor found expired, and the size is their number.\<close>

theorem qc_run_refines:
  assumes "page_run ops [] = Some vs"
  shows "qc_run ops query_cache_new = Some (Inr vs)"
proof -
  have "qc_run ops q = Some (Inr vs)" if "qc_inv q xs" "page_run ops (map snd xs) = Some vs" for q xs
    using that
  proof (induction ops arbitrary: q xs vs)
    case Nil
    then show ?case by simp
  next
    case (Cons op ops)
    from Cons.prems(2) obtain v ps vs' where s: "page_call op (map snd xs) = Some (v, ps)"
        "page_run ops ps = Some vs'" "vs = v # vs'"
      by (auto simp: bind_eq_Some_conv)
    from qc_call_refines [OF Cons.prems(1) s(1)] obtain q' xs' where
      "qc_call op q = Some (Inr (v, q'))" "qc_inv q' xs'" "map snd xs' = ps" by blast
    with Cons.IH [of q' xs' vs'] s show ?case by simp
  qed
  moreover have "qc_inv query_cache_new []" by (simp add: qc_inv_def query_cache_new_def)
  ultimately show ?thesis using assms by (metis list.simps(8))
qed

definition demo_page :: "byte \<Rightarrow> request_info" where
  "demo_page b = \<lparr>address = [b], resource = [47], expires = 5, accessed = []\<rparr>"

theorem qc_run_refines_witness:
  "qc_run [Op_enqueue (demo_page 1) [], Op_enqueue (demo_page 2) [], Op_check 4 4 (demo_page 1), Op_check 9 9 (demo_page 1),
     Op_exist (demo_page 1), Op_exist (demo_page 2), Op_size] query_cache_new = Some (Inr [0, 0, 0, 1, 0, 1, 1])"
  using qc_run_refines [of "[Op_enqueue (demo_page 1) [], Op_enqueue (demo_page 2) [], Op_check 4 4 (demo_page 1),
      Op_check 9 9 (demo_page 1), Op_exist (demo_page 1), Op_exist (demo_page 2), Op_size]" "[0, 0, 0, 1, 0, 1, 1]"]
  by (simp add: demo_page_def same_page_def page_at_def cachesize_def)

subsection \<open>The eleventh page\<close>

lemma qc_walk_dlist:
  "dlist h p c xs \<Longrightarrow> m < length xs \<Longrightarrow> qc_walk m h c = Inr (Some (fst (xs ! m)))"
proof (induction m arbitrary: p c xs)
  case 0
  then show ?case by (cases xs) auto
next
  case (Suc m)
  then obtain a r ys where "xs = (a, r) # ys" by (cases xs) auto
  with Suc show ?case by (auto simp: deref_def)
qed

lemma qc_find_dangling:
  "dseg h p c ys (Some a) \<Longrightarrow> h a = None \<Longrightarrow> \<forall>y\<in>set ys. \<not> same_page (snd y) k \<Longrightarrow>
     qc_find h k c = Some (Inl Use_after_free)"
proof (induction ys arbitrary: p c)
  case Nil
  then show ?case by (subst qc_find.simps) simp
next
  case (Cons y ys)
  obtain b s where y: "y = (b, s)" by (cases y)
  with Cons.prems obtain n where n: "c = Some b" "h b = Some \<lparr>req = s, next_ptr = n, prev_ptr = p\<rparr>"
      "dseg h (Some b) n ys (Some a)" by auto
  with Cons.IH [OF n(3)] Cons.prems y show ?case by (subst qc_find.simps) simp
qed

text \<open>Claim C34: storing an eleventh page breaks the cache. \<open>dequeue\<close> stops one node early: it deletes the
  tenth node, to which the ninth still points, and leaves the eleventh, the least recently stored page,
  allocated but unreachable. From then on every lookup of a page that is not among the nine most
  recent ones follows the pointer to the deleted node.\<close>

theorem qc_eleventh_page_dangles:
  assumes "qc_inv q xs" and "length xs = cachesize"
  shows "\<exists>q'. qc_enqueue r stamp q = Inr q' \<and> heap q' (fst (last xs)) \<noteq> None \<and>
    (\<forall>k. page_at k (r\<lparr>accessed := stamp\<rparr> # take 8 (map snd xs)) = None \<longrightarrow>
         qc_is_cache_exist k q' = Some (Inl Use_after_free) \<and> qc_remove k q' = Some (Inl Use_after_free))"
proof -
  let ?r = "r\<lparr>accessed := stamp\<rparr>"
  from qc_push_inv [OF assms(1)] obtain q1 where q1: "qc_push r stamp q = Inr q1" "qc_inv q1 ((fresh q, ?r) # xs)" by blast
  define ws where "ws = (fresh q, ?r) # xs"
  define a where "a = fst (ws ! 9)"
  have len: "length ws = 11" using assms(2) by (simp add: ws_def cachesize_def)
  have split: "ws = take 9 ws @ ws ! 9 # drop 10 ws" using len id_take_nth_drop [of 9 ws] by simp
  have list: "dlist (heap q1) None (head q1) ws" and dist: "distinct (map fst ws)"
    using q1(2) by (simp_all add: qc_inv_def ws_def)
  obtain m where m: "dseg (heap q1) None (head q1) (take 9 ws) m" "dlist (heap q1) (last_ptr None (take 9 ws)) m (ws ! 9 # drop 10 ws)"
    using list split dlist_append [of "heap q1" None "head q1" "take 9 ws" "ws ! 9 # drop 10 ws"] by metis
  then have ma: "m = Some a" using dlist_head [OF m(2)] by (simp add: a_def)
  from m(2) obtain n where n: "heap q1 a = Some n" by (cases "ws ! 9") (auto simp: a_def)
  let ?h = "(heap q1)(a := None)"
  have walk: "qc_walk (cachesize - 1) (heap q1) (head q1) = Inr (Some a)"
    using qc_walk_dlist [OF list, of 9] len by (simp add: cachesize_def a_def)
  have enq: "qc_enqueue r stamp q = Inr (q1\<lparr>heap := ?h, curr_cache_size := curr_cache_size q1 - 1\<rparr>)"
    using q1 assms(2) walk n dlist_head [OF list] len
    by (auto simp: qc_enqueue_def qc_dequeue_def qc_inv_def set_next_def deref_def)
  have split_fst: "map fst ws = map fst (take 9 ws) @ a # map fst (drop 10 ws)"
    by (subst split) (simp add: a_def)
  with dist have na: "a \<notin> fst ` set (take 9 ws)" "a \<notin> fst ` set (drop 10 ws)"
    unfolding split_fst by auto
  have dang: "dseg ?h None (head q1) (take 9 ws) (Some a)" using m(1) ma na(1) by simp
  have pages: "map snd (take 9 ws) = ?r # take 8 (map snd xs)" by (simp add: ws_def take_map)
  have miss: "qc_find ?h k (head q1) = Some (Inl Use_after_free)" if "page_at k (?r # take 8 (map snd xs)) = None" for k
  proof (rule qc_find_dangling [OF dang])
    show "\<forall>y\<in>set (take 9 ws). \<not> same_page (snd y) k"
      using that unfolding pages [symmetric] page_at_def by (auto simp: find_None_iff)
  qed simp
  have "drop 10 ws = [last ws]" using len
    by (metis Cons_nth_drop_Suc drop_all last_drop le_refl lessI numeral_eq_Suc last_ConsL pred_numeral_simps(3) append_Nil2)
  then have lw: "last xs = last ws" "last ws \<in> set (drop 10 ws)" using assms(2) by (auto simp: ws_def cachesize_def)
  then have "fst (last xs) \<noteq> a" using na(2) by auto
  moreover have "heap q1 (fst (last xs)) \<noteq> None" using dlist_alloc [OF list, of "last ws"] len lw(1) by (cases ws) simp_all
  ultimately show ?thesis using enq miss by (auto simp: qc_is_cache_exist_def qc_remove_def)
qed

lemma qc_fill:
  "n \<le> cachesize \<Longrightarrow> \<exists>q xs. qc_inv q xs \<and> map snd xs = replicate n (demo_page 1)"
proof (induction n)
  case 0
  have "qc_inv query_cache_new []" by (simp add: qc_inv_def query_cache_new_def)
  then show ?case by force
next
  case (Suc n)
  then obtain q xs where q: "qc_inv q xs" "map snd xs = replicate n (demo_page 1)" by auto
  with Suc.prems have "length xs < cachesize" by (metis length_map length_replicate Suc_le_lessD)
  from qc_enqueue_inv [OF q(1) this, of "demo_page 1" "[]"] q(2) show ?case
    by (force simp: demo_page_def)
qed

theorem qc_eleventh_page_dangles_witness:
  "\<exists>q xs q'. qc_inv q xs \<and> length xs = cachesize \<and> qc_enqueue (demo_page 2) [] q = Inr q' \<and>
     qc_is_cache_exist (demo_page 3) q' = Some (Inl Use_after_free)"
proof -
  obtain q xs where q: "qc_inv q xs" "map snd xs = replicate cachesize (demo_page 1)" using qc_fill by blast
  then have len: "length xs = cachesize" by (metis length_map length_replicate)
  have "page_at (demo_page 3) ((demo_page 2)\<lparr>accessed := []\<rparr> # take 8 (map snd xs)) = None"
    by (simp add: q(2) page_at_def find_None_iff same_page_def demo_page_def)
  with qc_eleventh_page_dangles [OF q(1) len, of "demo_page 2" "[]"] q(1) len show ?thesis by metis
qed

subsection \<open>The contract of a page cache\<close>

text \<open>
  What the proxy relies on: the cache stands for a list of pages, most recent first; storing,
  removing, checking and looking up a page have their effect on that list.
\<close>

locale page_cache =
  fixes rep :: "'c \<Rightarrow> request_info list \<Rightarrow> bool"
    and store :: "request_info \<Rightarrow> byte list \<Rightarrow> 'c \<Rightarrow> 'c c_result"
    and remove :: "request_info \<Rightarrow> 'c \<Rightarrow> 'c c_result option"
    and check :: "int \<Rightarrow> int \<Rightarrow> request_info \<Rightarrow> 'c \<Rightarrow> (int \<times> 'c) c_result option"
    and exist :: "request_info \<Rightarrow> 'c \<Rightarrow> bool c_result option"
  assumes store: "rep q ps \<Longrightarrow> length ps < cachesize \<Longrightarrow>
      \<exists>q'. store r stamp q = Inr q' \<and> rep q' (r\<lparr>accessed := stamp\<rparr> # ps)"
    and remove: "rep q ps \<Longrightarrow> \<exists>q'. remove k q = Some (Inr q') \<and> rep q' (del_page k ps)"
    and check: "rep q ps \<Longrightarrow> \<exists>q'. check now now2 k q =
        Some (Inr (case page_at k ps of None \<Rightarrow> 2 | Some r \<Rightarrow> if now > expires r then 1 else 0, q')) \<and>
      rep q' (case page_at k ps of None \<Rightarrow> ps | Some r \<Rightarrow> if now > expires r then del_page k ps else ps)"
    and exist: "rep q ps \<Longrightarrow> exist k q = Some (Inr (page_at k ps \<noteq> None))"
begin

lemma stored_page:
  assumes "rep q ps" and "length (del_page r ps) < cachesize"
  shows "\<exists>q1 q2. remove r q = Some (Inr q1) \<and> store r stamp q1 = Inr q2 \<and>
    rep q2 (r\<lparr>accessed := stamp\<rparr> # del_page r ps)"
  using remove [OF assms(1), of r] store [OF _ assms(2), of _ r stamp] by metis

lemma check_first:
  assumes "rep q (r # ps)" and "same_page r k"
  shows "\<exists>q'. check now now2 k q = Some (Inr (if now > expires r then 1 else 0, q')) \<and>
    exist k q' = Some (Inr (now \<le> expires r \<or> page_at k ps \<noteq> None))"
proof -
  have at: "page_at k (r # ps) = Some r" using assms(2) by (simp add: page_at_def)
  from check [OF assms(1), of now now2 k] obtain q' where
    q': "check now now2 k q = Some (Inr (if now > expires r then 1 else 0, q'))"
    "rep q' (if now > expires r then ps else r # ps)" using at assms(2) by (auto split: if_splits)
  from exist [OF q'(2), of k] at have "exist k q' = Some (Inr (now \<le> expires r \<or> page_at k ps \<noteq> None))"
    by (auto split: if_splits)
  with q'(1) show ?thesis by blast
qed

end

definition qc_rep :: "query_cache \<Rightarrow> request_info list \<Rightarrow> bool" where
  "qc_rep q ps \<longleftrightarrow> (\<exists>xs. qc_inv q xs \<and> map snd xs = ps)"

interpretation qc: page_cache qc_rep qc_enqueue qc_remove qc_check_cache qc_is_cache_exist
proof
  fix q ps r stamp
  assume "qc_rep q ps" and l: "length ps < cachesize"
  then obtain xs where xs: "qc_inv q xs" "map snd xs = ps" by (auto simp: qc_rep_def)
  with l have "length xs < cachesize" by auto
  from qc_enqueue_inv [OF xs(1) this] xs(2)
  show "\<exists>q'. qc_enqueue r stamp q = Inr q' \<and> qc_rep q' (r\<lparr>accessed := stamp\<rparr> # ps)"
    unfolding qc_rep_def by metis
next
  fix q ps k
  assume "qc_rep q ps"
  then show "\<exists>q'. qc_remove k q = Some (Inr q') \<and> qc_rep q' (del_page k ps)"
    unfolding qc_rep_def using qc_remove_inv by metis
next
  fix q ps now now2 k
  assume "qc_rep q ps"
  then obtain xs where xs: "qc_inv q xs" "map snd xs = ps" by (auto simp: qc_rep_def)
  from qc_check_inv [OF xs(1), of now now2 k]
  show "\<exists>q'. qc_check_cache now now2 k q =
        Some (Inr (case page_at k ps of None \<Rightarrow> 2 | Some r \<Rightarrow> if now > expires r then 1 else 0, q')) \<and>
      qc_rep q' (case page_at k ps of None \<Rightarrow> ps | Some r \<Rightarrow> if now > expires r then del_page k ps else ps)"
    unfolding xs(2) qc_rep_def by (cases "page_at k ps") auto
next
  fix q ps k
  assume "qc_rep q ps"
  then show "qc_is_cache_exist k q = Some (Inr (page_at k ps \<noteq> None))"
    unfolding qc_rep_def using qc_inv_find by (fastforce simp: qc_is_cache_exist_def)
qed

end
