(* ===== verification/Proxy.thy ===== *)
theory Proxy
  imports Query_Cache
begin

section \<open>The web proxy (ECEN602/assignment4/proxy.cpp)\<close>

text \<open>
  The proxy's handling of text: removing blanks, parsing the request of a client, building the
  requests to the web server, cutting the header off a stored page, reading status and expiry date of
  a response; and the decisions of \<open>get_request_page\<close> and \<open>recv_from_srvr\<close> together with their use of
  the cache. Strings are byte lists without their terminator where the source only reads them, and
  buffers with it where it writes. What the network, the files and the clock deliver are arguments.
\<close>

subsection \<open>Strings\<close>

text \<open>\<open>rm_space\<close>: \<open>m\<close> and \<open>n\<close> are the write and the read position in the buffer.\<close>

function rm_space_loop :: "byte list \<Rightarrow> nat \<Rightarrow> nat \<Rightarrow> byte list c_result" where
  "rm_space_loop text m n =
     (if length text \<le> n then Inl Out_of_bounds
      else if text ! n = 0 then arr_set text (int m) 0
      else c_bind (arr_set text (int m) (text ! n)) (\<lambda>t.
           rm_space_loop t (if t ! m \<noteq> 32 then m + 1 else m) (n + 1)))"
  by pat_completeness auto

termination rm_space_loop
  by (relation "measure (\<lambda>(text, m, n). length text - n)")
     (auto simp: arr_set_def split: if_splits)

declare rm_space_loop.simps [simp del]

definition rm_space :: "byte list \<Rightarrow> byte list c_result" where
  "rm_space text = rm_space_loop text 0 0"

definition crlf :: "byte set" where
  "crlf = {13, 10}"

text \<open>\<open>strtok(s, "\r\n")\<close> called until it returns \<open>NULL\<close>.\<close>

function strtok_all :: "byte list \<Rightarrow> byte list list" where
  "strtok_all s =
     (let s1 = dropWhile (\<lambda>b. b \<in> crlf) s; t = takeWhile (\<lambda>b. b \<notin> crlf) s1
      in if t = [] then [] else t # strtok_all (drop (length t) s1))"
  by pat_completeness auto

termination strtok_all
proof (relation "measure length")
  fix s s1 t :: "byte list"
  assume "s1 = dropWhile (\<lambda>b. b \<in> crlf) s" and "t = takeWhile (\<lambda>b. b \<notin> crlf) s1" and "t \<noteq> []"
  then have "0 < length t" "length s1 \<le> length s" "length t \<le> length s1"
    by (simp_all add: length_dropWhile_le length_takeWhile_le)
  then have "length s1 - length t < length s" by linarith
  then show "(drop (length t) s1, s) \<in> measure length" by simp
qed simp

declare strtok_all.simps [simp del]

definition has_prefix :: "string \<Rightarrow> byte list \<Rightarrow> bool" where
  "has_prefix p s \<longleftrightarrow> take (length p) s = lit p"

subsection \<open>The request of a client\<close>

text \<open>The loop over the lines of \<open>parse_req\<close>: \<open>resource\<close> and \<open>address\<close>, unset at first. A request line
  shorter than twelve characters is cut before its start.\<close>

fun parse_lines :: "byte list list \<Rightarrow> byte list option \<times> byte list option \<Rightarrow> (byte list option \<times> byte list option) c_result" where
  "parse_lines [] ra = Inr ra"
| "parse_lines (line # ls) (r, a) =
     (if has_prefix ''GET'' line then
        (let getline = drop 4 line
         in if length line < 4 \<or> length getline < 8 then Inl Out_of_bounds
            else parse_lines ls (Some (take (length getline - 8) getline), a))
      else if has_prefix ''Host:'' line then
        (if length line < 6 then Inl Out_of_bounds else parse_lines ls (r, Some (drop 6 line)))
      else parse_lines ls (r, a))"

definition parse_req :: "byte list \<Rightarrow> request_info c_result" where
  "parse_req buffer =
     c_bind (c_str buffer) (\<lambda>s.
     c_bind (parse_lines (strtok_all s) (None, None)) (\<lambda>(r, a).
     case (r, a) of
       (Some r, Some a) \<Rightarrow>
         c_bind (rm_space (r @ [0])) (\<lambda>rb. c_bind (c_str rb) (\<lambda>rs.
         c_bind (rm_space (a @ [0])) (\<lambda>ab. c_bind (c_str ab) (\<lambda>as.
         Inr \<lparr>address = as, resource = rs, expires = 0, accessed = []\<rparr>))))
     | _ \<Rightarrow> Inl Uninitialised))"

subsection \<open>Requests to the web server\<close>

text \<open>A message printed into a block of \<open>n\<close> bytes, terminator included.\<close>

definition sprintf_into :: "nat \<Rightarrow> byte list \<Rightarrow> byte list c_result" where
  "sprintf_into n msg = (if length msg + 1 \<le> n then Inr msg else Inl Out_of_bounds)"

definition get_msg :: "byte list \<Rightarrow> byte list \<Rightarrow> byte list \<Rightarrow> byte list" where
  "get_msg resrc addr agent =
     lit ''GET /'' @ resrc @ lit '' HTTP/1.0'' @ [13, 10] @ lit ''Host: '' @ addr @ [13, 10] @
     lit ''User-Agent: '' @ agent @ [13, 10, 13, 10]"

definition cond_get_msg :: "byte list \<Rightarrow> byte list \<Rightarrow> byte list \<Rightarrow> byte list" where
  "cond_get_msg resrc addr since =
     lit ''GET /'' @ resrc @ lit '' HTTP/1.0'' @ [13, 10] @ lit ''Host: '' @ addr @ [13, 10] @
     lit ''If-Modified-Since: '' @ since @ [13, 10, 13, 10]"

text \<open>The lengths of the two templates, each with three \<open>%s\<close>, as \<open>strlen(temp)\<close> gives them.\<close>

definition get_template_len :: nat where
  "get_template_len = length (get_msg (lit ''%s'') (lit ''%s'') (lit ''%s''))"

definition cond_template_len :: nat where
  "cond_template_len = length (cond_get_msg (lit ''%s'') (lit ''%s'') (lit ''%s''))"

definition proxy_get_request :: "byte list \<Rightarrow> byte list \<Rightarrow> byte list c_result" where
  "proxy_get_request resrc addr =
     sprintf_into (get_template_len - 5 + length addr + length resrc + length (lit ''ECEN602''))
       (get_msg resrc addr (lit ''ECEN602''))"

definition proxy_cond_request :: "byte list \<Rightarrow> byte list \<Rightarrow> byte list \<Rightarrow> byte list c_result" where
  "proxy_cond_request resrc addr time_buf =
     sprintf_into (cond_template_len + length addr + length resrc + length time_buf)
       (cond_get_msg resrc addr time_buf)"

definition generate_req_msg :: "byte list \<Rightarrow> byte list \<Rightarrow> byte list c_result" where
  "generate_req_msg host page =
     (let content = (\<lambda>pg h. lit ''GET /'' @ pg @ lit '' HTTP/1.0'' @ [13, 10] @ lit ''Host: '' @ h @ [13, 10])
      in sprintf_into (length host + length page + length (content (lit ''%s'') (lit ''%s'')) - 5) (content page host))"

text \<open>The search for an address of the web server to connect to: for each result whether \<open>socket\<close>
  and \<open>connect\<close> succeed. A descriptor that was closed again is \<open>Fd_closed\<close>.\<close>

datatype fd = Fd_unset | Fd_failed | Fd_closed | Fd_open nat

fun connect_loop :: "(bool \<times> bool) list \<Rightarrow> nat \<Rightarrow> fd \<Rightarrow> fd" where
  "connect_loop [] i d = d"
| "connect_loop ((sock_ok, conn_ok) # rs) i d =
     (if \<not> sock_ok then connect_loop rs (i + 1) Fd_failed
      else if \<not> conn_ok then connect_loop rs (i + 1) Fd_closed
      else Fd_open i)"

subsection \<open>Pages\<close>

text \<open>The loop of \<open>send_to_clnt\<close> over the stored page: the last four characters, newest first, and the
  flag \<open>ready_to_send\<close>; the bytes sent. A failing \<open>send\<close> is only reported.\<close>

fun send_loop :: "byte \<times> byte \<times> byte \<times> byte \<Rightarrow> bool \<Rightarrow> byte list \<Rightarrow> byte list" where
  "send_loop (c1, c2, c3, c4) ready [] = []"
| "send_loop (c1, c2, c3, c4) ready (b # bs) =
     (let ready' = (if c4 = 13 \<and> c3 = 10 \<and> c2 = 13 \<and> c1 = 10 \<and> \<not> ready then True else ready)
      in (if ready' then [b] else []) @ send_loop (b, c1, c2, c3) ready' bs)"

text \<open>The file name of a page. \<open>char resource[strlen(clnt_req.resource)]\<close> has no room for the
  terminator that \<open>strcpy\<close> writes; \<open>slack\<close> is the number of bytes that the stack layout happens to leave
  unused behind the array, which decides whether the write does harm.\<close>

definition proxy_file_name :: "nat \<Rightarrow> request_info \<Rightarrow> byte list c_result" where
  "proxy_file_name slack r =
     c_bind (c_strcpy (replicate (length (resource r) + slack) 0) (resource r @ [0])) (\<lambda>rs.
     c_bind (c_str rs) (\<lambda>s.
     c_bind (rm_space (address r @ map (\<lambda>b. if b = 47 then 95 else b) s @ [0])) c_str))"

text \<open>
  The state of the proxy: its cache, the files of its directory, the descriptors it selects on, the
  number of connections to web servers left open, the requests sent to web servers and the bytes
  sent to clients. File operations other than looking for a missing page succeed.
\<close>

record proxy_state =
  proxy_cache :: query_cache
  files :: "byte list \<rightharpoonup> byte list"
  fds_all :: "int set"
  proxy_fdmax :: int
  web_conns :: int
  requested :: "byte list list"
  served :: "(int \<times> byte list) list"

definition send_to_clnt :: "nat \<Rightarrow> request_info \<Rightarrow> int \<Rightarrow> proxy_state \<Rightarrow> proxy_state c_result" where
  "send_to_clnt slack r client_fd st =
     c_bind (proxy_file_name slack r) (\<lambda>name.
     Inr (st\<lparr>served := served st @
               [(client_fd, case files st name of None \<Rightarrow> [] | Some page \<Rightarrow> send_loop (32, 32, 32, 32) False page)],
             fds_all := fds_all st - {client_fd}\<rparr>))"

subsection \<open>Responses of the web server\<close>

text \<open>The status code: \<open>*(tk1 + 12) = 0; webcode = tk1 + 9\<close> in the copy of what was received, where the
  first line starts at \<open>off\<close> and has been terminated by \<open>strtok\<close>.\<close>

definition web_code :: "byte list \<Rightarrow> byte list c_result" where
  "web_code content =
     c_bind (c_str content) (\<lambda>s.
     let off = length (takeWhile (\<lambda>b. b \<in> crlf) s)
     in case strtok_all s of [] \<Rightarrow> Inl Null_deref
        | t # _ \<Rightarrow>
            c_bind (arr_set ((s @ [0])[off + length t := 0]) (int (off + 12)) 0) (\<lambda>b. c_str (drop (off + 9) b)))"

fun expires_line :: "byte list list \<Rightarrow> byte list option" where
  "expires_line [] = None"
| "expires_line (t # ts) = (if has_prefix ''Expires: '' t then Some (drop 9 t) else expires_line ts)"

definition BUFFER_SIZE :: nat where
  "BUFFER_SIZE = 2048000"

text \<open>The receive buffer up to the first zero behind what was received: a chunk that fills the buffer
  leaves it without a terminator.\<close>

definition recv_content :: "byte list \<Rightarrow> byte list" where
  "recv_content chunk = (if length chunk < BUFFER_SIZE then chunk @ [0] else chunk)"

text \<open>The receive loop of \<open>recv_from_srvr\<close>: every chunk arrives in a cleared buffer; the status is taken
  from the first chunk, the expiry date from the first chunk that has one; all bytes are stored.\<close>

fun recv_loop :: "byte list list \<Rightarrow> byte list option \<Rightarrow> byte list option \<Rightarrow> byte list \<Rightarrow>
    (byte list option \<times> byte list option \<times> byte list) c_result" where
  "recv_loop [] code ex stored = Inr (code, ex, stored)"
| "recv_loop (chunk # chunks) code ex stored =
     c_bind (case code of None \<Rightarrow> c_bind (web_code (recv_content chunk)) (\<lambda>w. Inr (Some w)) | Some w \<Rightarrow> Inr (Some w)) (\<lambda>code'.
     c_bind (case ex of None \<Rightarrow> c_bind (c_str (recv_content chunk)) (\<lambda>s. Inr (expires_line (strtok_all s))) | Some e \<Rightarrow> Inr (Some e)) (\<lambda>ex'.
     recv_loop chunks code' ex' (stored @ chunk)))"

text \<open>The cache after a complete response: an entry with the new expiry time goes in front.\<close>

definition store_page :: "int \<Rightarrow> request_info \<Rightarrow> byte list \<Rightarrow> query_cache \<Rightarrow> query_cache c_result option" where
  "store_page condition_flag r stamp q =
     (if condition_flag = 0 \<or> condition_flag = 2
      then map_option (\<lambda>x. c_bind x (qc_enqueue r stamp)) (qc_remove r q)
      else Some (qc_enqueue r stamp q))"

text \<open>
  What the surroundings deliver while one request is handled: the slack above, \<open>strptime\<close> followed by
  \<open>mktime\<close>, the clock (as \<open>mktime\<close> reads it, as stored, and as text), the results of \<open>getaddrinfo\<close>,
  \<open>socket\<close> and \<open>connect\<close>, whether the request could be sent, the chunks the web server answers with, and
  whether the last \<open>recv\<close> failed.
\<close>

record web_env =
  vla_slack :: nat
  http_time :: "byte list \<Rightarrow> int"
  clock :: int
  clock2 :: int
  time_text :: "byte list"
  addr_results :: "(bool \<times> bool) list option"
  send_ok :: bool
  web_chunks :: "byte list list"
  recv_failed :: bool

text \<open>The proxy goes on, or the process has ended with an exit status.\<close>

datatype proxy_end = Running proxy_state | Exited int

text \<open>\<open>remove\<close> of an existing target and \<open>rename\<close> of the temporary file.\<close>

definition replace_file :: "byte list \<Rightarrow> byte list \<Rightarrow> (byte list \<rightharpoonup> byte list) \<Rightarrow> (byte list \<rightharpoonup> byte list)" where
  "replace_file tmp name fs =
     (let fs1 = (if fs name \<noteq> None then fs(name := None) else fs)
      in case fs1 tmp of None \<Rightarrow> fs1 | Some d \<Rightarrow> fs1(tmp := None, name := Some d))"

definition page_expiry :: "(byte list \<Rightarrow> int) \<Rightarrow> byte list option \<Rightarrow> int" where
  "page_expiry time ex = (case ex of None \<Rightarrow> 0 | Some e \<Rightarrow> if e \<noteq> lit ''-1'' then time e else 0)"

definition recv_from_srvr :: "web_env \<Rightarrow> request_info \<Rightarrow> int \<Rightarrow> int \<Rightarrow> proxy_state \<Rightarrow> proxy_end c_result option" where
  "recv_from_srvr e r client_fd condition_flag st =
     (case c_bind (proxy_file_name (vla_slack e) r) (\<lambda>name.
           c_bind (sprintf_into 10 (lit ''tempfile'' @ dec_digits (nat client_fd))) (\<lambda>tmp.
           c_bind (recv_loop (web_chunks e) None None []) (\<lambda>(code, ex, stored).
           Inr (name, tmp, code, ex, stored))))
      of Inl u \<Rightarrow> Some (Inl u)
      | Inr (name, tmp, code, ex, stored) \<Rightarrow>
          let r1 = r\<lparr>expires := page_expiry (http_time e) ex\<rparr>;
              fs1 = (files st)(tmp \<mapsto> stored)
          in if recv_failed e then Some (Inr (Exited 0))
             else case code of None \<Rightarrow> Some (Inl Null_deref)
             | Some webcode \<Rightarrow>
                 map_option (\<lambda>x. c_bind x (\<lambda>q.
                   c_bind (send_to_clnt (vla_slack e) r1 client_fd
                             (st\<lparr>proxy_cache := q, web_conns := web_conns st - 1,
                                 files := if webcode \<noteq> lit ''304'' then replace_file tmp name fs1 else fs1\<rparr>)) (\<lambda>st. Inr (Running st))))
                   (store_page condition_flag r1 (time_text e) (proxy_cache st)))"

definition strip_slash :: "byte list \<Rightarrow> byte list" where
  "strip_slash resrc = (case resrc of b # bs \<Rightarrow> if b = 47 then bs else resrc | [] \<Rightarrow> [])"

text \<open>A request sent on the descriptor \<open>d\<close> that \<open>connect_loop\<close> left, and the answer received: a failing
  \<open>send\<close> ends the process.\<close>

definition ask_web :: "web_env \<Rightarrow> fd \<Rightarrow> byte list \<Rightarrow> request_info \<Rightarrow> int \<Rightarrow> int \<Rightarrow> proxy_state \<Rightarrow> proxy_end c_result option" where
  "ask_web e d msg r client_fd condition_flag st =
     (case d of
        Fd_unset \<Rightarrow> Some (Inl Uninitialised)
      | Fd_open _ \<Rightarrow>
          if send_ok e then recv_from_srvr e r client_fd condition_flag (st\<lparr>requested := requested st @ [msg]\<rparr>)
          else Some (Inr (Exited 1))
      | _ \<Rightarrow> Some (Inr (Exited 1)))"

definition get_request_page :: "web_env \<Rightarrow> request_info \<Rightarrow> int \<Rightarrow> int \<Rightarrow> proxy_state \<Rightarrow> proxy_end c_result option" where
  "get_request_page e r client_fd condition_flag st0 =
     (case addr_results e of None \<Rightarrow> Some (Inr (Exited 1))
      | Some rs \<Rightarrow>
          let d = connect_loop rs 0 Fd_unset;
              st = (case d of Fd_open _ \<Rightarrow> st0\<lparr>web_conns := web_conns st0 + 1\<rparr> | _ \<Rightarrow> st0);
              resrc = strip_slash (resource r)
          in Option.bind (if condition_flag = 0 then qc_is_cache_exist r (proxy_cache st) else Some (Inr False)) (\<lambda>x.
             case x of Inl u \<Rightarrow> Some (Inl u)
             | Inr hit \<Rightarrow>
                 if hit then Some (c_bind (send_to_clnt (vla_slack e) r client_fd st) (\<lambda>st. Inr (Running st)))
                 else
                   case (if condition_flag = 2 then proxy_get_request resrc (address r)
                         else proxy_cond_request resrc (address r) (time_text e)) of
                     Inl u \<Rightarrow> Some (Inl u)
                   | Inr msg \<Rightarrow> ask_web e d msg r client_fd condition_flag st))"

text \<open>What \<open>recv_from_clnt\<close> does with a readable descriptor: a new client is added to the set; \<open>buffer\<close>
  is the receive buffer after a successful \<open>recv\<close>, and \<open>None\<close> stands for the end of the connection or an
  error, which the proxy ignores.\<close>

definition accept_client :: "int \<Rightarrow> proxy_state \<Rightarrow> proxy_end" where
  "accept_client new_fd st =
     (if new_fd = - 1 then Exited 1
      else Running (st\<lparr>fds_all := insert new_fd (fds_all st), proxy_fdmax := max new_fd (proxy_fdmax st)\<rparr>))"

definition handle_client :: "web_env \<Rightarrow> int \<Rightarrow> byte list option \<Rightarrow> proxy_state \<Rightarrow> proxy_end c_result option" where
  "handle_client e i buffer st =
     (case buffer of None \<Rightarrow> Some (Inr (Running st))
      | Some buf \<Rightarrow>
          if has_prefix ''GET'' buf then
            case parse_req buf of Inl u \<Rightarrow> Some (Inl u)
            | Inr r \<Rightarrow>
                Option.bind (qc_check_cache (clock e) (clock2 e) r (proxy_cache st)) (\<lambda>x.
                case x of Inl u \<Rightarrow> Some (Inl u)
                | Inr (condition_flag, q) \<Rightarrow> get_request_page e r i condition_flag (st\<lparr>proxy_cache := q\<rparr>))
          else Some (Inr (Running st)))"

subsection \<open>Removing blanks\<close>

lemma list_update_mid: "(d @ x # ys)[length d := v] = d @ v # ys"
  by (simp add: list_update_append)

lemma nth_mid: "(d @ g @ x # ys) ! (length d + length g) = x"
  by (metis append.assoc length_append nth_append_length)

lemma rm_space_loop_spec:
  "0 \<notin> set s \<Longrightarrow> \<exists>tail. rm_space_loop (d @ g @ s @ 0 # rest) (length d) (length d + length g) =
     Inr (d @ filter (\<lambda>b. b \<noteq> 32) s @ 0 # tail)"
proof (induction s arbitrary: d g)
  case Nil
  have "(d @ g @ 0 # rest)[length d := 0] = d @ 0 # tl (g @ 0 # rest)"
    by (cases g) (simp_all add: list_update_mid)
  then show ?case by (subst rm_space_loop.simps) (simp add: nth_mid arr_set_def)
next
  case (Cons b s)
  let ?t = "(d @ g @ b # s @ 0 # rest)[length d := b]"
  have t: "?t = d @ b # tl (g @ [b]) @ s @ 0 # rest" by (cases g) (simp_all add: list_update_mid)
  have step: "rm_space_loop (d @ g @ (b # s) @ 0 # rest) (length d) (length d + length g) =
      rm_space_loop ?t (if b \<noteq> 32 then length d + 1 else length d) (length d + length g + 1)"
    using Cons.prems by (subst rm_space_loop.simps) (simp add: nth_mid arr_set_def t)
  show ?case
  proof (cases "b = 32")
    case True
    from Cons.IH [of d "b # tl (g @ [b])"] Cons.prems have
      "\<exists>tail. rm_space_loop ?t (length d) (length d + length (b # tl (g @ [b]))) =
         Inr (d @ filter (\<lambda>b. b \<noteq> 32) s @ 0 # tail)" by (simp add: t)
    with True step show ?thesis by simp
  next
    case False
    from Cons.IH [of "d @ [b]" "tl (g @ [b])"] Cons.prems have
      "\<exists>tail. rm_space_loop ?t (length d + 1) (length d + 1 + length (tl (g @ [b]))) =
         Inr (d @ b # filter (\<lambda>b. b \<noteq> 32) s @ 0 # tail)" by (simp add: t)
    with False step show ?thesis by simp
  qed
qed

lemma c_str_zero: "0 \<notin> set s \<Longrightarrow> c_str (s @ 0 # rest) = Inr s"
  by (simp add: c_str_def) (subst takeWhile_append2, auto)

lemma rm_space_str:
  assumes "0 \<notin> set s"
  shows "c_bind (rm_space (s @ 0 # rest)) c_str = Inr (filter (\<lambda>b. b \<noteq> 32) s)"
proof -
  obtain tail where "rm_space (s @ 0 # rest) = Inr (filter (\<lambda>b. b \<noteq> 32) s @ 0 # tail)"
    using rm_space_loop_spec [OF assms, of "[]" "[]" rest] by (auto simp: rm_space_def)
  with assms show ?thesis by (simp add: c_str_zero)
qed

text \<open>\<open>rm_space\<close> ends on every terminated string, stays inside its buffer and leaves exactly
  the characters of the string that are not blanks, in order.\<close>

theorem rm_space_removes_blanks:
  assumes "0 \<notin> set s"
  shows "c_bind (rm_space (s @ 0 # rest)) c_str = Inr (filter (\<lambda>b. b \<noteq> 32) s)"
  by (rule rm_space_str [OF assms])

theorem rm_space_removes_blanks_witness:
  "c_bind (rm_space (lit ''a b  c'' @ [0, 7])) c_str = Inr (lit ''abc'')"
  using rm_space_removes_blanks [of "lit ''a b  c''" "[7]"] by (simp add: lit_def byte_of_char_def)

subsection \<open>Stored pages\<close>

text \<open>What follows the first empty line of a response.\<close>

function body_of :: "byte list \<Rightarrow> byte list" where
  "body_of xs = (if take 4 xs = [13, 10, 13, 10] then drop 4 xs
     else case xs of [] \<Rightarrow> [] | x # ys \<Rightarrow> body_of ys)"
  by pat_completeness auto

termination body_of
  by (relation "measure length") auto

declare body_of.simps [simp del]

lemma send_loop_ready: "send_loop q True bs = bs"
proof (induction bs arbitrary: q)
  case Nil
  then show ?case by (cases q) simp
next
  case (Cons b bs)
  then show ?case by (cases q) simp
qed

lemma body_of_short: "length xs < 4 \<Longrightarrow> body_of xs = []"
proof (induction xs)
  case Nil
  then show ?case by (subst body_of.simps) simp
next
  case (Cons x xs)
  then show ?case by (subst body_of.simps) auto
qed

lemma send_loop_body: "send_loop (c1, c2, c3, c4) False bs = body_of (c4 # c3 # c2 # c1 # bs)"
proof (induction bs arbitrary: c1 c2 c3 c4)
  case Nil
  then show ?case by (subst body_of.simps) (simp add: body_of_short)
next
  case (Cons b bs)
  then show ?case by (subst body_of.simps) (auto simp: send_loop_ready)
qed

lemma send_loop_page: "send_loop (32, 32, 32, 32) False page = body_of page"
proof -
  have "body_of (32 # xs) = body_of xs" for xs by (subst body_of.simps) simp
  then show ?thesis by (simp add: send_loop_body)
qed

subsection \<open>Messages\<close>

text \<open>\<open>generate_req_msg\<close> allocates two bytes less than it prints: every call overruns its block.\<close>

lemma generate_req_msg_overflows: "generate_req_msg host page = Inl Out_of_bounds"
  by (simp add: generate_req_msg_def sprintf_into_def Let_def)

text \<open>The name of the file a page is stored in, when the stack leaves room for the terminator.\<close>

definition file_of :: "request_info \<Rightarrow> byte list" where
  "file_of r = filter (\<lambda>b. b \<noteq> 32) (address r @ map (\<lambda>b. if b = 47 then 95 else b) (resource r))"

lemma proxy_file_name_spec:
  assumes "0 \<notin> set (address r)" and "0 \<notin> set (resource r)"
  shows "proxy_file_name slack r = (if slack = 0 then Inl Out_of_bounds else Inr (file_of r))"
proof -
  have str: "c_str (resource r @ 0 # rest) = Inr (resource r)" for rest using assms(2) by (rule c_str_zero)
  have "0 \<notin> set (address r @ map (\<lambda>b. if b = 47 then 95 else b) (resource r))" using assms by auto
  from rm_space_str [OF this, of "[]"] str [of "[]"] show ?thesis
    by (simp add: proxy_file_name_def c_strcpy_def buf_write_def file_of_def str)
qed

text \<open>A page reaches a client only because of the slack of the stack: \<open>send_to_clnt\<close> writes one
  byte past the array \<open>resource\<close> whenever the array is not followed by an unused byte; if it is, the
  client gets the stored page without its header (or nothing if there is no such file).\<close>

theorem send_to_clnt_spec:
  assumes "0 \<notin> set (address r)" and "0 \<notin> set (resource r)"
  shows "send_to_clnt slack r client_fd st =
    (if slack = 0 then Inl Out_of_bounds
     else Inr (st\<lparr>served := served st @ [(client_fd, case files st (file_of r) of None \<Rightarrow> [] | Some page \<Rightarrow> body_of page)],
                  fds_all := fds_all st - {client_fd}\<rparr>))"
  by (simp add: send_to_clnt_def proxy_file_name_spec [OF assms] send_loop_page cong: option.case_cong)

definition demo_proxy :: "proxy_state" where
  "demo_proxy = \<lparr>proxy_cache = query_cache_new, files = Map.empty, fds_all = {3, 5}, proxy_fdmax = 5,
     web_conns = 0, requested = [], served = []\<rparr>"

theorem send_to_clnt_spec_witness: "send_to_clnt 0 (demo_page 1) 5 demo_proxy = Inl Out_of_bounds"
  using send_to_clnt_spec [of "demo_page 1" 0 5 demo_proxy] by (simp add: demo_page_def)

subsection \<open>Parsing a request\<close>

lemma crlf_mem [simp]: "13 \<in> crlf" "10 \<in> crlf"
  by (simp_all add: crlf_def)

lemma strtok_all_skip: "b \<in> crlf \<Longrightarrow> strtok_all (b # s) = strtok_all s"
  by (subst (1 2) strtok_all.simps) simp

lemma strtok_all_line:
  assumes "t \<noteq> []" and "\<forall>b\<in>set t. b \<notin> crlf"
  shows "strtok_all (t @ 13 # 10 # s) = t # strtok_all s"
proof -
  have d: "dropWhile (\<lambda>b. b \<in> crlf) (t @ 13 # 10 # s) = t @ 13 # 10 # s"
    using assms by (cases t) simp_all
  have k: "takeWhile (\<lambda>b. b \<notin> crlf) (t @ 13 # 10 # s) = t"
    using assms(2) by (subst takeWhile_append2) simp_all
  show ?thesis
    using assms(1) by (subst strtok_all.simps) (simp add: d k strtok_all_skip)
qed

lemma strtok_all_Nil [simp]: "strtok_all [] = []"
  by (subst strtok_all.simps) simp

definition clean :: "byte list \<Rightarrow> bool" where
  "clean s \<longleftrightarrow> (\<forall>b\<in>set s. b \<noteq> 0 \<and> b \<noteq> 13 \<and> b \<noteq> 10)"

text \<open>A request as the client program of this assignment sends it.\<close>

definition client_request :: "byte list \<Rightarrow> byte list \<Rightarrow> byte list" where
  "client_request page host =
     (lit ''GET '' @ page @ lit '' HTTP/1.0'') @ 13 # 10 # (lit ''Host: '' @ host) @ 13 # 10 #
     lit ''User-Agent: HTMLGET 1.0'' @ [13, 10, 13, 10]"

lemma lit_values:
  "lit ''GET '' = [71, 69, 84, 32]" "lit ''GET'' = [71, 69, 84]"
  "lit '' HTTP/1.0'' = [32, 72, 84, 84, 80, 47, 49, 46, 48]" "lit ''Host: '' = [72, 111, 115, 116, 58, 32]"
  "lit ''Host:'' = [72, 111, 115, 116, 58]"
  "lit ''User-Agent: HTMLGET 1.0'' = [85, 115, 101, 114, 45, 65, 103, 101, 110, 116, 58, 32, 72, 84, 77, 76, 71, 69, 84, 32, 49, 46, 48]"
  by (simp_all add: lit_def byte_of_char_def)

text \<open>Behind the request the receive buffer holds what was there before, which is indeterminate or comes from earlier requests. It does no harm if
  there is a terminator somewhere and no line before it looks like a request line or a host line.\<close>

definition harmless :: "byte list \<Rightarrow> bool" where
  "harmless stale \<longleftrightarrow> 0 \<in> set stale \<and>
     (\<forall>l\<in>set (strtok_all (takeWhile (\<lambda>b. b \<noteq> 0) stale)). \<not> has_prefix ''GET'' l \<and> \<not> has_prefix ''Host:'' l)"

lemma harmless_zero [simp]: "harmless (0 # rest)"
  by (simp add: harmless_def)

lemma client_request_lines:
  assumes "clean page" and "clean host"
  shows "strtok_all (client_request page host @ s) =
    [lit ''GET '' @ page @ lit '' HTTP/1.0'', lit ''Host: '' @ host, lit ''User-Agent: HTMLGET 1.0''] @ strtok_all s"
proof -
  have ok: "\<forall>b\<in>set (lit ''GET '' @ page @ lit '' HTTP/1.0''). b \<notin> crlf" "\<forall>b\<in>set (lit ''Host: '' @ host). b \<notin> crlf"
      "\<forall>b\<in>set (lit ''User-Agent: HTMLGET 1.0''). b \<notin> crlf"
    using assms by (auto simp: clean_def crlf_def lit_values)
  have ne: "lit ''GET '' @ page @ lit '' HTTP/1.0'' \<noteq> []" "lit ''Host: '' @ host \<noteq> []" "lit ''User-Agent: HTMLGET 1.0'' \<noteq> []"
    by (simp_all add: lit_values)
  have "strtok_all (13 # 10 # s) = strtok_all s" by (simp add: strtok_all_skip crlf_def)
  then show ?thesis
    unfolding client_request_def
    using strtok_all_line [OF ne(1) ok(1)] strtok_all_line [OF ne(2) ok(2)] strtok_all_line [OF ne(3) ok(3), of "13 # 10 # s"]
    by simp
qed

lemma parse_lines_append: "parse_lines (ls @ ms) ra = c_bind (parse_lines ls ra) (parse_lines ms)"
  by (induction ls ra rule: parse_lines.induct) (simp_all add: Let_def)

lemma parse_lines_other:
  "\<forall>l\<in>set ls. \<not> has_prefix ''GET'' l \<and> \<not> has_prefix ''Host:'' l \<Longrightarrow> parse_lines ls ra = Inr ra"
  by (induction ls ra rule: parse_lines.induct) simp_all

lemma parse_req_client:
  assumes "clean page" and "clean host" and "harmless rest"
  shows "parse_req (client_request page host @ rest) =
    Inr \<lparr>address = filter (\<lambda>b. b \<noteq> 32) host, resource = filter (\<lambda>b. b \<noteq> 32) page, expires = 0, accessed = []\<rparr>"
proof -
  let ?stale = "takeWhile (\<lambda>b. b \<noteq> 0) rest"
  have "0 \<notin> set (client_request page host)"
    using assms by (auto simp: client_request_def clean_def lit_values)
  then have str: "c_str (client_request page host @ rest) = Inr (client_request page host @ ?stale)"
    using assms(3) by (simp add: c_str_def harmless_def) (subst takeWhile_append2, auto)
  have "parse_lines (strtok_all ?stale) ra = Inr ra" for ra
    using assms(3) by (intro parse_lines_other) (simp add: harmless_def)
  then have lines: "parse_lines (strtok_all (client_request page host @ ?stale)) (None, None) = Inr (Some (page @ [32]), Some host)"
    unfolding client_request_lines [OF assms(1,2)] parse_lines_append by (simp add: has_prefix_def lit_values)
  have "0 \<notin> set (page @ [32])" "0 \<notin> set host" using assms by (auto simp: clean_def)
  from rm_space_str [OF this(1), of "[]"] rm_space_str [OF this(2), of "[]"] str lines show ?thesis
    by (auto simp: parse_req_def c_bind_Inr_iff)
qed

text \<open>The proxy understands the requests of the client program: parsing a request for a page
  of a host gives exactly page and host, blanks removed, if what the receive buffer holds behind the request is harmless.\<close>

theorem parse_req_roundtrip:
  assumes "clean page" and "clean host" and "harmless rest"
  shows "parse_req (client_request page host @ rest) =
    Inr \<lparr>address = filter (\<lambda>b. b \<noteq> 32) host, resource = filter (\<lambda>b. b \<noteq> 32) page, expires = 0, accessed = []\<rparr>"
  by (rule parse_req_client [OF assms])

theorem parse_req_roundtrip_witness:
  "parse_req (client_request (lit ''index.html'') (lit ''a.org'') @ [0, 1, 2]) =
    Inr \<lparr>address = lit ''a.org'', resource = lit ''index.html'', expires = 0, accessed = []\<rparr>"
  using parse_req_roundtrip [of "lit ''index.html''" "lit ''a.org''" "[0, 1, 2]"]
  by (simp add: clean_def lit_def byte_of_char_def)

subsection \<open>The proxy, its cache and its files\<close>

text \<open>The request the proxy extracts from a client's message, and the name of the temporary file.\<close>

definition key_of :: "byte list \<Rightarrow> byte list \<Rightarrow> request_info" where
  "key_of page host = \<lparr>address = filter (\<lambda>b. b \<noteq> 32) host, resource = filter (\<lambda>b. b \<noteq> 32) page, expires = 0, accessed = []\<rparr>"

definition tmp_of :: "int \<Rightarrow> byte list" where
  "tmp_of i = lit ''tempfile'' @ dec_digits (nat i)"

definition connected :: "web_env \<Rightarrow> bool" where
  "connected e = (case addr_results e of None \<Rightarrow> False
     | Some rs \<Rightarrow> (case connect_loop rs 0 Fd_unset of Fd_open _ \<Rightarrow> True | _ \<Rightarrow> False))"

text \<open>The web server can be reached and answers with status \<open>code\<close>, the expiry line \<open>ex\<close> and the bytes \<open>pg\<close>.\<close>

definition web_answers :: "web_env \<Rightarrow> byte list \<Rightarrow> byte list option \<Rightarrow> byte list \<Rightarrow> bool" where
  "web_answers e code ex pg \<longleftrightarrow> connected e \<and> send_ok e \<and> \<not> recv_failed e \<and>
     recv_loop (web_chunks e) None None [] = Inr (Some code, ex, pg)"

lemma key_no_zero:
  assumes "clean page" and "clean host"
  shows "0 \<notin> set (address (key_of page host))" "0 \<notin> set (resource (key_of page host))"
  using assms by (auto simp: key_of_def clean_def)

lemma replace_file_tmp: "tmp \<noteq> name \<Longrightarrow> replace_file tmp name (fs(tmp \<mapsto> d)) = fs(tmp := None, name \<mapsto> d)"
  by (auto simp: replace_file_def Let_def fun_eq_iff)

lemma requests_ok:
  "proxy_get_request resrc addr = Inr (get_msg resrc addr (lit ''ECEN602''))"
  "proxy_cond_request resrc addr since = Inr (cond_get_msg resrc addr since)"
  by (simp_all add: proxy_get_request_def proxy_cond_request_def sprintf_into_def get_template_len_def
      cond_template_len_def get_msg_def cond_get_msg_def)

lemma recv_loop_stores:
  "recv_loop chunks code ex stored = Inr (code', ex', pg) \<Longrightarrow> pg = stored @ concat chunks"
  by (induction chunks code ex stored rule: recv_loop.induct) (auto simp: c_bind_Inr_iff)

text \<open>The temporary file's name does not fit for a client descriptor of two digits or more: the
  proxy then prints at least eleven bytes into the ten bytes of \<open>tempstr\<close>, before it has received anything.\<close>

theorem recv_tmp_overflows:
  assumes "0 \<notin> set (address r)" and "0 \<notin> set (resource r)" and "10 \<le> client_fd"
  shows "recv_from_srvr e r client_fd condition_flag st = Some (Inl Out_of_bounds)"
proof -
  have "2 \<le> length (dec_digits (nat client_fd))" using assms(3) by (intro dec_digits_length) simp
  then have "sprintf_into 10 (lit ''tempfile'' @ dec_digits (nat client_fd)) = Inl Out_of_bounds" by (simp add: sprintf_into_def)
  then show ?thesis by (simp add: recv_from_srvr_def proxy_file_name_spec [OF assms(1,2)])
qed

text \<open>After a complete answer the entry is in front of the cache, the file holds the page (the old one if
  the answer was 304), and the client has its body.\<close>

lemma recv_from_srvr_ok:
  assumes rep: "qc_rep (proxy_cache st) ps" and len: "length (if fl = 1 then ps else del_page r ps) < cachesize"
    and fl: "fl \<in> {0, 1, 2}" and i: "0 \<le> i" "i < 10"
    and z: "0 \<notin> set (address r)" "0 \<notin> set (resource r)" and ne: "file_of r \<noteq> tmp_of i"
    and web: "web_answers e code ex pg" and slack: "0 < vla_slack e"
  shows "\<exists>q. recv_from_srvr e r i fl st = Some (Inr (Running (st\<lparr>proxy_cache := q, web_conns := web_conns st - 1,
      files := if code \<noteq> lit ''304'' then (files st)(tmp_of i := None, file_of r \<mapsto> pg) else (files st)(tmp_of i \<mapsto> pg),
      served := served st @ [(i, if code \<noteq> lit ''304'' then body_of pg
        else case files st (file_of r) of None \<Rightarrow> [] | Some old \<Rightarrow> body_of old)],
      fds_all := fds_all st - {i}\<rparr>))) \<and>
    qc_rep q (r\<lparr>expires := page_expiry (http_time e) ex, accessed := time_text e\<rparr> # (if fl = 1 then ps else del_page r ps))"
proof -
  let ?r = "r\<lparr>expires := page_expiry (http_time e) ex\<rparr>"
  have del: "del_page ?r ps = del_page r ps" by (induction ps) (simp_all add: same_page_def)
  obtain q where q: "store_page fl ?r (time_text e) (proxy_cache st) = Some (Inr q)"
      "qc_rep q (?r\<lparr>accessed := time_text e\<rparr> # (if fl = 1 then ps else del_page r ps))"
  proof (cases "fl = 1")
    case True
    with qc.store [OF rep, of ?r "time_text e"] len that show ?thesis by (auto simp: store_page_def)
  next
    case False
    with qc.stored_page [OF rep, of ?r "time_text e"] len fl del that show ?thesis by (auto simp: store_page_def)
  qed
  have w: "\<not> recv_failed e" "recv_loop (web_chunks e) None None [] = Inr (Some code, ex, pg)"
    using web by (auto simp: web_answers_def)
  have tmp: "sprintf_into 10 (tmp_of i) = Inr (tmp_of i)" using i by (simp add: sprintf_into_def tmp_of_def)
  have name: "proxy_file_name (vla_slack e) r = Inr (file_of r)" "proxy_file_name (vla_slack e) ?r = Inr (file_of r)"
    using z slack by (simp_all add: proxy_file_name_spec file_of_def)
  have fs: "replace_file (tmp_of i) (file_of r) ((files st)(tmp_of i \<mapsto> pg)) = (files st)(tmp_of i := None, file_of r \<mapsto> pg)"
    using ne by (simp add: replace_file_tmp)
  have "recv_from_srvr e r i fl st = map_option (\<lambda>x. c_bind x (\<lambda>q.
      c_bind (send_to_clnt (vla_slack e) ?r i (st\<lparr>proxy_cache := q, web_conns := web_conns st - 1,
        files := if code \<noteq> lit ''304'' then (files st)(tmp_of i := None, file_of r \<mapsto> pg) else (files st)(tmp_of i \<mapsto> pg)\<rparr>)) (\<lambda>st. Inr (Running st)))) (store_page fl ?r (time_text e) (proxy_cache st))"
    by (simp add: recv_from_srvr_def name(1) tmp tmp_of_def [symmetric] w fs Let_def)
  with q name(2) ne show ?thesis
    by (auto simp: send_to_clnt_def send_loop_page cong: option.case_cong)
qed

lemma handle_client_ok:
  assumes rep: "qc_rep (proxy_cache st) ps" and cl: "clean page" "clean host" "harmless rest"
  shows "\<exists>q fl. handle_client e i (Some (client_request page host @ rest)) st =
      get_request_page e (key_of page host) i fl (st\<lparr>proxy_cache := q\<rparr>) \<and>
    (case page_at (key_of page host) ps of None \<Rightarrow> fl = 2 \<and> qc_rep q ps
     | Some r \<Rightarrow> if clock e > expires r then fl = 1 \<and> qc_rep q (del_page (key_of page host) ps) else fl = 0 \<and> qc_rep q ps)"
proof -
  have get: "has_prefix ''GET'' (client_request page host @ rest)"
    by (simp add: has_prefix_def client_request_def lit_values)
  from qc.check [OF rep, of "clock e" "clock2 e" "key_of page host"] obtain q where
    "qc_check_cache (clock e) (clock2 e) (key_of page host) (proxy_cache st) =
       Some (Inr (case page_at (key_of page host) ps of None \<Rightarrow> 2 | Some r \<Rightarrow> if clock e > expires r then 1 else 0, q))"
    "qc_rep q (case page_at (key_of page host) ps of None \<Rightarrow> ps
       | Some r \<Rightarrow> if clock e > expires r then del_page (key_of page host) ps else ps)" by blast
  with get parse_req_client [OF cl] show ?thesis
    by (auto simp: handle_client_def key_of_def [symmetric] split: option.splits if_splits)
qed

lemma get_page_web:
  assumes "web_answers e code ex pg" and "fl \<in> {1, 2}"
  shows "get_request_page e r i fl st = recv_from_srvr e r i fl (st\<lparr>web_conns := web_conns st + 1,
    requested := requested st @ [if fl = 2 then get_msg (strip_slash (resource r)) (address r) (lit ''ECEN602'')
      else cond_get_msg (strip_slash (resource r)) (address r) (time_text e)]\<rparr>)"
  using assms
  by (auto simp: web_answers_def connected_def get_request_page_def ask_web_def requests_ok Let_def split: option.splits fd.splits)

lemma miss_fetches:
  assumes "qc_rep (proxy_cache st) ps" and "length ps < cachesize" and "page_at (key_of page host) ps = None"
    and "clean page" and "clean host" and "0 \<le> i" and "i < 10" and "file_of (key_of page host) \<noteq> tmp_of i"
    and "web_answers e code ex pg" and "code \<noteq> lit ''304''" and "harmless rest" and "0 < vla_slack e"
  shows "pg = concat (web_chunks e) \<and>
    (\<exists>q. handle_client e i (Some (client_request page host @ rest)) st = Some (Inr (Running (st\<lparr>
       proxy_cache := q, files := (files st)(tmp_of i := None, file_of (key_of page host) \<mapsto> pg),
       requested := requested st @ [get_msg (strip_slash (resource (key_of page host))) (address (key_of page host)) (lit ''ECEN602'')],
       served := served st @ [(i, body_of pg)], fds_all := fds_all st - {i}\<rparr>))) \<and>
     qc_rep q ((key_of page host)\<lparr>expires := page_expiry (http_time e) ex, accessed := time_text e\<rparr> # ps))"
proof -
  let ?k = "key_of page host"
  from handle_client_ok [OF assms(1,4,5,11), of e i] assms(3) obtain q where
    q: "handle_client e i (Some (client_request page host @ rest)) st = get_request_page e ?k i 2 (st\<lparr>proxy_cache := q\<rparr>)"
    "qc_rep q ps" by auto
  have del: "del_page ?k ps = ps" using assms(3) by (intro del_page_none) (auto simp: page_at_def find_None_iff)
  let ?st = "st\<lparr>proxy_cache := q, web_conns := web_conns st + 1, requested := requested st @
    [get_msg (strip_slash (resource ?k)) (address ?k) (lit ''ECEN602'')]\<rparr>"
  from recv_from_srvr_ok [of ?st ps 2 ?k i e code ex pg] q(2) assms(2,6,7,8,9,12) del key_no_zero [OF assms(4,5)]
  obtain q' where "recv_from_srvr e ?k i 2 ?st = Some (Inr (Running (?st\<lparr>proxy_cache := q', web_conns := web_conns st,
      files := (files st)(tmp_of i := None, file_of ?k \<mapsto> pg), served := served st @ [(i, body_of pg)], fds_all := fds_all st - {i}\<rparr>)))"
    "qc_rep q' (?k\<lparr>expires := page_expiry (http_time e) ex, accessed := time_text e\<rparr> # ps)"
    using assms(10) by auto
  moreover have "pg = concat (web_chunks e)"
    using assms(9) recv_loop_stores [of "web_chunks e" None None "[]"] by (auto simp: web_answers_def)
  moreover have "st\<lparr>requested := rq, proxy_cache := q', files := fs, served := sv, fds_all := fds\<rparr> =
      st\<lparr>proxy_cache := q', files := fs, requested := rq, served := sv, fds_all := fds\<rparr>" for fs sv fds rq
    by (cases st) simp
  ultimately show ?thesis
    using q(1) get_page_web [OF assms(9), of 2] by (intro conjI exI [of _ q']) simp_all
qed

text \<open>A page that is not in the cache is fetched. For a request of the client program, with room
  in the cache, a web server that answers with a status other than 304, and a client descriptor below
  ten, the proxy sends one GET request, stores exactly the bytes of the answer in the page's file,
  puts the page with its expiry time in front of the cache, sends the client the body, and leaves no
  connection to the web server open.\<close>

theorem proxy_miss_fetches:
  assumes "qc_rep (proxy_cache st) ps" and "length ps < cachesize" and "page_at (key_of page host) ps = None"
    and "clean page" and "clean host" and "0 \<le> i" and "i < 10" and "file_of (key_of page host) \<noteq> tmp_of i"
    and "web_answers e code ex pg" and "code \<noteq> lit ''304''" and "harmless rest" and "0 < vla_slack e"
  shows "pg = concat (web_chunks e) \<and>
    (\<exists>q. handle_client e i (Some (client_request page host @ rest)) st = Some (Inr (Running (st\<lparr>
       proxy_cache := q, files := (files st)(tmp_of i := None, file_of (key_of page host) \<mapsto> pg),
       requested := requested st @ [get_msg (strip_slash (resource (key_of page host))) (address (key_of page host)) (lit ''ECEN602'')],
       served := served st @ [(i, body_of pg)], fds_all := fds_all st - {i}\<rparr>))) \<and>
     qc_rep q ((key_of page host)\<lparr>expires := page_expiry (http_time e) ex, accessed := time_text e\<rparr> # ps))"
  by (rule miss_fetches [OF assms])

text \<open>A cached page is served without asking for it again. While the clock has not passed the
  expiry time of the page's entry, the client gets the body of the stored file, nothing is requested,
  and the cache keeps standing for the same pages; but the proxy has connected to the web server all
  the same and never closes that connection.\<close>

theorem proxy_hit_serves:
  assumes "qc_rep (proxy_cache st) ps" and "page_at (key_of page host) ps = Some r" and "clock e \<le> expires r"
    and "clean page" and "clean host" and "0 < vla_slack e" and "addr_results e = Some rs" and "harmless rest"
  shows "\<exists>q. handle_client e i (Some (client_request page host @ rest)) st = Some (Inr (Running (st\<lparr>
      proxy_cache := q, web_conns := web_conns st + (if connected e then 1 else 0),
      served := served st @ [(i, case files st (file_of (key_of page host)) of None \<Rightarrow> [] | Some pg \<Rightarrow> body_of pg)],
      fds_all := fds_all st - {i}\<rparr>))) \<and> qc_rep q ps"
proof -
  let ?k = "key_of page host"
  from handle_client_ok [OF assms(1,4,5,8), of e i] assms(2,3) obtain q where
    q: "handle_client e i (Some (client_request page host @ rest)) st = get_request_page e ?k i 0 (st\<lparr>proxy_cache := q\<rparr>)"
    "qc_rep q ps" by auto
  have hit: "qc_is_cache_exist ?k q = Some (Inr True)" using qc.exist [OF q(2), of ?k] assms(2) by simp
  have "proxy_file_name (vla_slack e) ?k = Inr (file_of ?k)"
    using proxy_file_name_spec [OF key_no_zero [OF assms(4,5)]] assms(6) by simp
  then have "send_to_clnt (vla_slack e) ?k i s = Inr (s\<lparr>served := served s @
      [(i, case files s (file_of ?k) of None \<Rightarrow> [] | Some pg \<Rightarrow> body_of pg)], fds_all := fds_all s - {i}\<rparr>)" for s
    by (simp add: send_to_clnt_def send_loop_page cong: option.case_cong)
  with q hit assms(7) show ?thesis
    by (cases "connect_loop rs 0 Fd_unset") (auto simp: get_request_page_def connected_def Let_def)
qed


text \<open>A web server on one address that answers with a short page which expires at time 5.\<close>

definition demo_head :: "byte list \<Rightarrow> byte list" where
  "demo_head code = lit ''HTTP/1.0 '' @ code @ [13, 10] @ lit ''Expires: x'' @ [13, 10, 13]"

definition demo_env :: "int \<Rightarrow> byte list \<Rightarrow> web_env" where
  "demo_env now code = \<lparr>vla_slack = 4, http_time = (\<lambda>_. 5), clock = now, clock2 = now, time_text = [],
     addr_results = Some [(False, False), (True, True)], send_ok = True,
     web_chunks = [demo_head code, [10, 104, 105]], recv_failed = False\<rparr>"

lemma demo_code:
  "web_code (demo_head (lit ''200'') @ [0]) = Inr (lit ''200'')" "web_code (demo_head (lit ''304'') @ [0]) = Inr (lit ''304'')"
  by code_simp+

lemma demo_expires:
  "c_bind (c_str (demo_head (lit ''200'') @ [0])) (\<lambda>s. Inr (expires_line (strtok_all s))) = Inr (Some [120])"
  "c_bind (c_str (demo_head (lit ''304'') @ [0])) (\<lambda>s. Inr (expires_line (strtok_all s))) = Inr (Some [120])"
  by code_simp+

lemma demo_answers:
  "web_answers (demo_env now (lit ''200'')) (lit ''200'') (Some [120]) (demo_head (lit ''200'') @ [10, 104, 105])"
  "web_answers (demo_env now (lit ''304'')) (lit ''304'') (Some [120]) (demo_head (lit ''304'') @ [10, 104, 105])"
proof -
  have "recv_content (demo_head c) = demo_head c @ [0]" if "length c = 3" for c
    using that by (simp add: recv_content_def BUFFER_SIZE_def demo_head_def)
  then show "web_answers (demo_env now (lit ''200'')) (lit ''200'') (Some [120]) (demo_head (lit ''200'') @ [10, 104, 105])"
    "web_answers (demo_env now (lit ''304'')) (lit ''304'') (Some [120]) (demo_head (lit ''304'') @ [10, 104, 105])"
    by (simp_all add: web_answers_def connected_def demo_env_def demo_code demo_expires)
qed

theorem recv_tmp_overflows_witness:
  "recv_from_srvr (demo_env 0 (lit ''200'')) (demo_page 97) 12 2 demo_proxy = Some (Inl Out_of_bounds)"
  by (rule recv_tmp_overflows) (simp_all add: demo_page_def)

text \<open>A cache that holds the page \<open>/\<close> of the host \<open>a\<close>, and its file.\<close>

definition demo_filled :: "query_cache \<Rightarrow> proxy_state" where
  "demo_filled q = demo_proxy\<lparr>proxy_cache := q, files := [[97, 95] \<mapsto> [13, 10, 13, 10, 111]]\<rparr>"

lemma demo_filled_rep: "\<exists>q. qc_rep (proxy_cache (demo_filled q)) [demo_page 97]"
proof -
  have "qc_rep query_cache_new []" by (simp add: qc_rep_def qc_inv_def query_cache_new_def)
  from qc.store [OF this, of "demo_page 97" "[]"] show ?thesis by (auto simp: cachesize_def demo_filled_def demo_page_def)
qed

lemma demo_filled_page:
  "page_at (key_of [47] [97]) [demo_page 97] = Some (demo_page 97)" "page_at k [] = None" "file_of (key_of [47] [97]) = [97, 95]"
  "clean [47]" "clean [97]" "[97, 95] \<noteq> tmp_of 5"
  "strip_slash (resource (key_of [47] [97])) = []" "address (key_of [47] [97]) = [97]"
  by (simp_all add: page_at_def same_page_def key_of_def demo_page_def file_of_def clean_def tmp_of_def lit_def byte_of_char_def strip_slash_def)

lemma body_of_demo: "body_of (13 # 10 # 13 # 10 # xs) = xs"
  by (subst body_of.simps) simp

theorem proxy_miss_fetches_witness:
  "\<exists>q. handle_client (demo_env 0 (lit ''200'')) 5 (Some (client_request [47] [97] @ [0])) demo_proxy =
     Some (Inr (Running (demo_proxy\<lparr>proxy_cache := q,
       files := (files demo_proxy)(tmp_of 5 := None, [97, 95] \<mapsto> demo_head (lit ''200'') @ [10, 104, 105]),
       requested := requested demo_proxy @ [get_msg [] [97] (lit ''ECEN602'')],
       served := served demo_proxy @ [(5, body_of (demo_head (lit ''200'') @ [10, 104, 105]))],
       fds_all := fds_all demo_proxy - {5}\<rparr>)))"
proof -
  have q: "qc_rep (proxy_cache demo_proxy) []" by (simp add: qc_rep_def qc_inv_def query_cache_new_def demo_proxy_def)
  have "length ([] :: request_info list) < cachesize" "lit ''200'' \<noteq> lit ''304''"
    by (simp_all add: cachesize_def lit_def byte_of_char_def)
  from proxy_miss_fetches [OF q this(1) demo_filled_page(2,4,5) _ _ _ demo_answers(1) [of 0] this(2), where i = 5 and rest = "[0]"]
  show ?thesis by (auto simp: demo_filled_page demo_env_def)
qed

theorem proxy_hit_serves_witness:
  "\<exists>q q'. handle_client (demo_env 4 []) 5 (Some (client_request [47] [97] @ [0])) (demo_filled q) =
     Some (Inr (Running ((demo_filled q)\<lparr>proxy_cache := q', web_conns := 1, served := [(5, [111])], fds_all := {3, 5} - {5}\<rparr>)))"
proof -
  from demo_filled_rep obtain q where q: "qc_rep (proxy_cache (demo_filled q)) [demo_page 97]" by blast
  have "clock (demo_env 4 []) \<le> expires (demo_page 97)" by (simp add: demo_env_def demo_page_def)
  from proxy_hit_serves [OF q demo_filled_page(1) this demo_filled_page(4,5), of "[(False, False), (True, True)]" "[0]" 5]
  show ?thesis
    by (auto simp: demo_filled_page demo_filled_def demo_proxy_def demo_env_def connected_def body_of_demo)
qed


end
