(* ===== verification/Http_Client.thy ===== *)
theory Http_Client
  imports Proxy
begin

section \<open>The web client (ECEN602/assignment4/client.c)\<close>

text \<open>
  The client splits its argument into host and page, sends a request to the proxy and stores what
  comes back. Its buffers hold what the stack held: \<open>Page\<close> is appended to without having been set, so
  its initial contents are an argument. The results of the \<open>read\<close> calls are arguments too, \<open>None\<close> being a
  failure and the empty list the end of the connection.
\<close>

definition hget_buf :: nat where
  "hget_buf = 1000"

text \<open>\<open>strcpy(file_name, strrchr(argv[3], '/') + 1)\<close>.\<close>

definition hget_file_name :: "byte list \<Rightarrow> byte list c_result" where
  "hget_file_name url =
     (if 47 \<in> set url
      then let name = rev (takeWhile (\<lambda>b. b \<noteq> 47) (rev url))
           in if hget_buf \<le> length name then Inl Out_of_bounds else Inr name
      else Inl Null_deref)"

definition hget_host :: "byte list \<Rightarrow> byte list c_result" where
  "hget_host url = (if 47 \<in> set url then Inr (takeWhile (\<lambda>b. b \<noteq> 47) url) else Inl Uninitialised)"

text \<open>The second loop runs at most once: it appends what follows the first slash to \<open>Page\<close>.\<close>

definition hget_page :: "byte list \<Rightarrow> byte list \<Rightarrow> byte list c_result" where
  "hget_page page0 url =
     c_bind (c_str page0) (\<lambda>old.
     let i = length (takeWhile (\<lambda>b. b \<noteq> 47) url)
     in if i + 1 < length url then
          (if length page0 < length old + length (drop (i + 1) url) + 1 then Inl Out_of_bounds
           else Inr (old @ drop (i + 1) url))
        else Inr old)"

definition hget_request :: "byte list \<Rightarrow> byte list \<Rightarrow> byte list c_result" where
  "hget_request page0 url =
     (if hget_buf \<le> length url then Inl Out_of_bounds
      else
        c_bind (hget_file_name url) (\<lambda>name.
        c_bind (hget_host url) (\<lambda>host.
        c_bind (hget_page page0 url) (\<lambda>page.
        sprintf_into hget_buf (client_request page host)))))"

fun hget_recv :: "byte list option list \<Rightarrow> byte list \<Rightarrow> byte list" where
  "hget_recv [] stored = stored"
| "hget_recv (r # rs) stored =
     (case r of None \<Rightarrow> stored | Some chunk \<Rightarrow> if chunk = [] then stored else hget_recv rs (stored @ chunk))"

subsection \<open>Client and proxy together\<close>

lemma hget_request_ok:
  assumes "47 \<notin> set host" and "page \<noteq> []" and "c_str page0 = Inr []" and "length page < length page0"
    and "length host + length page < 900"
  shows "hget_request page0 (host @ 47 # page) = Inr (client_request page host)" "\<exists>n. hget_file_name (host @ 47 # page) = Inr n"
proof -
  let ?url = "host @ 47 # page"
  have tw: "takeWhile (\<lambda>b. b \<noteq> 47) ?url = host" using assms(1) by (subst takeWhile_append2) auto
  have "length (rev (takeWhile (\<lambda>b. b \<noteq> 47) (rev ?url))) \<le> length ?url"
    using length_takeWhile_le [of "\<lambda>b. b \<noteq> 47" "rev ?url"] by simp
  then show name: "\<exists>n. hget_file_name ?url = Inr n" using assms(5) by (simp add: hget_file_name_def hget_buf_def Let_def)
  have host: "hget_host ?url = Inr host" using tw by (simp add: hget_host_def)
  have pg: "hget_page page0 ?url = Inr page"
    using assms(2,3,4) by (simp add: hget_page_def tw Let_def)
  have "length (client_request page host) = 50 + length page + length host"
    by (simp add: client_request_def)
  then have "sprintf_into hget_buf (client_request page host) = Inr (client_request page host)"
    using assms(5) by (simp add: sprintf_into_def hget_buf_def)
  then show "hget_request page0 ?url = Inr (client_request page host)"
    using name host pg assms(5) by (auto simp: hget_request_def hget_buf_def)
qed

lemma filter_blank_id: "32 \<notin> set s \<Longrightarrow> filter (\<lambda>b. b \<noteq> 32) s = s"
  by (auto simp: filter_id_conv)

text \<open>What the user types reaches the proxy: for an argument \<open>host/page\<close> that is not too long
  and a \<open>Page\<close> buffer that happens to start with a zero byte, the request the client sends is parsed by
  the proxy into that page and that host.\<close>

theorem hget_proxy_agree:
  assumes "clean host" and "clean page" and "47 \<notin> set host" and "page \<noteq> []"
    and "32 \<notin> set host" and "32 \<notin> set page"
    and "c_str page0 = Inr []" and "length page < length page0"
    and "length host + length page < 900" and "harmless rest"
  shows "\<exists>msg. hget_request page0 (host @ 47 # page) = Inr msg \<and>
    parse_req (msg @ rest) = Inr \<lparr>address = host, resource = page, expires = 0, accessed = []\<rparr>"
  using hget_request_ok(1) [OF assms(3,4,7,8,9)] parse_req_client [OF assms(2,1,10)]
  by (simp add: filter_blank_id assms(5,6))

theorem hget_proxy_agree_witness:
  "\<exists>msg. hget_request [0, 9, 9] (lit ''a.org/x'') = Inr msg \<and>
    parse_req (msg @ [0]) = Inr \<lparr>address = lit ''a.org'', resource = lit ''x'', expires = 0, accessed = []\<rparr>"
  using hget_proxy_agree [of "lit ''a.org''" "lit ''x''" "[0, 9, 9]" "[0]"]
  by (simp add: clean_def lit_def byte_of_char_def c_str_def)

text \<open>The client stores the bytes of all chunks up to the end of the connection, zero bytes
  included, whatever the sizes of the chunks, and nothing that comes after it.\<close>

theorem hget_recv_stores_all:
  assumes "\<forall>c\<in>set chunks. c \<noteq> []"
  shows "hget_recv (map Some chunks @ Some [] # later) stored = stored @ concat chunks"
  using assms by (induction chunks arbitrary: stored) auto

theorem hget_recv_stores_all_witness: "hget_recv [Some [1, 0], Some [2], Some [], Some [3]] [] = [1, 0, 2]"
  using hget_recv_stores_all [of "[[1, 0], [2]]" "[Some [3]]" "[]"] by simp

end
