(* ===== verification/Web_Programs.thy ===== *)
theory Web_Programs
  imports Http_Client C_Numbers
begin

section \<open>The proxy and the web client as programs (ECEN602/assignment4)\<close>

text \<open>
  The constructor of the proxy, its loop around \<open>select\<close> with all descriptors of a round, its \<open>main\<close>
  (proxy\_main.cpp), and the \<open>main\<close> of the client (client.c). Each system call takes its result from an
  argument.
\<close>

subsection \<open>The proxy\<close>

text \<open>What a round of the loop meets: the descriptors \<open>select\<close> reports, what \<open>recv\<close> leaves in the buffer and
  the surroundings of each client, and the result of \<open>accept\<close>.\<close>

record select_round =
  ready :: "int set"
  round_env :: "int \<Rightarrow> web_env"
  round_recv :: "int \<Rightarrow> byte list option"
  new_client :: int

text \<open>\<open>for (i = 0; i < fdmax + 1; i++)\<close>: a descriptor added on the way is not in \<open>fds_read\<close>, so that the bound
  at the start of the loop serves as well.\<close>

fun proxy_pass :: "int \<Rightarrow> select_round \<Rightarrow> int set \<Rightarrow> int list \<Rightarrow> proxy_state \<Rightarrow> proxy_end c_result option" where
  "proxy_pass sock_fd r fds_read [] st = Some (Inr (Running st))"
| "proxy_pass sock_fd r fds_read (i # is) st =
     (if i \<in> fds_read then
        (case (if sock_fd = i then Some (Inr (accept_client (new_client r) st))
               else handle_client (round_env r i) i (round_recv r i) st) of
           None \<Rightarrow> None
         | Some (Inl u) \<Rightarrow> Some (Inl u)
         | Some (Inr (Exited n)) \<Rightarrow> Some (Inr (Exited n))
         | Some (Inr (Running st')) \<Rightarrow> proxy_pass sock_fd r fds_read is st')
      else proxy_pass sock_fd r fds_read is st)"

text \<open>\<open>None\<close> is a failing \<open>select\<close>: the loop is left and the program ends with status 0.\<close>

fun recv_from_clnt :: "int \<Rightarrow> select_round option list \<Rightarrow> proxy_state \<Rightarrow> proxy_end c_result option" where
  "recv_from_clnt sock_fd [] st = Some (Inr (Running st))"
| "recv_from_clnt sock_fd (None # rs) st = Some (Inr (Exited 0))"
| "recv_from_clnt sock_fd (Some r # rs) st =
     (case proxy_pass sock_fd r (ready r \<inter> fds_all st) [0..proxy_fdmax st] st of
        None \<Rightarrow> None
      | Some (Inl u) \<Rightarrow> Some (Inl u)
      | Some (Inr (Exited n)) \<Rightarrow> Some (Inr (Exited n))
      | Some (Inr (Running st')) \<Rightarrow> recv_from_clnt sock_fd rs st')"



subsection \<open>The client\<close>

record sockaddr_in =
  sin_family :: nat
  sin_port :: "16 word"
  sin_addr :: "32 word"

text \<open>The address is stored by \<open>inet_pton\<close> first, and the structure is cleared afterwards.\<close>

definition hget_sockaddr :: "(byte list \<Rightarrow> 32 word option) \<Rightarrow> byte list \<Rightarrow> 16 word \<Rightarrow> sockaddr_in \<Rightarrow> sockaddr_in" where
  "hget_sockaddr inet_pton ip port serv_addr =
     (let sa1 = (case inet_pton ip of None \<Rightarrow> serv_addr | Some a \<Rightarrow> serv_addr\<lparr>sin_addr := a\<rparr>);
          sa2 = sa1\<lparr>sin_family := 0, sin_port := 0, sin_addr := 0\<rparr>
      in sa2\<lparr>sin_family := 2, sin_port := port\<rparr>)"



text \<open>The address the user gives is lost: whatever it is, the client connects to 0.0.0.0.\<close>

theorem hget_address_lost: "sin_addr (hget_sockaddr inet_pton ip port sa0) = 0"
  by (simp add: hget_sockaddr_def Let_def)

subsection \<open>Rounds of the proxy\<close>


lemma proxy_pass_idle:
  "\<forall>i\<in>R. i \<noteq> sock \<and> round_recv r i = None \<Longrightarrow> proxy_pass sock r R is st = Some (Inr (Running st))"
  by (induction "is") (auto simp: handle_client_def)


text \<open>A client that hangs up is never removed: every later \<open>select\<close> reports it again, and the proxy goes round its loop
  without waiting and without a change of its state.\<close>

theorem proxy_spins_after_hangup:
  assumes "\<forall>r\<in>set rounds. \<forall>i\<in>ready r \<inter> fds_all st. i \<noteq> sock \<and> round_recv r i = None"
  shows "recv_from_clnt sock (map Some rounds) st = Some (Inr (Running st))"
  using assms by (induction rounds) (simp_all add: proxy_pass_idle)

subsection \<open>Client, proxy and web server together\<close>





end
