(* ===== verification/Web_Session.thy ===== *)
theory Web_Session
  imports Web_Programs
begin

section \<open>The proxy over many visits (ECEN602/assignment4)\<close>





definition page_file :: "byte list \<times> byte list \<Rightarrow> byte list" where
  "page_file k = file_of (key_of (snd k) (fst k))"




text \<open>The ideal cache: the keys that are asked for, given those known before.\<close>

fun firsts :: "'a list \<Rightarrow> 'a list \<Rightarrow> 'a list" where
  "firsts seen [] = []"
| "firsts seen (k # ks) = (if k \<in> set seen then firsts seen ks else k # firsts (k # seen) ks)"

fun learn :: "'a list \<Rightarrow> 'a list \<Rightarrow> 'a list" where
  "learn seen [] = seen"
| "learn seen (k # ks) = learn (if k \<in> set seen then seen else k # seen) ks"


lemma learn_append: "learn seen (xs @ ys) = learn (learn seen xs) ys"
  by (induction seen xs rule: firsts.induct) auto

lemma set_learn [simp]: "set (learn seen ks) = set seen \<union> set ks"
  by (induction seen ks rule: firsts.induct) auto





subsection \<open>One visit\<close>



subsection \<open>One round\<close>



subsection \<open>A session\<close>














subsection \<open>Pages that share a file\<close>

text \<open>The name of a page's file has underscores for the slashes, so that two pages of a host can have one file.\<close>

lemma page_file_collides: "page_file (h, p @ 47 # q) = page_file (h, p @ 95 # q)"
  by (simp add: page_file_def file_of_def key_of_def)

text \<open>Then the answer for one page overwrites the other: a client that asks for the older page, which is fresh in the cache,
  gets the body of the newer one.\<close>

theorem proxy_serves_wrong_page:
  assumes "qc_rep (proxy_cache st) ps" and "length ps < cachesize" and "page_at (key_of page host) ps = None"
    and "clean page" and "clean host" and "0 \<le> i" and "i < 10" and "file_of (key_of page host) \<noteq> tmp_of i"
    and "web_answers e code ex pg" and "code \<noteq> lit ''304''"
    and "page_at (key_of page' host') ps = Some r" and "file_of (key_of page' host') = file_of (key_of page host)"
    and "clean page'" and "clean host'" and "clock e' \<le> expires r" and "0 < vla_slack e'" and "addr_results e' = Some rs"
    and "harmless rest" and "0 < vla_slack e" and "harmless rest'"
  shows "\<exists>st' st''. handle_client e i (Some (client_request page host @ rest)) st = Some (Inr (Running st')) \<and>
    handle_client e' i' (Some (client_request page' host' @ rest')) st' = Some (Inr (Running st'')) \<and>
    served st'' = served st @ [(i, body_of pg), (i', body_of pg)]"
proof -
  let ?k = "key_of page host" and ?k' = "key_of page' host'"
  let ?new = "?k\<lparr>expires := page_expiry (http_time e) ex, accessed := time_text e\<rparr>"
  obtain q where q: "handle_client e i (Some (client_request page host @ rest)) st = Some (Inr (Running (st\<lparr>
       proxy_cache := q, files := (files st)(tmp_of i := None, file_of ?k \<mapsto> pg),
       requested := requested st @ [get_msg (strip_slash (resource ?k)) (address ?k) (lit ''ECEN602'')],
       served := served st @ [(i, body_of pg)], fds_all := fds_all st - {i}\<rparr>)))" "qc_rep q (?new # ps)"
    using miss_fetches [OF assms(1-10,18,19)] by blast
  have "\<not> same_page ?new ?k'"
    using assms(3,11) by (auto simp: page_at_def find_None_iff find_Some_iff same_page_def)
  then have "page_at ?k' (?new # ps) = Some r" using assms(11) by (simp add: page_at_def)
  from proxy_hit_serves [OF _ this assms(15,13,14,16,17,20), of "st\<lparr>proxy_cache := q, files := (files st)(tmp_of i := None, file_of ?k \<mapsto> pg),
       requested := requested st @ [get_msg (strip_slash (resource ?k)) (address ?k) (lit ''ECEN602'')],
       served := served st @ [(i, body_of pg)], fds_all := fds_all st - {i}\<rparr>" i'] q(2)
  show ?thesis using q(1) assms(12) by auto
qed

end
