(* ===== verification/Sbcp_Server.thy ===== *)
theory Sbcp_Server
  imports Prelude
begin

section \<open>The chat server (ECEN602/assignment2/server.h, server.cpp)\<close>

text \<open>
  The server of the simple broadcast chat protocol: the table of clients with its count, the set
  \<open>master\<close> of connected descriptors, the messages it builds, and one definition for each event of its
  loop: a new connection, a client that hangs up, an idle notice and a chat message. Writes are
  collected in order as pairs of descriptor and message.

  The table has \<open>max_clnt + 2\<close> slots, of which \<open>sbcp\<close> initialises three; a slot that was never
  initialised is \<open>None\<close>. POSIX leaves \<open>FD_ISSET\<close> undefined for a negative descriptor, which a reset slot
  holds: what the platform makes of it is the argument \<open>neg\<close>, \<open>Inl\<close> for a trap. The array
  \<open>namelist\<close> is appended to without having been set, so its contents are an argument too.
\<close>

definition JOIN :: int where "JOIN = 2"
definition FWD :: int where "FWD = 3"
definition SEND :: int where "SEND = 4"
definition NAK :: int where "NAK = 5"
definition OFFLINE :: int where "OFFLINE = 6"
definition ACK :: int where "ACK = 7"
definition ONLINE :: int where "ONLINE = 8"
definition IDLE :: int where "IDLE = 9"
definition REASON :: int where "REASON = 1"
definition USERNAME :: int where "USERNAME = 2"
definition CLIENT_COUNT :: int where "CLIENT_COUNT = 3"
definition MESSAGE :: int where "MESSAGE = 4"

lemmas sbcp_codes = JOIN_def FWD_def SEND_def NAK_def OFFLINE_def ACK_def ONLINE_def IDLE_def REASON_def
  USERNAME_def CLIENT_COUNT_def MESSAGE_def

record clnt_info =
  username :: "byte list"
  clnt_fd :: int
  status :: byte
  clnt_no :: int

definition clnt_reset :: clnt_info where
  "clnt_reset = \<lparr>username = replicate 16 0, clnt_fd = - 1, status = 85, clnt_no = - 1\<rparr>"

text \<open>An attribute: its type, its length and its 512 bytes of payload. A type or length of \<open>None\<close> was never
  written. The constructor \<open>sbcp_message()\<close> leaves the payload as it was; the model starts from zeros,
  which no operation reads beyond the terminators written later.\<close>

record sbcp_attribute =
  attr_type :: "int option"
  attr_Length :: "16 word option"
  attr_payload :: "byte list"

record sbcp_message =
  Vrsn :: int
  msg_Type :: int
  msg_Length :: "16 word option"
  attr0 :: sbcp_attribute
  attr1 :: sbcp_attribute

definition blank_attr :: sbcp_attribute where
  "blank_attr = \<lparr>attr_type = None, attr_Length = None, attr_payload = replicate 512 0\<rparr>"

definition set_attr :: "int \<Rightarrow> byte list \<Rightarrow> sbcp_attribute c_result" where
  "set_attr ty s = c_bind (c_strcpy (replicate 512 0) (s @ [0])) (\<lambda>p. Inr \<lparr>attr_type = Some ty, attr_Length = None, attr_payload = p\<rparr>)"

text \<open>\<open>strncpy\<close> of at most 512 bytes, the reason of a refusal.\<close>

definition set_attr_n :: "int \<Rightarrow> byte list \<Rightarrow> sbcp_attribute" where
  "set_attr_n ty s = \<lparr>attr_type = Some ty, attr_Length = None, attr_payload = take 512 (s @ replicate 512 0)\<rparr>"

definition mk_message :: "int \<Rightarrow> byte list \<Rightarrow> byte list \<Rightarrow> sbcp_message c_result" where
  "mk_message ty p1 p2 =
     (if ty = JOIN \<or> ty = ONLINE \<or> ty = OFFLINE \<or> ty = IDLE then
        c_bind (set_attr USERNAME p1) (\<lambda>a. Inr \<lparr>Vrsn = 3, msg_Type = ty, msg_Length = None, attr0 = a, attr1 = blank_attr\<rparr>)
      else if ty = SEND then
        c_bind (set_attr MESSAGE p1) (\<lambda>a. Inr \<lparr>Vrsn = 3, msg_Type = ty, msg_Length = None, attr0 = a, attr1 = blank_attr\<rparr>)
      else if ty = FWD then
        c_bind (set_attr USERNAME p1) (\<lambda>a. c_bind (set_attr MESSAGE p2) (\<lambda>b.
        Inr \<lparr>Vrsn = 3, msg_Type = ty, msg_Length = None, attr0 = a, attr1 = b\<rparr>))
      else if ty = ACK then
        c_bind (set_attr CLIENT_COUNT p1) (\<lambda>a. c_bind (set_attr USERNAME p2) (\<lambda>b.
        Inr \<lparr>Vrsn = 3, msg_Type = ty, msg_Length = None, attr0 = a, attr1 = b\<rparr>))
      else if ty = NAK then Inr \<lparr>Vrsn = 3, msg_Type = ty, msg_Length = None, attr0 = set_attr_n REASON p1, attr1 = blank_attr\<rparr>
      else Inl Exit_called)"

definition nullchar :: sbcp_message where
  "nullchar = \<lparr>Vrsn = 3, msg_Type = FWD, msg_Length = None, attr0 = \<lparr>attr_type = Some USERNAME, attr_Length = None, attr_payload = replicate 512 0\<rparr>,
     attr1 = \<lparr>attr_type = Some MESSAGE, attr_Length = None, attr_payload = lit ''N/A'' @ replicate 509 0\<rparr>\<rparr>"

record sbcp_server =
  max_clnt :: int
  clnt_count :: int
  curr_clnt :: "clnt_info option list"
  master :: "int set"
  fdmax :: int
  fwd_msg :: sbcp_message
  writes :: "(int \<times> sbcp_message) list"

definition sbcp_init :: "int \<Rightarrow> int \<Rightarrow> sbcp_server" where
  "sbcp_init max_clnt0 srvr_fd =
     \<lparr>max_clnt = max_clnt0, clnt_count = 0,
      curr_clnt = map (\<lambda>i. if i < 3 then Some clnt_reset else None) [0..<nat (max_clnt0 + 2)],
      master = {srvr_fd}, fdmax = srvr_fd,
      fwd_msg = \<lparr>Vrsn = 3, msg_Type = FWD, msg_Length = None, attr0 = blank_attr, attr1 = blank_attr\<rparr>, writes = []\<rparr>"

text \<open>The constructor: \<open>ai\<close> are, per address of \<open>getaddrinfo\<close>, the result of \<open>socket\<close> and whether \<open>bind\<close>
  succeeded, or \<open>None\<close> if the lookup failed. The three resets at the start of \<open>sbcp\<close> are included; they leave
  the table when it has fewer than three slots.\<close>

fun bind_first :: "(int \<times> bool) list \<Rightarrow> int option" where
  "bind_first [] = None"
| "bind_first ((srvr_fd, bound) # ps) = (if srvr_fd < 0 \<or> \<not> bound then bind_first ps else Some srvr_fd)"

datatype startup = Start_exit int | Started sbcp_server

definition Server_new :: "(int \<times> bool) list option \<Rightarrow> bool \<Rightarrow> int \<Rightarrow> startup c_result" where
  "Server_new ai listen_ok max_clnt0 =
     (case ai of None \<Rightarrow> Inr (Start_exit 1)
      | Some ps \<Rightarrow>
          (case bind_first ps of None \<Rightarrow> Inr (Start_exit 2)
           | Some srvr_fd \<Rightarrow>
               if \<not> listen_ok then Inr (Start_exit 3)
               else if max_clnt0 + 2 < 3 then Inl Out_of_bounds
               else Inr (Started (sbcp_init max_clnt0 srvr_fd))))"

definition slot :: "clnt_info option list \<Rightarrow> int \<Rightarrow> clnt_info c_result" where
  "slot t j = c_bind (arr_get t j) (\<lambda>c. case c of None \<Rightarrow> Inl Uninitialised | Some c \<Rightarrow> Inr c)"

definition fd_isset :: "bool c_result \<Rightarrow> int \<Rightarrow> int set \<Rightarrow> bool c_result" where
  "fd_isset neg d m = (if d < 0 then neg else Inr (d \<in> m))"

text \<open>\<open>for (j = 0; j <= num_of_clnt; j++)\<close>: \<open>js\<close> are the values of \<open>j\<close> still to come.\<close>

fun forward_loop :: "bool c_result \<Rightarrow> sbcp_message \<Rightarrow> int \<Rightarrow> int list \<Rightarrow> sbcp_server \<Rightarrow> sbcp_server c_result" where
  "forward_loop neg m self [] s = Inr s"
| "forward_loop neg m self (j # js) s =
     c_bind (slot (curr_clnt s) j) (\<lambda>c.
     c_bind (fd_isset neg (clnt_fd c) (master s)) (\<lambda>set.
     forward_loop neg m self js
       (if set \<and> clnt_fd c \<noteq> self then s\<lparr>writes := writes s @ [(clnt_fd c, m), (clnt_fd c, nullchar)]\<rparr> else s)))"

definition forward_message :: "bool c_result \<Rightarrow> sbcp_message \<Rightarrow> int \<Rightarrow> int \<Rightarrow> sbcp_server \<Rightarrow> sbcp_server c_result" where
  "forward_message neg m self num_of_clnt s = forward_loop neg m self [0..num_of_clnt] s"

subsection \<open>A new client\<close>

fun name_used :: "byte list \<Rightarrow> int list \<Rightarrow> sbcp_server \<Rightarrow> bool c_result" where
  "name_used name [] s = Inr False"
| "name_used name (i # is) s =
     c_bind (slot (curr_clnt s) i) (\<lambda>c. c_bind (c_str (username c)) (\<lambda>u.
     if u = name then Inr True else name_used name is s))"

text \<open>\<open>payload\<close> is the first attribute of the JOIN message just read.\<close>

definition is_clnt_exist :: "int \<Rightarrow> byte list \<Rightarrow> sbcp_server \<Rightarrow> (bool \<times> sbcp_server) c_result" where
  "is_clnt_exist new_fd payload s =
     c_bind (c_str payload) (\<lambda>name.
     c_bind (name_used name [0..clnt_count s - 1] s) (\<lambda>used.
     if used then Inr (True, s)
     else c_bind (c_strcpy (replicate 16 0) payload) (\<lambda>u.
          c_bind (arr_set (curr_clnt s) (clnt_count s)
                    (Some \<lparr>username = u, clnt_fd = new_fd, status = 79, clnt_no = clnt_count s\<rparr>)) (\<lambda>t.
          Inr (False, s\<lparr>curr_clnt := t\<rparr>)))))"

text \<open>\<open>strcat\<close> of the names into \<open>namelist\<close>, separated by commas and ended by a line feed.\<close>

fun namelist_loop :: "int list \<Rightarrow> byte list \<Rightarrow> sbcp_server \<Rightarrow> byte list c_result" where
  "namelist_loop [] acc s = Inr acc"
| "namelist_loop (i # is) acc s =
     c_bind (slot (curr_clnt s) i) (\<lambda>c. c_bind (c_str (username c)) (\<lambda>u.
     let acc' = acc @ u @ (if i < clnt_count s - 1 then [44, 32] else [10])
     in if 512 \<le> length acc' then Inl Out_of_bounds else namelist_loop is acc' s))"

text \<open>\<open>to_string(clnt_count)\<close>, of a count that is never negative.\<close>

definition count_text :: "int \<Rightarrow> byte list" where
  "count_text n = dec_digits (nat n)"

definition sbcp_admit :: "bool c_result \<Rightarrow> int \<Rightarrow> byte list \<Rightarrow> sbcp_server \<Rightarrow> sbcp_server c_result" where
  "sbcp_admit neg new_fd namelist0 s0 =
     (let s = s0\<lparr>clnt_count := clnt_count s0 + 1\<rparr>
      in c_bind (c_str namelist0) (\<lambda>old.
         c_bind (namelist_loop [0..clnt_count s - 1] old s) (\<lambda>names.
         c_bind (mk_message ACK (count_text (clnt_count s)) names) (\<lambda>ack.
         c_bind (slot (curr_clnt s) (clnt_count s - 1)) (\<lambda>c.
         c_bind (c_str (username c)) (\<lambda>u.
         c_bind (mk_message ONLINE u (lit ''N/A'')) (\<lambda>online.
         forward_message neg online (clnt_fd c) (clnt_count s)
           (s\<lparr>writes := writes s @ [(new_fd, ack), (new_fd, nullchar)]\<rparr>))))))))"

definition sbcp_connect :: "bool c_result \<Rightarrow> int \<Rightarrow> byte list \<Rightarrow> byte list \<Rightarrow> sbcp_server \<Rightarrow> sbcp_server c_result" where
  "sbcp_connect neg new_fd payload namelist0 s =
     (if new_fd = - 1 then Inr s
      else if clnt_count s \<ge> max_clnt s
      then c_bind (mk_message NAK (lit ''Too many users in the chat room!'') (lit ''N/A'')) (\<lambda>nak.
           Inr (s\<lparr>writes := writes s @ [(new_fd, nak), (new_fd, nullchar)]\<rparr>))
      else
        c_bind (is_clnt_exist new_fd payload
                  (s\<lparr>master := insert new_fd (master s), fdmax := max new_fd (fdmax s)\<rparr>)) (\<lambda>(used, s1).
        if \<not> used then sbcp_admit neg new_fd namelist0 s1
        else c_bind (mk_message NAK (lit ''Username already exist!'') (lit ''N/A'')) (\<lambda>nak0.
             let nak = nak0\<lparr>attr0 := (attr0 nak0)\<lparr>attr_Length := Some (of_nat (length ''Username already exist!''))\<rparr>\<rparr>
             in Inr (s1\<lparr>writes := writes s1 @ [(new_fd, nak)], fdmax := fdmax s,
                     master := master s1 - {new_fd}\<rparr>))))"

subsection \<open>A connected client\<close>

text \<open>The loop over the table when client \<open>i\<close> hangs up; its bound \<open>clnt_count\<close> shrinks on the way.\<close>

fun hangup_loop :: "bool c_result \<Rightarrow> int \<Rightarrow> nat \<Rightarrow> int \<Rightarrow> sbcp_server \<Rightarrow> sbcp_server c_result" where
  "hangup_loop neg i 0 k s = Inr s"
| "hangup_loop neg i (Suc fuel) k s =
     (if k < clnt_count s then
        c_bind (slot (curr_clnt s) k) (\<lambda>c.
        if clnt_fd c = i then
          c_bind (c_str (username c)) (\<lambda>u.
          c_bind (mk_message OFFLINE u (lit ''N/A'')) (\<lambda>off.
          c_bind (forward_message neg off (clnt_fd c) (clnt_count s) s) (\<lambda>s1.
          c_bind (arr_set (curr_clnt s1) k (Some clnt_reset)) (\<lambda>t.
          hangup_loop neg i fuel (k + 1) (s1\<lparr>curr_clnt := t, clnt_count := clnt_count s1 - 1\<rparr>)))))
        else hangup_loop neg i fuel (k + 1) s)
      else Inr s)"

definition sbcp_hangup :: "bool c_result \<Rightarrow> int \<Rightarrow> sbcp_server \<Rightarrow> sbcp_server c_result" where
  "sbcp_hangup neg i s =
     c_bind (hangup_loop neg i (nat (clnt_count s)) 0 s) (\<lambda>s1. Inr (s1\<lparr>master := master s1 - {i}\<rparr>))"

fun idle_loop :: "bool c_result \<Rightarrow> int \<Rightarrow> int list \<Rightarrow> sbcp_server \<Rightarrow> sbcp_server c_result" where
  "idle_loop neg i [] s = Inr s"
| "idle_loop neg i (k # ks) s =
     c_bind (slot (curr_clnt s) k) (\<lambda>c.
     c_bind (if clnt_fd c = i then
               c_bind (c_str (username c)) (\<lambda>u. c_bind (mk_message IDLE u (lit ''N/A'')) (\<lambda>m.
               forward_message neg m i (clnt_count s) s))
             else Inr s) (\<lambda>s. idle_loop neg i ks s))"

text \<open>The loop that looks up the sender's name for a chat message: it stays as it was if the sender is
  not found.\<close>

fun sender_loop :: "int \<Rightarrow> int list \<Rightarrow> sbcp_server \<Rightarrow> sbcp_server c_result" where
  "sender_loop i [] s = Inr s"
| "sender_loop i (k # ks) s =
     c_bind (slot (curr_clnt s) k) (\<lambda>c.
     if clnt_fd c = i then
       c_bind (c_strcpy (attr_payload (attr0 (fwd_msg s))) (username c)) (\<lambda>p.
       sender_loop i ks (s\<lparr>fwd_msg := (fwd_msg s)\<lparr>attr0 := (attr0 (fwd_msg s))\<lparr>attr_payload := p\<rparr>\<rparr>\<rparr>))
     else sender_loop i ks s)"

definition sbcp_chat :: "bool c_result \<Rightarrow> int \<Rightarrow> byte list \<Rightarrow> sbcp_server \<Rightarrow> sbcp_server c_result" where
  "sbcp_chat neg i payload s0 =
     (let s = s0\<lparr>fwd_msg := (fwd_msg s0)\<lparr>Vrsn := 3, msg_Type := FWD,
                   attr0 := (attr0 (fwd_msg s0))\<lparr>attr_type := Some USERNAME\<rparr>,
                   attr1 := (attr1 (fwd_msg s0))\<lparr>attr_type := Some MESSAGE\<rparr>\<rparr>\<rparr>
      in c_bind (sender_loop i [0..clnt_count s - 1] s) (\<lambda>s.
         c_bind (c_strcpy (attr_payload (attr1 (fwd_msg s))) payload) (\<lambda>p.
         let s = s\<lparr>fwd_msg := (fwd_msg s)\<lparr>attr1 := (attr1 (fwd_msg s))\<lparr>attr_payload := p\<rparr>\<rparr>\<rparr>
         in forward_message neg (fwd_msg s) i (clnt_count s) s)))"

text \<open>What \<open>read\<close> delivers from client \<open>i\<close>: the end of the connection, an error, or a message with its
  type and its first payload.\<close>

datatype sbcp_input = Hung_up | Read_error | Got_message int "byte list"

definition sbcp_data :: "bool c_result \<Rightarrow> int \<Rightarrow> sbcp_input \<Rightarrow> sbcp_server \<Rightarrow> sbcp_server c_result" where
  "sbcp_data neg i inp s =
     (case inp of
        Hung_up \<Rightarrow> sbcp_hangup neg i s
      | Read_error \<Rightarrow> Inr (s\<lparr>master := master s - {i}\<rparr>)
      | Got_message ty payload \<Rightarrow>
          if ty = IDLE then idle_loop neg i [0..clnt_count s - 1] s else sbcp_chat neg i payload s)"

text \<open>The loop of \<open>sbcp\<close>: the readable descriptors are handled one after the other; the listening socket
  brings a new client (its descriptor, its JOIN payload and what \<open>namelist\<close> held), any other one what
  \<open>read\<close> delivers.\<close>

datatype sbcp_event = New_client int "byte list" "byte list" | From_client int sbcp_input

fun sbcp_run :: "bool c_result \<Rightarrow> sbcp_event list \<Rightarrow> sbcp_server \<Rightarrow> sbcp_server c_result" where
  "sbcp_run neg [] s = Inr s"
| "sbcp_run neg (ev # evs) s =
     c_bind (case ev of New_client new_fd payload namelist0 \<Rightarrow> sbcp_connect neg new_fd payload namelist0 s
             | From_client i inp \<Rightarrow> sbcp_data neg i inp s) (sbcp_run neg evs)"

subsection \<open>The clients of a chat room\<close>

definition uname :: "clnt_info \<Rightarrow> byte list" where
  "uname c = takeWhile (\<lambda>b. b \<noteq> 0) (username c)"

text \<open>The clients \<open>cs\<close> fill the first slots of the table, with distinct names and connected descriptors.\<close>

definition room :: "sbcp_server \<Rightarrow> clnt_info list \<Rightarrow> bool" where
  "room s cs \<longleftrightarrow> clnt_count s = int (length cs) \<and> length cs < length (curr_clnt s) \<and>
     take (length cs) (curr_clnt s) = map Some cs \<and>
     (\<forall>c\<in>set cs. 0 \<le> clnt_fd c \<and> clnt_fd c \<in> master s \<and> length (username c) = 16 \<and> 0 \<in> set (username c)) \<and>
     distinct (map clnt_fd cs) \<and> distinct (map uname cs)"

lemma upto_map_int_Suc: "[0..int n] = map int [0..<n] @ [int n]"
  using upto_map_int [of "Suc n"] by simp

lemma room_slot: "room s cs \<Longrightarrow> j < length cs \<Longrightarrow> slot (curr_clnt s) (int j) = Inr (cs ! j)"
proof -
  assume r: "room s cs" "j < length cs"
  then have "curr_clnt s ! j = Some (cs ! j)"
    by (metis room_def nth_map nth_take)
  with r show ?thesis by (auto simp: slot_def arr_get_def room_def)
qed

lemma c_str_username: "0 \<in> set (username c) \<Longrightarrow> c_str (username c) = Inr (uname c)"
  by (simp add: c_str_def uname_def)

text \<open>A message and the empty message that pushes it, to every client but \<open>self\<close>.\<close>

definition broadcast :: "sbcp_message \<Rightarrow> int \<Rightarrow> clnt_info list \<Rightarrow> (int \<times> sbcp_message) list" where
  "broadcast m self cs = concat (map (\<lambda>c. [(clnt_fd c, m), (clnt_fd c, nullchar)]) (filter (\<lambda>c. clnt_fd c \<noteq> self) cs))"

lemma forward_loop_clients:
  assumes "\<And>j. j \<in> set js \<Longrightarrow> slot (curr_clnt s) j = Inr (f j) \<and> 0 \<le> clnt_fd (f j) \<and> clnt_fd (f j) \<in> master s"
  shows "forward_loop neg m self (js @ ks) s =
    forward_loop neg m self ks (s\<lparr>writes := writes s @ broadcast m self (map f js)\<rparr>)"
  using assms
proof (induction js arbitrary: s)
  case Nil
  then show ?case by (simp add: broadcast_def)
next
  case (Cons j js)
  have j: "slot (curr_clnt s) j = Inr (f j)" "fd_isset neg (clnt_fd (f j)) (master s) = Inr True"
    using Cons.prems [of j] by (auto simp: fd_isset_def)
  let ?s = "if clnt_fd (f j) \<noteq> self then s\<lparr>writes := writes s @ [(clnt_fd (f j), m), (clnt_fd (f j), nullchar)]\<rparr> else s"
  have "forward_loop neg m self ((j # js) @ ks) s = forward_loop neg m self (js @ ks) ?s" using j by simp
  also have "\<dots> = forward_loop neg m self ks (?s\<lparr>writes := writes ?s @ broadcast m self (map f js)\<rparr>)"
    using Cons.prems by (intro Cons.IH) simp
  finally show ?case by (simp add: broadcast_def)
qed

lemma forward_message_room:
  assumes "room s cs"
  shows "forward_message neg m self (clnt_count s) s =
    forward_loop neg m self [clnt_count s] (s\<lparr>writes := writes s @ broadcast m self cs\<rparr>)"
proof -
  have n: "clnt_count s = int (length cs)" using assms by (simp add: room_def)
  have "forward_loop neg m self (map int [0..<length cs] @ [int (length cs)]) s =
      forward_loop neg m self [int (length cs)] (s\<lparr>writes := writes s @ broadcast m self (map (\<lambda>j. cs ! nat j) (map int [0..<length cs]))\<rparr>)"
    using assms room_slot [OF assms] by (intro forward_loop_clients) (auto simp: room_def)
  moreover have "map (\<lambda>j. cs ! nat j) (map int [0..<length cs]) = cs" by (simp add: o_def map_nth)
  ultimately show ?thesis by (simp only: forward_message_def n upto_map_int_Suc)
qed

text \<open>The slot behind the last client was reset and never used.\<close>

definition next_reset :: "sbcp_server \<Rightarrow> bool" where
  "next_reset s \<longleftrightarrow> slot (curr_clnt s) (clnt_count s) = Inr clnt_reset"

text \<open>The loop runs one slot too far: if \<open>FD_ISSET\<close> says yes to the descriptor -1 of that slot, it also writes to this descriptor.\<close>

definition stray :: "bool \<Rightarrow> sbcp_message \<Rightarrow> (int \<times> sbcp_message) list" where
  "stray z m = (if z then [(- 1, m), (- 1, nullchar)] else [])"

lemma forward_message_ok:
  "room s cs \<Longrightarrow> next_reset s \<Longrightarrow> 0 \<le> self \<Longrightarrow>
     forward_message (Inr z) m self (clnt_count s) s = Inr (s\<lparr>writes := writes s @ broadcast m self cs @ stray z m\<rparr>)"
  by (simp add: forward_message_room next_reset_def fd_isset_def clnt_reset_def stray_def)

lemma room_fd_nonneg: "room s cs \<Longrightarrow> c \<in> set cs \<Longrightarrow> 0 \<le> clnt_fd c"
  by (simp add: room_def)

text \<open>A forwarded message goes to each other client of the room exactly once, in table order and
  followed by an empty message, and nothing else changes. The loop runs one slot too far, so that what
  \<open>FD_ISSET\<close> makes of the descriptor -1 of the reset slot behind the last client decides about the rest:
  a trap ends the server, and a yes makes it write to the descriptor -1.\<close>

theorem forward_message_spec:
  assumes "room s cs" and "next_reset s"
  shows "forward_message neg m self (clnt_count s) s = c_bind neg (\<lambda>set.
    Inr (s\<lparr>writes := writes s @ broadcast m self cs @ (if set \<and> self \<noteq> - 1 then [(- 1, m), (- 1, nullchar)] else [])\<rparr>))"
  using assms by (cases neg) (auto simp: forward_message_room next_reset_def fd_isset_def clnt_reset_def)

definition demo_clnt :: "byte \<Rightarrow> int \<Rightarrow> int \<Rightarrow> clnt_info" where
  "demo_clnt b d k = \<lparr>username = b # 0 # replicate 14 0, clnt_fd = d, status = 79, clnt_no = k\<rparr>"

definition demo_room :: sbcp_server where
  "demo_room = (sbcp_init 2 3)\<lparr>clnt_count := 2, curr_clnt := [Some (demo_clnt 65 4 0), Some (demo_clnt 66 5 1), Some clnt_reset, None],
     master := {3, 4, 5}, fdmax := 5\<rparr>"

lemma demo_room_facts: "room demo_room [demo_clnt 65 4 0, demo_clnt 66 5 1]" "next_reset demo_room"
  by (simp_all add: room_def demo_room_def sbcp_init_def demo_clnt_def uname_def next_reset_def slot_def arr_get_def)

theorem forward_message_spec_witness:
  "forward_message (Inr False) nullchar 4 2 demo_room = Inr (demo_room\<lparr>writes := [(5, nullchar), (5, nullchar)]\<rparr>)"
  using forward_message_spec [OF demo_room_facts, of "Inr False" nullchar 4]
  by (simp add: demo_room_def sbcp_init_def broadcast_def demo_clnt_def)

subsection \<open>Chat messages\<close>

lemma sender_loop_skip:
  assumes "\<And>k. k \<in> set ks \<Longrightarrow> \<exists>c. slot (curr_clnt s) k = Inr c \<and> clnt_fd c \<noteq> i"
  shows "sender_loop i (ks @ ls) s = sender_loop i ls s"
  using assms by (induction ks) fastforce+

definition with_sender :: "byte list \<Rightarrow> sbcp_server \<Rightarrow> sbcp_server" where
  "with_sender p s = s\<lparr>fwd_msg := (fwd_msg s)\<lparr>attr0 := (attr0 (fwd_msg s))\<lparr>attr_payload := p\<rparr>\<rparr>\<rparr>"

lemma sender_loop_room:
  assumes "room s cs" and "j < length cs"
    and "c_strcpy (attr_payload (attr0 (fwd_msg s))) (username (cs ! j)) = Inr p"
  shows "sender_loop (clnt_fd (cs ! j)) [0..clnt_count s - 1] s = Inr (with_sender p s)"
proof -
  have d: "k < length cs \<Longrightarrow> k \<noteq> j \<Longrightarrow> clnt_fd (cs ! k) \<noteq> clnt_fd (cs ! j)" for k
    using assms(1,2) by (auto simp: room_def distinct_conv_nth)
  have sl: "k < length cs \<Longrightarrow> slot (curr_clnt s) (int k) = Inr (cs ! k)" for k
    using room_slot [OF assms(1)] by simp
  have "[0..<length cs] = [0..<j] @ j # [Suc j..<length cs]"
    using assms(2) upt_add_eq_append [of 0 j "length cs - j"] by (simp add: upt_conv_Cons del: upt_Suc)
  then have ks: "[0..clnt_count s - 1] = map int [0..<j] @ int j # map int [Suc j..<length cs] @ []"
    using assms(1) by (simp add: room_def upto_map_int del: upto.simps upt_Suc)
  have "sender_loop (clnt_fd (cs ! j)) (map int [0..<j] @ int j # map int [Suc j..<length cs] @ []) s =
      sender_loop (clnt_fd (cs ! j)) (int j # map int [Suc j..<length cs] @ []) s"
    using assms(2) d sl by (intro sender_loop_skip) auto
  also have "\<dots> = sender_loop (clnt_fd (cs ! j)) (map int [Suc j..<length cs] @ []) (with_sender p s)"
    using assms(2,3) sl [of j] by (simp add: with_sender_def)
  also have "\<dots> = Inr (with_sender p s)"
    using d sl by (subst sender_loop_skip) (auto simp: with_sender_def)
  finally show ?thesis by (simp only: ks)
qed

text \<open>The string of a payload buffer.\<close>

definition text_of :: "byte list \<Rightarrow> byte list" where
  "text_of p = takeWhile (\<lambda>b. b \<noteq> 0) p"

definition carries :: "byte list \<Rightarrow> byte list \<Rightarrow> sbcp_message \<Rightarrow> bool" where
  "carries name txt m \<longleftrightarrow> msg_Type m = FWD \<and> attr_type (attr0 m) = Some USERNAME \<and> attr_type (attr1 m) = Some MESSAGE \<and>
     text_of (attr_payload (attr0 m)) = name \<and> text_of (attr_payload (attr1 m)) = txt"

lemma c_strcpy_text:
  assumes "0 \<in> set src" and "length src \<le> length dst"
  shows "\<exists>p. c_strcpy dst src = Inr p \<and> text_of p = text_of src \<and> length p = length dst \<and> 0 \<in> set p"
proof -
  let ?s = "takeWhile (\<lambda>b. b \<noteq> 0) src"
  have "length ?s < length src" using assms(1) by (induction src) auto
  then have fit: "length (?s @ [0]) \<le> length dst" using assms(2) by simp
  have "takeWhile (\<lambda>b. b \<noteq> 0) (?s @ 0 # rest) = ?s" for rest
    by (subst takeWhile_append2) (auto dest: set_takeWhileD)
  with fit assms(1) show ?thesis by (simp add: c_strcpy_def c_str_def buf_write_def text_of_def)
qed

lemma chat_message:
  assumes "room s cs" and "next_reset s" and "c \<in> set cs" and "ty \<noteq> IDLE"
    and "0 \<in> set payload" and "length payload = 512"
    and "length (attr_payload (attr0 (fwd_msg s))) = 512" and "length (attr_payload (attr1 (fwd_msg s))) = 512"
  shows "\<exists>m s'. sbcp_data (Inr z) (clnt_fd c) (Got_message ty payload) s = Inr s' \<and>
    carries (uname c) (text_of payload) m \<and> writes s' = writes s @ broadcast m (clnt_fd c) cs @ stray z m \<and> room s' cs \<and>
    Vrsn m = 3 \<and> c_str (attr_payload (attr0 m)) = Inr (uname c) \<and> c_str (attr_payload (attr1 m)) = Inr (text_of payload) \<and>
    next_reset s' \<and> length (attr_payload (attr0 (fwd_msg s'))) = 512 \<and> length (attr_payload (attr1 (fwd_msg s'))) = 512"
proof -
  obtain j where j: "j < length cs" "cs ! j = c" using assms(3) by (auto simp: in_set_conv_nth)
  define s1 where "s1 = s\<lparr>fwd_msg := (fwd_msg s)\<lparr>Vrsn := 3, msg_Type := FWD,
    attr0 := (attr0 (fwd_msg s))\<lparr>attr_type := Some USERNAME\<rparr>,
    attr1 := (attr1 (fwd_msg s))\<lparr>attr_type := Some MESSAGE\<rparr>\<rparr>\<rparr>"
  have r1: "room s1 cs" using assms(1) by (simp add: room_def s1_def)
  have "0 \<in> set (username c)" "length (username c) = 16" using assms(1,3) by (auto simp: room_def)
  then obtain p where p: "c_strcpy (attr_payload (attr0 (fwd_msg s1))) (username (cs ! j)) = Inr p" "text_of p = uname c" "0 \<in> set p" "length p = 512"
    using c_strcpy_text [of "username c" "attr_payload (attr0 (fwd_msg s))"] assms(7) j(2)
    by (auto simp: s1_def text_of_def uname_def)
  obtain t where t: "c_strcpy (attr_payload (attr1 (fwd_msg s))) payload = Inr t" "text_of t = text_of payload" "0 \<in> set t" "length t = 512"
    using c_strcpy_text [of payload "attr_payload (attr1 (fwd_msg s))"] assms(5,6,8) by auto
  define s2 where "s2 = (with_sender p s1)\<lparr>fwd_msg := (fwd_msg (with_sender p s1))\<lparr>attr1 :=
    (attr1 (fwd_msg (with_sender p s1)))\<lparr>attr_payload := t\<rparr>\<rparr>\<rparr>"
  have r2: "room s2 cs" and n2: "next_reset s2" using assms(1,2)
    by (simp_all add: room_def next_reset_def s2_def with_sender_def s1_def)
  have c2: "clnt_count s2 = clnt_count s" by (simp add: s2_def with_sender_def s1_def)
  have "sbcp_data (Inr z) (clnt_fd c) (Got_message ty payload) s =
      forward_message (Inr z) (fwd_msg s2) (clnt_fd c) (clnt_count s2) s2"
    using sender_loop_room [OF r1 j(1) p(1)] t(1) assms(4) j(2)
    by (simp add: sbcp_data_def sbcp_chat_def s1_def s2_def with_sender_def Let_def)
  also have "\<dots> = Inr (s2\<lparr>writes := writes s2 @ broadcast (fwd_msg s2) (clnt_fd c) cs @ stray z (fwd_msg s2)\<rparr>)"
    using forward_message_ok [OF r2 n2 room_fd_nonneg [OF r2 assms(3)]] .
  finally show ?thesis
    using r2 n2 p(2-4) t(2-4) by (intro exI [of _ "fwd_msg s2"])
      (auto simp: carries_def next_reset_def s2_def with_sender_def s1_def room_def c_str_def text_of_def)
qed

subsection \<open>Joining\<close>

lemma name_used_room:
  assumes "room s cs"
  shows "name_used name [0..clnt_count s - 1] s = Inr (name \<in> uname ` set cs)"
proof -
  have "name_used name (map int js) s = Inr (\<exists>j\<in>set js. uname (cs ! j) = name)" if "\<forall>j\<in>set js. j < length cs" for js
    using that
  proof (induction js)
    case Nil
    then show ?case by simp
  next
    case (Cons j js)
    have "c_str (username (cs ! j)) = Inr (uname (cs ! j))"
      using assms Cons.prems by (intro c_str_username) (auto simp: room_def)
    with Cons room_slot [OF assms, of j] show ?case by simp
  qed
  from this [of "[0..<length cs]"] have "name_used name (map int [0..<length cs]) s = Inr (\<exists>j\<in>set [0..<length cs]. uname (cs ! j) = name)"
    by simp
  moreover have "(\<exists>j\<in>set [0..<length cs]. uname (cs ! j) = name) \<longleftrightarrow> name \<in> uname ` set cs"
    by (force simp: in_set_conv_nth)
  moreover have "clnt_count s = int (length cs)" using assms by (simp add: room_def)
  ultimately show ?thesis by (simp only: upto_map_int)
qed

definition names_text :: "clnt_info list \<Rightarrow> byte list" where
  "names_text cs = concat (map (\<lambda>j. uname (cs ! j) @ (if j < length cs - 1 then [44, 32] else [10])) [0..<length cs])"

lemma namelist_loop_room:
  assumes "room s cs" and "length (names_text cs) < 512"
  shows "namelist_loop [0..clnt_count s - 1] [] s = Inr (names_text cs)"
proof -
  let ?f = "\<lambda>j. uname (cs ! j) @ (if j < length cs - 1 then [44, 32] else [10])"
  have n: "clnt_count s = int (length cs)" using assms by (simp add: room_def)
  have "namelist_loop (map int js) acc s = Inr (acc @ concat (map ?f js))"
    if "\<forall>j\<in>set js. j < length cs" "length acc + length (concat (map ?f js)) < 512" for js acc
    using that
  proof (induction js arbitrary: acc)
    case Nil
    then show ?case by simp
  next
    case (Cons j js)
    have "c_str (username (cs ! j)) = Inr (uname (cs ! j))"
      using assms(1) Cons.prems(1) by (intro c_str_username) (auto simp: room_def)
    moreover have "(int j < clnt_count s - 1) = (j < length cs - 1)" using n Cons.prems(1) by auto
    ultimately show ?case using Cons.IH [of "acc @ ?f j"] Cons.prems room_slot [OF assms(1), of j]
      by (simp add: Let_def)
  qed
  from this [of "[0..<length cs]" "[]"] assms(2) show ?thesis by (simp only: n upto_map_int) (simp add: names_text_def)
qed

lemma set_attr_ok:
  assumes "0 \<notin> set txt" and "length txt < 512"
  shows "\<exists>a. set_attr ty txt = Inr a \<and> attr_type a = Some ty \<and> text_of (attr_payload a) = txt"
proof -
  have e: "c_str (txt @ [0]) = Inr txt" using assms(1) by (simp add: c_str_def) (subst takeWhile_append2, auto)
  have "takeWhile (\<lambda>b. b \<noteq> 0) (txt @ 0 # rest) = txt" for rest using assms(1) by (subst takeWhile_append2) auto
  with e assms(2) show ?thesis by (simp add: set_attr_def c_strcpy_def buf_write_def text_of_def)
qed

lemma uname_no_zero: "0 \<notin> set (uname c)"
  by (auto simp: uname_def dest: set_takeWhileD)

lemma names_text_no_zero: "0 \<notin> set (names_text cs)"
  using uname_no_zero by (auto simp: names_text_def split: if_splits)

lemma strcpy_buffer:
  assumes "c_strcpy (replicate n 0) src = Inr p" and "c_str src = Inr txt" and "length txt < n"
  shows "length p = n \<and> 0 \<in> set p \<and> takeWhile (\<lambda>b. b \<noteq> 0) p = txt"
proof -
  have "0 \<notin> set txt" using assms(2) by (auto simp: c_str_def dest: set_takeWhileD split: if_splits)
  then have "takeWhile (\<lambda>b. b \<noteq> 0) (txt @ 0 # rest) = txt" for rest by (subst takeWhile_append2) auto
  with assms show ?thesis by (auto simp: c_strcpy_def buf_write_def)
qed

lemma set_count_ok: "m < 1000 \<Longrightarrow> \<exists>a. set_attr ty (count_text m) = Inr a"
  using set_attr_ok [OF dec_digits_no_zero, of "nat m" ty] dec_digits_bound [of "nat m" 3] by (fastforce simp: count_text_def)

lemma names_text_length: "length cs \<le> length (names_text cs)"
proof -
  have "(\<And>x. x \<in> set xs \<Longrightarrow> f x \<noteq> []) \<Longrightarrow> length xs \<le> length (concat (map f xs))" for xs :: "nat list" and f :: "nat \<Rightarrow> byte list"
  proof (induction xs)
    case (Cons x xs)
    then have "1 \<le> length (f x)" by (simp add: Suc_le_eq)
    moreover have "length xs \<le> length (concat (map f xs))" using Cons by simp
    ultimately show ?case by simp
  qed simp
  from this [of "[0..<length cs]"] show ?thesis by (simp add: names_text_def)
qed

lemma ack_message:
  assumes "0 \<le> k" and "k < 512" and "length (names_text cs) < 512"
  shows "\<exists>ack. mk_message ACK (count_text (k + 1)) (names_text cs) = Inr ack \<and> msg_Type ack = ACK \<and>
    text_of (attr_payload (attr1 ack)) = names_text cs"
  using set_count_ok [of "k + 1" CLIENT_COUNT] set_attr_ok [OF names_text_no_zero assms(3), of USERNAME] assms(1,2)
  by (auto simp: mk_message_def sbcp_codes)

text \<open>The table after a client has been entered behind the others.\<close>

lemma room_enter:
  assumes "room s cs" and "clnt_count s + 1 < int (length (curr_clnt s))" and "0 \<le> d" and "d \<notin> clnt_fd ` set cs"
    and "length u = 16" and "0 \<in> set u" and "takeWhile (\<lambda>b. b \<noteq> 0) u \<notin> uname ` set cs"
  shows "room (s\<lparr>master := insert d (master s), fdmax := mx,
      curr_clnt := (curr_clnt s)[length cs := Some \<lparr>username = u, clnt_fd = d, status = 79, clnt_no = n\<rparr>],
      clnt_count := clnt_count s + 1\<rparr>) (cs @ [\<lparr>username = u, clnt_fd = d, status = 79, clnt_no = n\<rparr>])"
proof -
  have "take (Suc (length cs)) ((curr_clnt s)[length cs := x]) = map Some cs @ [x]" for x
    using assms(1) by (simp add: room_def take_Suc_conv_app_nth)
  with assms show ?thesis by (auto simp: room_def uname_def)
qed

text \<open>What a JOIN has to satisfy to be admitted.\<close>

definition may_join :: "sbcp_server \<Rightarrow> clnt_info list \<Rightarrow> int \<Rightarrow> byte list \<Rightarrow> byte list \<Rightarrow> byte list \<Rightarrow> clnt_info \<Rightarrow> bool" where
  "may_join s cs new_fd payload namelist0 name c \<longleftrightarrow>
     clnt_count s < max_clnt s \<and> clnt_count s + 1 < int (length (curr_clnt s)) \<and> 0 \<le> new_fd \<and> new_fd \<notin> clnt_fd ` set cs \<and>
     c_str payload = Inr name \<and> length name < 16 \<and> name \<notin> uname ` set cs \<and> c_str namelist0 = Inr [] \<and>
     (\<exists>u. c_strcpy (replicate 16 0) payload = Inr u \<and>
          c = \<lparr>username = u, clnt_fd = new_fd, status = 79, clnt_no = clnt_count s\<rparr>) \<and>
     length (names_text (cs @ [c])) < 512"

lemma join_forwards:
  assumes "room s cs" and "may_join s cs new_fd payload namelist0 name c"
  shows "\<exists>s3 ack online. sbcp_connect neg new_fd payload namelist0 s = forward_message neg online new_fd (clnt_count s3) s3 \<and>
    room s3 (cs @ [c]) \<and> uname c = name \<and> clnt_fd c = new_fd \<and>
    msg_Type ack = ACK \<and> text_of (attr_payload (attr1 ack)) = names_text (cs @ [c]) \<and>
    msg_Type online = ONLINE \<and> text_of (attr_payload (attr0 online)) = name \<and>
    s3 = s\<lparr>master := insert new_fd (master s), fdmax := max new_fd (fdmax s), curr_clnt := (curr_clnt s)[length cs := Some c],
      clnt_count := clnt_count s + 1, writes := writes s @ [(new_fd, ack), (new_fd, nullchar)]\<rparr>"
proof -
  from assms(2) obtain u where m: "clnt_count s < max_clnt s" "0 \<le> new_fd" "new_fd \<notin> clnt_fd ` set cs"
      "c_str payload = Inr name" "length name < 16" "name \<notin> uname ` set cs" "c_str namelist0 = Inr []"
      "c_strcpy (replicate 16 0) payload = Inr u"
    and c: "c = \<lparr>username = u, clnt_fd = new_fd, status = 79, clnt_no = clnt_count s\<rparr>"
    and nt: "length (names_text (cs @ [c])) < 512" and len: "clnt_count s + 1 < int (length (curr_clnt s))"
    by (auto simp: may_join_def)
  have n: "clnt_count s = int (length cs)" using assms(1) by (simp add: room_def)
  have u: "length u = 16" "0 \<in> set u" "takeWhile (\<lambda>b. b \<noteq> 0) u = name"
    using strcpy_buffer [OF m(8,4,5)] by auto
  have name: "uname c = name" using u c by (simp add: uname_def)
  let ?s = "s\<lparr>master := insert new_fd (master s), fdmax := max new_fd (fdmax s)\<rparr>"
  let ?s1 = "?s\<lparr>curr_clnt := (curr_clnt s)[length cs := Some c]\<rparr>"
  let ?s2 = "?s1\<lparr>clnt_count := clnt_count s + 1\<rparr>"
  have rs: "room ?s cs" using assms(1) by (auto simp: room_def)
  have ex: "is_clnt_exist new_fd payload ?s = Inr (False, ?s1)"
    using name_used_room [OF rs, of name] m(4,6,8) c len n by (simp add: is_clnt_exist_def arr_set_def)
  have r2: "room ?s2 (cs @ [c])"
    using room_enter [OF assms(1) len m(2,3) u(1,2), where mx = "max new_fd (fdmax s)" and n = "clnt_count s"] u(3) m(6) c by simp
  obtain ack where ack: "mk_message ACK (count_text (clnt_count ?s2)) (names_text (cs @ [c])) = Inr ack" "msg_Type ack = ACK"
      "text_of (attr_payload (attr1 ack)) = names_text (cs @ [c])"
    using ack_message [of "clnt_count s" "cs @ [c]"] nt n names_text_length [of "cs @ [c]"] by auto
  obtain online where onl: "mk_message ONLINE name (lit ''N/A'') = Inr online" "msg_Type online = ONLINE"
      "text_of (attr_payload (attr0 online)) = name"
    using set_attr_ok [of name USERNAME] uname_no_zero [of c] name m(5) by (auto simp: mk_message_def sbcp_codes)
  have sl: "slot (curr_clnt ?s2) (clnt_count ?s2 - 1) = Inr c" "c_str (username c) = Inr name"
    using room_slot [OF r2, of "length cs"] n c_str_username [of c] u(2) c name by simp_all
  let ?s3 = "?s2\<lparr>writes := writes s @ [(new_fd, ack), (new_fd, nullchar)]\<rparr>"
  have "sbcp_connect neg new_fd payload namelist0 s = forward_message neg online new_fd (clnt_count ?s3) ?s3"
    using m(1,2,7) c ex namelist_loop_room [OF r2 nt] ack(1) onl(1) sl
    by (simp add: sbcp_connect_def sbcp_admit_def)
  moreover have "room ?s3 (cs @ [c])" using r2 by (simp add: room_def)
  ultimately show ?thesis using name ack(2,3) onl(2,3) c
    by (intro exI [of _ ?s3] exI [of _ ack] exI [of _ online]) simp
qed

lemma join_state:
  assumes "room s cs" and "may_join s cs new_fd payload namelist0 name c"
    and "slot (curr_clnt s) (clnt_count s + 1) = Inr clnt_reset"
  shows "\<exists>s' ack online. sbcp_connect (Inr z) new_fd payload namelist0 s = Inr s' \<and> room s' (cs @ [c]) \<and> next_reset s' \<and> uname c = name \<and>
    clnt_fd c = new_fd \<and> msg_Type ack = ACK \<and> text_of (attr_payload (attr1 ack)) = names_text (cs @ [c]) \<and>
    msg_Type online = ONLINE \<and> text_of (attr_payload (attr0 online)) = name \<and>
    s' = s\<lparr>master := insert new_fd (master s), fdmax := max new_fd (fdmax s), curr_clnt := (curr_clnt s)[length cs := Some c],
      clnt_count := clnt_count s + 1, writes := writes s @ [(new_fd, ack), (new_fd, nullchar)] @ broadcast online new_fd cs @ stray z online\<rparr>"
proof -
  obtain s3 ack online where f: "sbcp_connect (Inr z) new_fd payload namelist0 s =
      forward_message (Inr z) online new_fd (clnt_count s3) s3" "room s3 (cs @ [c])" "uname c = name" "clnt_fd c = new_fd"
    "msg_Type ack = ACK" "text_of (attr_payload (attr1 ack)) = names_text (cs @ [c])"
    "msg_Type online = ONLINE" "text_of (attr_payload (attr0 online)) = name"
    and s3: "s3 = s\<lparr>master := insert new_fd (master s), fdmax := max new_fd (fdmax s), curr_clnt := (curr_clnt s)[length cs := Some c],
      clnt_count := clnt_count s + 1, writes := writes s @ [(new_fd, ack), (new_fd, nullchar)]\<rparr>"
    using join_forwards [OF assms(1,2), of "Inr z"] by blast
  have reset: "next_reset s3"
    using f(2) assms(1,3) unfolding s3 by (simp add: next_reset_def room_def slot_def arr_get_def add.commute split: if_splits)
  have b: "broadcast online new_fd (cs @ [c]) = broadcast online new_fd cs" using f(4) by (simp add: broadcast_def)
  let ?s = "s3\<lparr>writes := writes s3 @ broadcast online new_fd cs @ stray z online\<rparr>"
  have "sbcp_connect (Inr z) new_fd payload namelist0 s = Inr ?s"
    using forward_message_ok [OF f(2) reset, of new_fd z online] f(1) b assms(2) by (simp add: may_join_def)
  moreover have "room ?s (cs @ [c])" using f(2) unfolding room_def by simp
  moreover have "next_reset ?s" using reset by (simp add: next_reset_def)
  ultimately show ?thesis using f(3-8) by (intro exI [of _ ?s] exI [of _ ack] exI [of _ online]) (simp add: s3)
qed

text \<open>A client that joins with a new name is entered into the room. It gets an ACK that names
  everybody in the room, itself included, every other client gets an ONLINE notice with the new name, and
  the room keeps distinct names and descriptors. This needs \<open>namelist\<close> to start with a zero byte by
  chance, a name of at most 15 characters, and a reset slot behind the new client.\<close>

theorem join_admits:
  assumes "room s cs" and "may_join s cs new_fd payload namelist0 name c"
    and "slot (curr_clnt s) (clnt_count s + 1) = Inr clnt_reset"
  shows "\<exists>s' ack online. sbcp_connect (Inr z) new_fd payload namelist0 s = Inr s' \<and> room s' (cs @ [c]) \<and> uname c = name \<and>
    msg_Type ack = ACK \<and> text_of (attr_payload (attr1 ack)) = names_text (cs @ [c]) \<and>
    msg_Type online = ONLINE \<and> text_of (attr_payload (attr0 online)) = name \<and>
    writes s' = writes s @ [(new_fd, ack), (new_fd, nullchar)] @ broadcast online new_fd cs @ stray z online"
  using join_state [OF assms] by force

definition demo_payload :: "byte \<Rightarrow> byte list" where
  "demo_payload b = b # replicate 511 0"

lemma demo_may_join:
  "may_join (sbcp_init 2 3) [] 4 (demo_payload 65) [0] [65] (demo_clnt 65 4 0)"
  "may_join ((sbcp_init 3 3)\<lparr>clnt_count := 2, master := {3, 4, 5},
     curr_clnt := [Some (demo_clnt 65 4 0), Some (demo_clnt 66 5 1), Some clnt_reset, None, None]\<rparr>)
     [demo_clnt 65 4 0, demo_clnt 66 5 1] 6 (demo_payload 67) [0] [67] (demo_clnt 67 6 2)"
  by (simp_all add: may_join_def sbcp_init_def demo_payload_def demo_clnt_def c_str_def c_strcpy_def buf_write_def
      uname_def names_text_def)

theorem join_admits_witness:
  "\<exists>s' ack. sbcp_connect (Inr False) 4 (demo_payload 65) [0] (sbcp_init 2 3) = Inr s' \<and>
     room s' [demo_clnt 65 4 0] \<and> text_of (attr_payload (attr1 ack)) = [65, 10] \<and> writes s' = [(4, ack), (4, nullchar)]"
proof -
  have "room (sbcp_init 2 3) []" "slot (curr_clnt (sbcp_init 2 3)) (clnt_count (sbcp_init 2 3) + 1) = Inr clnt_reset"
    "names_text [demo_clnt 65 4 0] = [65, 10]"
    by (simp_all add: room_def sbcp_init_def slot_def arr_get_def names_text_def demo_clnt_def uname_def)
  with join_admits [OF _ demo_may_join(1), of False] show ?thesis by (fastforce simp: broadcast_def stray_def sbcp_init_def)
qed

text \<open>The third client brings the server down to undefined behaviour. Only three slots of the
  table are initialised, and announcing the third client to the others reads the descriptor in the
  fourth slot, which holds an indeterminate value.\<close>

theorem third_join_uninitialised:
  assumes "room s cs" and "may_join s cs new_fd payload namelist0 name c"
    and "length cs = 2" and "length (curr_clnt s) \<ge> 5" and "curr_clnt s ! 3 = None"
  shows "sbcp_connect neg new_fd payload namelist0 s = Inl Uninitialised"
proof -
  obtain s3 online where f: "sbcp_connect neg new_fd payload namelist0 s = forward_message neg online new_fd (clnt_count s3) s3"
    "room s3 (cs @ [c])" "curr_clnt s3 = (curr_clnt s)[length cs := Some c]"
    using join_forwards [OF assms(1,2), of neg] by force
  have "slot (curr_clnt s3) (clnt_count s3) = Inl Uninitialised"
    using f(2,3) assms(3-5) by (simp add: room_def slot_def arr_get_def)
  with f(1) forward_message_room [OF f(2), of neg online new_fd] show ?thesis by simp
qed

theorem third_join_uninitialised_witness:
  "sbcp_connect (Inr False) 6 (demo_payload 67) [0] ((sbcp_init 3 3)\<lparr>clnt_count := 2, master := {3, 4, 5},
     curr_clnt := [Some (demo_clnt 65 4 0), Some (demo_clnt 66 5 1), Some clnt_reset, None, None]\<rparr>) = Inl Uninitialised"
  by (rule third_join_uninitialised [OF _ demo_may_join(2)])
     (simp_all add: room_def sbcp_init_def demo_clnt_def uname_def)

text \<open>A full room refuses newcomers with a reason and is not changed.\<close>

theorem full_room_refuses:
  assumes "new_fd \<noteq> - 1" and "max_clnt s \<le> clnt_count s"
  shows "\<exists>nak. sbcp_connect neg new_fd payload namelist0 s =
      Inr (s\<lparr>writes := writes s @ [(new_fd, nak), (new_fd, nullchar)]\<rparr>) \<and> msg_Type nak = NAK \<and>
    text_of (attr_payload (attr0 nak)) = lit ''Too many users in the chat room!''"
proof -
  obtain nak where "mk_message NAK (lit ''Too many users in the chat room!'') (lit ''N/A'') = Inr nak"
      "msg_Type nak = NAK" "attr0 nak = set_attr_n REASON (lit ''Too many users in the chat room!'')"
    by (simp add: mk_message_def sbcp_codes)
  then show ?thesis using assms
    by (auto simp: sbcp_connect_def set_attr_n_def text_of_def lit_def byte_of_char_def)
qed

theorem full_room_refuses_witness:
  "\<exists>nak. sbcp_connect (Inl Out_of_bounds) 7 [] [] demo_room = Inr (demo_room\<lparr>writes := [(7, nak), (7, nullchar)]\<rparr>) \<and> msg_Type nak = NAK"
  using full_room_refuses [of 7 demo_room "Inl Out_of_bounds" "[]" "[]"] by (auto simp: demo_room_def sbcp_init_def)

subsection \<open>A session\<close>

text \<open>What a client makes of a message, and the notes that the members of a room get when one of them
  sends a message of type \<open>ty\<close>: everybody else is told, once, who said what or who is idle.\<close>

datatype notice = Says "byte list" "byte list" | Idles "byte list" | Welcomes "byte list" | Arrives "byte list" | Other_note

definition note_of :: "sbcp_message \<Rightarrow> notice" where
  "note_of m =
     (if msg_Type m = FWD then Says (text_of (attr_payload (attr0 m))) (text_of (attr_payload (attr1 m)))
      else if msg_Type m = IDLE then Idles (text_of (attr_payload (attr0 m)))
      else if msg_Type m = ACK then Welcomes (text_of (attr_payload (attr1 m)))
      else if msg_Type m = ONLINE then Arrives (text_of (attr_payload (attr0 m))) else Other_note)"

text \<open>A write to a negative descriptor fails and tells nobody anything.\<close>

definition told :: "sbcp_server \<Rightarrow> (int \<times> notice) list" where
  "told s = map (\<lambda>(d, m). (d, note_of m)) (filter (\<lambda>(d, m). 0 \<le> d) (writes s))"

fun room_notes :: "clnt_info list \<Rightarrow> (clnt_info \<times> int \<times> byte list) list \<Rightarrow> (int \<times> notice) list" where
  "room_notes cs [] = []"
| "room_notes cs ((c, ty, payload) # es) =
     concat (map (\<lambda>d. [(clnt_fd d, if ty = IDLE then Idles (uname c) else Says (uname c) (text_of payload)),
                       (clnt_fd d, Says [] (lit ''N/A''))])
       (filter (\<lambda>d. clnt_fd d \<noteq> clnt_fd c) cs)) @ room_notes cs es"

definition session_events :: "(clnt_info \<times> int \<times> byte list) list \<Rightarrow> sbcp_event list" where
  "session_events es = map (\<lambda>(c, ty, payload). From_client (clnt_fd c) (Got_message ty payload)) es"

text \<open>The invariant of a session.\<close>

definition chatting :: "sbcp_server \<Rightarrow> clnt_info list \<Rightarrow> bool" where
  "chatting s cs \<longleftrightarrow> room s cs \<and> next_reset s \<and>
     length (attr_payload (attr0 (fwd_msg s))) = 512 \<and> length (attr_payload (attr1 (fwd_msg s))) = 512"

text \<open>A server that has started is an empty room, ready for a session.\<close>

lemma server_new_chatting:
  assumes "Server_new ai listen_ok max_clnt0 = Inr (Started s)"
  shows "chatting s []"
proof -
  have "1 \<le> max_clnt0" and s: "\<exists>d. s = sbcp_init max_clnt0 d"
    using assms by (auto simp: Server_new_def split: option.splits if_splits)
  moreover from this(1) have "3 \<le> nat (max_clnt0 + 2)" by simp
  ultimately show ?thesis
    by (auto simp: chatting_def room_def next_reset_def sbcp_init_def slot_def arr_get_def blank_attr_def)
qed

lemma note_nullchar: "note_of nullchar = Says [] (lit ''N/A'')"
  by (simp add: note_of_def nullchar_def sbcp_codes text_of_def lit_def byte_of_char_def)

lemma notes_broadcast:
  "\<forall>c\<in>set cs. 0 \<le> clnt_fd c \<Longrightarrow> map (\<lambda>(d, m). (d, note_of m)) (filter (\<lambda>(d, m). 0 \<le> d) (broadcast m self cs)) =
     concat (map (\<lambda>d. [(clnt_fd d, note_of m), (clnt_fd d, Says [] (lit ''N/A''))]) (filter (\<lambda>d. clnt_fd d \<noteq> self) cs))"
  by (induction cs) (simp_all add: broadcast_def note_nullchar)

lemma told_stray [simp]: "filter (\<lambda>(d, m). 0 \<le> d) (stray z m) = []"
  by (simp add: stray_def)

lemma idle_loop_skip:
  assumes "\<And>k. k \<in> set ks \<Longrightarrow> \<exists>c. slot (curr_clnt s) k = Inr c \<and> clnt_fd c \<noteq> i"
  shows "idle_loop neg i (ks @ ls) s = idle_loop neg i ls s"
  using assms by (induction ks) fastforce+

lemma idle_notice:
  assumes "room s cs" and "next_reset s" and "c \<in> set cs"
  shows "\<exists>m. sbcp_data (Inr z) (clnt_fd c) (Got_message IDLE payload) s =
      Inr (s\<lparr>writes := writes s @ broadcast m (clnt_fd c) cs @ stray z m\<rparr>) \<and> note_of m = Idles (uname c)"
proof -
  obtain j where j: "j < length cs" "cs ! j = c" using assms(3) by (auto simp: in_set_conv_nth)
  have d: "k < length cs \<Longrightarrow> k \<noteq> j \<Longrightarrow> clnt_fd (cs ! k) \<noteq> clnt_fd c" for k
    using assms(1) j by (auto simp: room_def distinct_conv_nth)
  have u: "length (username c) = 16" "0 \<in> set (username c)" using assms(1,3) by (auto simp: room_def)
  have "length (uname c) < 512" using u(1) length_takeWhile_le [of "\<lambda>b. b \<noteq> 0" "username c"] by (simp add: uname_def)
  from set_attr_ok [OF uname_no_zero this, of USERNAME] obtain m where
    m: "mk_message IDLE (uname c) (lit ''N/A'') = Inr m" "note_of m = Idles (uname c)"
    by (auto simp: mk_message_def note_of_def sbcp_codes)
  let ?s = "s\<lparr>writes := writes s @ broadcast m (clnt_fd c) cs @ stray z m\<rparr>"
  have "[0..<length cs] = [0..<j] @ j # [Suc j..<length cs]"
    using j(1) upt_add_eq_append [of 0 j "length cs - j"] by (simp add: upt_conv_Cons del: upt_Suc)
  then have ks: "[0..clnt_count s - 1] = map int [0..<j] @ int j # map int [Suc j..<length cs] @ []"
    using assms(1) by (simp add: room_def upto_map_int del: upto.simps upt_Suc)
  have "idle_loop (Inr z) (clnt_fd c) (map int [0..<j] @ int j # map int [Suc j..<length cs] @ []) s =
      idle_loop (Inr z) (clnt_fd c) (int j # map int [Suc j..<length cs] @ []) s"
    using j(1) d room_slot [OF assms(1)] by (intro idle_loop_skip) auto
  also have "\<dots> = idle_loop (Inr z) (clnt_fd c) (map int [Suc j..<length cs] @ []) ?s"
    using room_slot [OF assms(1) j(1)] j(2) c_str_username [OF u(2)] m(1) forward_message_ok [OF assms(1,2) room_fd_nonneg [OF assms(1,3)]] by simp
  also have "\<dots> = Inr ?s"
    using d room_slot [OF assms(1)] by (subst idle_loop_skip) auto
  finally show ?thesis using m(2) by (auto simp: sbcp_data_def ks)
qed

lemma session_step:
  assumes "chatting s cs" and "c \<in> set cs" and "0 \<in> set payload" and "length payload = 512"
  shows "\<exists>s'. sbcp_data (Inr z) (clnt_fd c) (Got_message ty payload) s = Inr s' \<and> chatting s' cs \<and>
    told s' = told s @ room_notes cs [(c, ty, payload)]"
proof (cases "ty = IDLE")
  case True
  have fds: "\<forall>c\<in>set cs. 0 \<le> clnt_fd c" using assms(1) by (auto simp: chatting_def room_def)
  from idle_notice [of s cs c z payload] assms(1,2) obtain m where
    "sbcp_data (Inr z) (clnt_fd c) (Got_message IDLE payload) s = Inr (s\<lparr>writes := writes s @ broadcast m (clnt_fd c) cs @ stray z m\<rparr>)"
    "note_of m = Idles (uname c)" by (auto simp: chatting_def)
  with True assms(1) show ?thesis
    by (auto simp: chatting_def room_def next_reset_def told_def notes_broadcast [OF fds])
next
  case False
  have fds: "\<forall>c\<in>set cs. 0 \<le> clnt_fd c" using assms(1) by (auto simp: chatting_def room_def)
  from chat_message [OF _ _ assms(2) False assms(3,4), of s] assms(1) obtain m s' where
    "sbcp_data (Inr z) (clnt_fd c) (Got_message ty payload) s = Inr s'" "carries (uname c) (text_of payload) m"
    "writes s' = writes s @ broadcast m (clnt_fd c) cs @ stray z m" "chatting s' cs"
    unfolding chatting_def by blast
  moreover from this(2) have "note_of m = Says (uname c) (text_of payload)" by (simp add: note_of_def carries_def)
  ultimately show ?thesis using False by (auto simp: told_def notes_broadcast [OF fds])
qed

text \<open>The server refines the chat room. Whatever chat messages and idle notices the members of a
  room send, and in whatever order, the server survives, keeps its table, and what is written to the
  clients is, in order, what the room prescribes: every other member is told exactly once who said
  what or who is idle.\<close>

theorem chat_session_refines:
  assumes "chatting s cs" and "\<forall>(c, ty, payload) \<in> set es. c \<in> set cs \<and> 0 \<in> set payload \<and> length payload = 512"
  shows "\<exists>s'. sbcp_run (Inr z) (session_events es) s = Inr s' \<and> chatting s' cs \<and> told s' = told s @ room_notes cs es"
  using assms
proof (induction es arbitrary: s)
  case Nil
  then show ?case by (simp add: session_events_def)
next
  case (Cons e es)
  obtain c ty payload where e: "e = (c, ty, payload)" by (cases e)
  with session_step [OF Cons.prems(1), of c payload z ty] Cons.prems(2) obtain s1 where
    s1: "sbcp_data (Inr z) (clnt_fd c) (Got_message ty payload) s = Inr s1" "chatting s1 cs"
    "told s1 = told s @ room_notes cs [(c, ty, payload)]" by auto
  from Cons.IH [OF s1(2)] Cons.prems(2) s1 e show ?case by (auto simp: session_events_def)
qed

lemma demo_chatting: "chatting demo_room [demo_clnt 65 4 0, demo_clnt 66 5 1]"
  using demo_room_facts by (simp add: chatting_def) (simp add: demo_room_def sbcp_init_def blank_attr_def)

theorem chat_session_refines_witness:
  "\<exists>s'. sbcp_run (Inr False) [From_client 4 (Got_message SEND (demo_payload 72)), From_client 5 (Got_message IDLE (demo_payload 0))] demo_room = Inr s' \<and>
     told s' = [(5, Says [65] [72]), (5, Says [] (lit ''N/A'')), (4, Idles [66]), (4, Says [] (lit ''N/A''))]"
  using chat_session_refines [OF demo_chatting, of "[(demo_clnt 65 4 0, SEND, demo_payload 72), (demo_clnt 66 5 1, IDLE, demo_payload 0)]" False]
  by (auto simp: session_events_def demo_clnt_def demo_payload_def uname_def text_of_def sbcp_codes told_def demo_room_def sbcp_init_def)

subsection \<open>Leaving\<close>

lemma offline_message:
  assumes "length (username c) = 16"
  shows "\<exists>m. mk_message OFFLINE (uname c) (lit ''N/A'') = Inr m \<and> msg_Type m = OFFLINE \<and> text_of (attr_payload (attr0 m)) = uname c"
proof -
  have "length (uname c) < 512" using assms length_takeWhile_le [of "\<lambda>b. b \<noteq> 0" "username c"] by (simp add: uname_def)
  from set_attr_ok [OF uname_no_zero this, of USERNAME] show ?thesis by (auto simp: mk_message_def sbcp_codes)
qed

text \<open>When the first of two clients hangs up, the other one is told, but the table is left with
  a hole: the count says one client, the slot it counts is empty and the remaining client stands behind
  it, outside the part of the table the server searches.\<close>

theorem leave_leaves_hole:
  assumes "room s [a, b]" and "next_reset s"
  shows "\<exists>s' m. sbcp_data (Inr False) (clnt_fd a) Hung_up s = Inr s' \<and>
    msg_Type m = OFFLINE \<and> text_of (attr_payload (attr0 m)) = uname a \<and>
    writes s' = writes s @ [(clnt_fd b, m), (clnt_fd b, nullchar)] \<and>
    clnt_count s' = 1 \<and> slot (curr_clnt s') 0 = Inr clnt_reset \<and> slot (curr_clnt s') 1 = Inr b \<and>
    clnt_fd a \<notin> master s' \<and> clnt_fd b \<in> master s'"
proof -
  have n: "clnt_count s = 2" and len: "2 < length (curr_clnt s)" and ab: "clnt_fd a \<noteq> clnt_fd b" "clnt_fd b \<in> master s"
      "length (username a) = 16" "0 \<in> set (username a)"
    using assms(1) by (auto simp: room_def)
  have ne: "curr_clnt s \<noteq> []" using len by auto
  have sl: "slot (curr_clnt s) 0 = Inr a" "slot (curr_clnt s) 1 = Inr b"
    using room_slot [OF assms(1), of 0] room_slot [OF assms(1), of 1] by simp_all
  from offline_message [OF ab(3)] obtain m where m: "mk_message OFFLINE (uname a) (lit ''N/A'') = Inr m" "msg_Type m = OFFLINE"
      "text_of (attr_payload (attr0 m)) = uname a" by blast
  have fw: "forward_message (Inr False) m (clnt_fd a) 2 s = Inr (s\<lparr>writes := writes s @ [(clnt_fd b, m), (clnt_fd b, nullchar)]\<rparr>)"
    using forward_message_ok [OF assms, of "clnt_fd a" False m] room_fd_nonneg [OF assms(1), of a] n ab(1) by (simp add: broadcast_def stray_def)
  let ?s = "s\<lparr>writes := writes s @ [(clnt_fd b, m), (clnt_fd b, nullchar)], curr_clnt := (curr_clnt s)[0 := Some clnt_reset],
    clnt_count := 1, master := master s - {clnt_fd a}\<rparr>"
  have "sbcp_data (Inr False) (clnt_fd a) Hung_up s = Inr ?s"
    using n ne sl fw m(1) c_str_username [OF ab(4)]
    by (simp add: sbcp_data_def sbcp_hangup_def numeral_2_eq_2 arr_set_def)
  moreover have "slot (curr_clnt ?s) 0 = Inr clnt_reset" "slot (curr_clnt ?s) 1 = Inr b"
    using len sl(2) by (auto simp: slot_def arr_get_def)
  ultimately show ?thesis using m(2,3) ab by (intro exI [of _ ?s] exI [of _ m]) simp
qed

theorem leave_leaves_hole_witness:
  "\<exists>s'. sbcp_data (Inr False) 4 Hung_up demo_room = Inr s' \<and> clnt_count s' = 1 \<and>
     slot (curr_clnt s') 1 = Inr (demo_clnt 66 5 1)"
  using leave_leaves_hole [OF demo_room_facts] by (auto simp: demo_clnt_def)

text \<open>The next client that joins after such a leave is entered over the remaining one: that one
  is still connected, but no slot of the table holds its descriptor any more, so it no longer gets any
  message.\<close>

theorem join_over_hole_loses_client:
  assumes "clnt_count s = 1" and "slot (curr_clnt s) 0 = Inr clnt_reset" and "slot (curr_clnt s) 1 = Inr b"
    and "slot (curr_clnt s) 2 = Inr clnt_reset" and "length (curr_clnt s) = 4" and "curr_clnt s ! 3 = None"
    and "2 \<le> max_clnt s" and "0 \<le> new_fd" and "new_fd \<noteq> clnt_fd b" and "0 \<le> clnt_fd b" and "clnt_fd b \<in> master s"
    and "c_strcpy (replicate 16 0) payload = Inr u" and "c_str payload = Inr name" and "length name < 16" and "name \<noteq> []"
    and "c_str namelist0 = Inr []"
  shows "\<exists>s'. sbcp_connect (Inr False) new_fd payload namelist0 s = Inr s' \<and> clnt_fd b \<in> master s' \<and>
    (\<forall>c. Some c \<in> set (curr_clnt s') \<longrightarrow> clnt_fd c \<noteq> clnt_fd b)"
proof -
  obtain x0 x1 x2 x3 where t: "curr_clnt s = [x0, x1, x2, x3]" using assms(5) by (auto simp: numeral_eq_Suc length_Suc_conv)
  with assms(2-4,6) have tab: "curr_clnt s = [Some clnt_reset, Some b, Some clnt_reset, None]"
    by (auto simp: slot_def arr_get_def split: option.splits)
  let ?c = "\<lparr>username = u, clnt_fd = new_fd, status = 79, clnt_no = 1\<rparr>"
  have u: "0 \<in> set u" "uname ?c = name" using strcpy_buffer [OF assms(12-14)] by (auto simp: uname_def)
  have cu: "c_str u = Inr name" using c_str_username [of ?c] u by simp
  have nz: "0 \<notin> set name" using u(2) uname_no_zero [of ?c] by simp
  have res: "c_str (username clnt_reset) = Inr []" "clnt_fd clnt_reset = - 1" by (simp_all add: clnt_reset_def c_str_def)
  have a1: "\<exists>a. set_attr CLIENT_COUNT (count_text 2) = Inr a" by (rule set_count_ok) simp
  have a2: "\<exists>a. set_attr USERNAME ([44, 32] @ name @ [10]) = Inr a" using set_attr_ok [of "[44, 32] @ name @ [10]" USERNAME] nz assms(14) by auto
  have a3: "\<exists>a. set_attr USERNAME name = Inr a" using set_attr_ok [OF nz] assms(14) by force
  obtain ack online where msgs: "mk_message ACK (count_text 2) ([44, 32] @ name @ [10]) = Inr ack"
      "mk_message ONLINE name (lit ''N/A'') = Inr online"
    using a1 a2 a3 by (auto simp: mk_message_def sbcp_codes)
  let ?s = "s\<lparr>master := insert new_fd (master s), fdmax := max new_fd (fdmax s),
    curr_clnt := [Some clnt_reset, Some ?c, Some clnt_reset, None], clnt_count := 2,
    writes := writes s @ [(new_fd, ack), (new_fd, nullchar)]\<rparr>"
  have ex: "is_clnt_exist new_fd payload (s\<lparr>master := insert new_fd (master s), fdmax := max new_fd (fdmax s)\<rparr>) =
      Inr (False, s\<lparr>master := insert new_fd (master s), fdmax := max new_fd (fdmax s),
        curr_clnt := [Some clnt_reset, Some ?c, Some clnt_reset, None]\<rparr>)"
    using assms(1,12,13,15) tab res by (simp add: is_clnt_exist_def slot_def arr_get_def arr_set_def)
  have "sbcp_connect (Inr False) new_fd payload namelist0 s = forward_message (Inr False) online new_fd 2 ?s"
    using assms(1,7,8,16) ex msgs cu res tab assms(14)
    by (simp add: sbcp_connect_def sbcp_admit_def slot_def arr_get_def upto_rec1)
  also have "\<dots> = Inr ?s"
    using assms(8) res by (simp add: forward_message_def slot_def arr_get_def fd_isset_def upto_rec1)
  finally show ?thesis using assms(9-11) res by (intro exI [of _ ?s]) auto
qed

theorem join_over_hole_loses_client_witness:
  "\<exists>s'. sbcp_connect (Inr False) 6 (demo_payload 67) [0] (demo_room\<lparr>clnt_count := 1, master := {3, 5},
      curr_clnt := [Some clnt_reset, Some (demo_clnt 66 5 1), Some clnt_reset, None]\<rparr>) = Inr s' \<and> 5 \<in> master s' \<and>
    (\<forall>c. Some c \<in> set (curr_clnt s') \<longrightarrow> clnt_fd c \<noteq> 5)"
  using join_over_hole_loses_client [of "demo_room\<lparr>clnt_count := 1, master := {3, 5},
      curr_clnt := [Some clnt_reset, Some (demo_clnt 66 5 1), Some clnt_reset, None]\<rparr>" "demo_clnt 66 5 1" 6 "demo_payload 67"
      "67 # 0 # replicate 14 0" "[67]" "[0]"]
  by (simp add: slot_def arr_get_def demo_room_def sbcp_init_def demo_payload_def demo_clnt_def c_str_def c_strcpy_def
      buf_write_def)

end
