(* ===== verification/Echo.thy ===== *)
theory Echo
  imports Prelude
begin

section \<open>Line input, complete output and the echo service (ECEN602/assignment1)\<close>

text \<open>
  \<open>writen\<close> and \<open>readline\<close> as echo.c has them (the chat server carries copies), the loop of the echo
  server's child (server.cpp) and the loop of its client (echo.c). Every system call takes its result
  from a list: \<open>write\<close> a byte count, \<open>read\<close> a byte count and a character, both with a flag that says
  whether \<open>errno\<close> is \<open>EINTR\<close> after the call; the flag is also looked at when the call has not set it. When
  the list is used up the function is still waiting, which is the result \<open>None\<close>.
\<close>

subsection \<open>Output\<close>

function writen_loop :: "(int \<times> bool) list \<Rightarrow> byte list \<Rightarrow> int \<Rightarrow> int \<Rightarrow> byte list \<Rightarrow> (int \<times> byte list) c_result option" where
  "writen_loop ws buf nbytes no_bytes sent =
     (if no_bytes < nbytes then
        (case ws of [] \<Rightarrow> None
         | (n, eintr) # ws' \<Rightarrow>
             case buf_read (nat no_bytes) (nat (nbytes - no_bytes)) buf of Inl u \<Rightarrow> Some (Inl u)
             | Inr rest \<Rightarrow>
                 if n \<le> 0 then (if eintr then writen_loop ws' buf nbytes no_bytes sent else Some (Inr (- 1, sent)))
                 else writen_loop ws' buf nbytes (no_bytes + n) (sent @ take (nat n) rest))
      else Some (Inr (no_bytes, sent)))"
  by pat_completeness auto

termination writen_loop
  by (relation "measure (\<lambda>(ws, _). length ws)") auto

declare writen_loop.simps [simp del]

text \<open>The value returned and the bytes that were sent.\<close>

definition writen :: "(int \<times> bool) list \<Rightarrow> byte list \<Rightarrow> int \<Rightarrow> (int \<times> byte list) c_result option" where
  "writen ws buffer nbytes = writen_loop ws buffer nbytes 0 []"

subsection \<open>Input of a line\<close>

text \<open>\<open>p\<close> is the position of \<open>buffer\<close>, which the loop advances; \<open>finish\<close> stores the terminator there.\<close>

definition readline_finish :: "int \<Rightarrow> byte list \<Rightarrow> nat \<Rightarrow> (int \<times> byte list) c_result option" where
  "readline_finish no_bytes buffer p = Some (c_bind (arr_set buffer (int p) 0) (\<lambda>b. Inr (no_bytes, b)))"

function readline_loop :: "(int \<times> byte \<times> bool) list \<Rightarrow> int \<Rightarrow> int \<Rightarrow> byte list \<Rightarrow> nat \<Rightarrow> (int \<times> byte list) c_result option" where
  "readline_loop rs max_size_line no_bytes buffer p =
     (if no_bytes < max_size_line then
        (case rs of [] \<Rightarrow> None
         | (nchar_read, ch, eintr) # rs' \<Rightarrow>
             if nchar_read = 1 then
               (case arr_set buffer (int p) ch of Inl u \<Rightarrow> Some (Inl u)
                | Inr b \<Rightarrow> if ch = 10 then readline_finish no_bytes b (Suc p)
                           else readline_loop rs' max_size_line (no_bytes + 1) b (Suc p))
             else if eintr then readline_loop rs' max_size_line no_bytes buffer p
             else if nchar_read = 0 \<and> no_bytes = 1 then Some (Inr (0, buffer))
             else if nchar_read = 0 then readline_finish no_bytes buffer p
             else Some (Inr (- 1, buffer)))
      else readline_finish no_bytes buffer p)"
  by pat_completeness auto

termination readline_loop
  by (relation "measure (\<lambda>(rs, _). length rs)") auto

declare readline_loop.simps [simp del]

definition readline :: "(int \<times> byte \<times> bool) list \<Rightarrow> byte list \<Rightarrow> int \<Rightarrow> (int \<times> byte list) c_result option" where
  "readline rs buffer max_size_line = readline_loop rs max_size_line 1 buffer 0"

subsection \<open>The echo server's child\<close>

text \<open>How a child ends: \<open>return 2\<close> after \<open>quit\<close>, or \<open>exit(1)\<close> after an error; it is also possible that it is
  still running when the given rounds are over.\<close>

datatype child_end = Child_quit | Child_exit int | Child_running

text \<open>A round: what \<open>read\<close> delivers into the cleared buffer (at most 255 bytes, none at the end of the
  connection, \<open>None\<close> for an error), and the results of the \<open>write\<close> calls.\<close>

definition echo_buffer :: "byte list \<Rightarrow> byte list" where
  "echo_buffer got = take 255 got @ replicate (256 - length (take 255 got)) 0"

fun echo_child :: "(byte list option \<times> (int \<times> bool) list) list \<Rightarrow> byte list \<Rightarrow> (child_end \<times> byte list) c_result option" where
  "echo_child [] sent = Some (Inr (Child_running, sent))"
| "echo_child ((None, ws) # rounds) sent = Some (Inr (Child_exit 1, sent))"
| "echo_child ((Some got, ws) # rounds) sent =
     (case c_str (echo_buffer got) of Inl u \<Rightarrow> Some (Inl u)
      | Inr msg \<Rightarrow>
          if msg = lit ''quit'' @ [10] then Some (Inr (Child_quit, sent))
          else Option.bind (writen ws (echo_buffer got) (int (length msg))) (\<lambda>r.
               case r of Inl u \<Rightarrow> Some (Inl u)
               | Inr (n, out) \<Rightarrow> if n = - 1 then Some (Inr (Child_exit 1, sent @ out)) else echo_child rounds (sent @ out)))"

subsection \<open>The echo client\<close>

text \<open>A round of the client: \<open>fgets\<close> delivers a line of at most 49 characters, with or without the end of
  input met, or nothing at the end of input; the results of the calls that send it and receive the
  answer follow. The client shows the line it got back.\<close>

definition MAXCHAR_echo :: int where
  "MAXCHAR_echo = 50"

datatype client_input = Line "byte list" bool "(int \<times> bool) list" "(int \<times> byte \<times> bool) list" | No_line bool "(int \<times> bool) list"

record echo_client =
  output_buf :: "byte list"
  sent_bytes :: "byte list"
  echoed :: "byte list list"

text \<open>The truth value says that the loop has been left.\<close>

definition echo_round :: "client_input \<Rightarrow> echo_client \<Rightarrow> (bool \<times> echo_client) c_result option" where
  "echo_round inp c =
     (case inp of
        Line input at_eof ws rs \<Rightarrow>
          if at_eof then Some (Inr (True, c))
          else Option.bind (writen ws (input @ [0]) (int (length input))) (\<lambda>w.
               case w of Inl u \<Rightarrow> Some (Inl u)
               | Inr (_, out) \<Rightarrow>
                   map_option (\<lambda>r. c_bind r (\<lambda>(_, buf). c_bind (c_str buf) (\<lambda>txt.
                     Inr (False, c\<lparr>output_buf := buf, sent_bytes := sent_bytes c @ out, echoed := echoed c @ [txt]\<rparr>))))
                     (readline rs (output_buf c) MAXCHAR_echo))
      | No_line at_eof ws \<Rightarrow>
          if at_eof then
            map_option (\<lambda>w. c_bind w (\<lambda>(_, out). Inr (True, c\<lparr>sent_bytes := sent_bytes c @ out\<rparr>)))
              (writen ws (lit ''quit'' @ [10, 0]) 5)
          else Some (Inr (False, c)))"

fun echo_rounds :: "client_input list \<Rightarrow> echo_client \<Rightarrow> (bool \<times> echo_client) c_result option" where
  "echo_rounds [] c = Some (Inr (False, c))"
| "echo_rounds (i # is) c =
     Option.bind (echo_round i c) (\<lambda>r. case r of Inl u \<Rightarrow> Some (Inl u)
       | Inr (left, c1) \<Rightarrow> if left then Some (Inr (True, c1)) else echo_rounds is c1)"

subsection \<open>Complete output\<close>

text \<open>Write results that together send \<open>n\<close> bytes: every count is at most what is left, and interrupted
  calls may come in between.\<close>

fun completes :: "(int \<times> bool) list \<Rightarrow> int \<Rightarrow> bool" where
  "completes ws n = (if n \<le> 0 then True else
     (case ws of [] \<Rightarrow> False
      | (k, eintr) # ws' \<Rightarrow> if k \<le> 0 then eintr \<and> completes ws' n else k \<le> n \<and> completes ws' (n - k)))"

declare completes.simps [simp del]

lemma take_split: "k \<le> m \<Longrightarrow> take k (take m xs) @ take (m - k) (drop k xs) = take m xs"
  by (metis le_add_diff_inverse min.absorb1 take_add take_take)

lemma writen_loop_complete:
  assumes "completes ws (nbytes - no)" and "0 \<le> no" and "no \<le> nbytes" and "nat nbytes \<le> length buf"
  shows "writen_loop ws buf nbytes no sent = Some (Inr (nbytes, sent @ take (nat (nbytes - no)) (drop (nat no) buf)))"
  using assms
proof (induction ws arbitrary: no sent)
  case Nil
  then have "no = nbytes" by (subst (asm) completes.simps) (auto split: if_splits)
  then show ?case by (subst writen_loop.simps) simp
next
  case (Cons w ws)
  obtain k eintr where w: "w = (k, eintr)" by (cases w)
  show ?case
  proof (cases "no < nbytes")
    case False
    with Cons.prems show ?thesis by (subst writen_loop.simps) simp
  next
    case True
    let ?rest = "take (nat (nbytes - no)) (drop (nat no) buf)"
    have rd: "buf_read (nat no) (nat (nbytes - no)) buf = Inr ?rest"
      using True Cons.prems by (simp add: buf_read_def)
    from Cons.prems(1) True w have c: "if k \<le> 0 then eintr \<and> completes ws (nbytes - no) else k \<le> nbytes - no \<and> completes ws (nbytes - no - k)"
      by (subst (asm) completes.simps) (auto split: if_splits)
    show ?thesis
    proof (cases "k \<le> 0")
      case True
      with Cons.IH [of no sent] Cons.prems c rd w \<open>no < nbytes\<close> show ?thesis by (subst writen_loop.simps) simp
    next
      case False
      have join: "take (nat k) ?rest @ take (nat (nbytes - (no + k))) (drop (nat (no + k)) buf) = ?rest"
      proof -
        have "nat (nbytes - (no + k)) = nat (nbytes - no) - nat k" "nat (no + k) = nat k + nat no" "nat k \<le> nat (nbytes - no)"
          using False c Cons.prems by auto
        with take_split [of "nat k" "nat (nbytes - no)" "drop (nat no) buf"] show ?thesis by (simp add: add.commute)
      qed
      have "completes ws (nbytes - (no + k))" using c False by (simp add: algebra_simps)
      from Cons.IH [OF this, of "sent @ take (nat k) ?rest"] Cons.prems c False
      have "writen_loop ws buf nbytes (no + k) (sent @ take (nat k) ?rest) = Some (Inr (nbytes, sent @ ?rest))"
        by (simp only: append_assoc join) (simp del: take_take)
      then show ?thesis using rd w True False by (subst writen_loop.simps) (simp del: take_take)
    qed
  qed
qed

text \<open>\<open>writen\<close> sends everything. However the system splits the output and however often it is
  interrupted, once the calls have accepted all bytes the function returns their number and exactly the
  first \<open>nbytes\<close> bytes of the buffer have been sent, in order.\<close>

theorem writen_complete:
  assumes "completes ws nbytes" and "0 \<le> nbytes" and "nat nbytes \<le> length buffer"
  shows "writen ws buffer nbytes = Some (Inr (nbytes, take (nat nbytes) buffer))"
  using writen_loop_complete [of ws nbytes 0 buffer "[]"] assms by (simp add: writen_def)

theorem writen_complete_witness:
  "writen [(2, False), (- 1, True), (3, True)] [1, 2, 3, 4, 5, 0] 5 = Some (Inr (5, [1, 2, 3, 4, 5]))"
  using writen_complete [of "[(2, False), (- 1, True), (3, True)]" 5 "[1, 2, 3, 4, 5, 0]"] by (simp add: completes.simps)

subsection \<open>Lines\<close>

text \<open>The characters that a sequence of \<open>read\<close> calls delivers, and that all its other calls were interrupted.\<close>

fun reads_of :: "(int \<times> byte \<times> bool) list \<Rightarrow> byte list" where
  "reads_of [] = []"
| "reads_of ((n, ch, eintr) # rs) = (if n = 1 then ch # reads_of rs else reads_of rs)"

fun only_interrupts :: "(int \<times> byte \<times> bool) list \<Rightarrow> bool" where
  "only_interrupts [] = True"
| "only_interrupts ((n, ch, eintr) # rs) = ((n = 1 \<or> eintr) \<and> only_interrupts rs)"

lemma readline_loop_prefix:
  assumes "only_interrupts rs" and "10 \<notin> set (reads_of rs)" and "no + int (length (reads_of rs)) < mx"
    and "length (reads_of rs) \<le> length rest"
  shows "readline_loop (rs @ later) mx no (dn @ rest) (length dn) =
    readline_loop later mx (no + int (length (reads_of rs))) (dn @ reads_of rs @ drop (length (reads_of rs)) rest)
      (length dn + length (reads_of rs))"
  using assms
proof (induction rs arbitrary: no dn rest)
  case Nil
  then show ?case by simp
next
  case (Cons r rs)
  obtain n ch eintr where r: "r = (n, ch, eintr)" by (cases r)
  show ?case
  proof (cases "n = 1")
    case True
    then obtain x rest' where rest: "rest = x # rest'" using Cons.prems(4) r by (cases rest) auto
    have set: "arr_set (dn @ x # rest') (int (length dn)) ch = Inr (dn @ ch # rest')"
      by (simp add: arr_set_def list_update_append)
    have "readline_loop ((r # rs) @ later) mx no (dn @ rest) (length dn) =
        readline_loop (rs @ later) mx (no + 1) ((dn @ [ch]) @ rest') (length (dn @ [ch]))"
      using Cons.prems r True rest set by (subst readline_loop.simps) simp
    also have "\<dots> = readline_loop later mx (no + 1 + int (length (reads_of rs)))
        ((dn @ [ch]) @ reads_of rs @ drop (length (reads_of rs)) rest') (length (dn @ [ch]) + length (reads_of rs))"
      using Cons.prems r True rest by (intro Cons.IH) auto
    finally show ?thesis using r True rest by (simp add: ac_simps)
  next
    case False
    with Cons r have "readline_loop ((r # rs) @ later) mx no (dn @ rest) (length dn) = readline_loop (rs @ later) mx no (dn @ rest) (length dn)"
      by (subst readline_loop.simps) simp
    with Cons.IH [of no rest dn] Cons.prems r False show ?thesis by simp
  qed
qed

lemma readline_line_or_end:
  assumes "only_interrupts rs" and "10 \<notin> set (reads_of rs)" and "1 + int (length (reads_of rs)) < mx"
    and "length (reads_of rs) + 2 \<le> length buffer"
  shows "readline (rs @ (1, 10, e) # later) buffer mx =
      Some (Inr (1 + int (length (reads_of rs)), reads_of rs @ [10, 0] @ drop (length (reads_of rs) + 2) buffer)) \<and>
    readline (rs @ (0, c, False) # later) buffer mx =
      Some (Inr (if reads_of rs = [] then (0, buffer)
        else (1 + int (length (reads_of rs)), reads_of rs @ [0] @ drop (length (reads_of rs) + 1) buffer)))"
proof -
  let ?cs = "reads_of rs"
  obtain x y rest where b: "drop (length ?cs) buffer = x # y # rest"
  proof -
    have "2 \<le> length (drop (length ?cs) buffer)" using assms(4) by simp
    then show thesis using that by (cases "drop (length ?cs) buffer"; cases "tl (drop (length ?cs) buffer)") auto
  qed
  have d: "drop (length ?cs + 2) buffer = rest" "drop (length ?cs + 1) buffer = y # rest"
    using arg_cong [OF b, of "drop 2"] arg_cong [OF b, of "drop 1"] by (simp_all add: add.commute)
  have up: "(?cs @ x # y # rest)[length ?cs := v] = ?cs @ v # y # rest" for v by (simp add: list_update_append)
  have up2: "(?cs @ x' # y # rest)[Suc (length ?cs) := v] = ?cs @ x' # v # rest" for v x' by (simp add: list_update_append)
  have pre: "readline (rs @ l) buffer mx = readline_loop l mx (1 + int (length ?cs)) (?cs @ x # y # rest) (length ?cs)" for l
    using readline_loop_prefix [OF assms(1-3), of buffer l "[]"] assms(4) b by (simp add: readline_def)
  have nil: "?cs = [] \<Longrightarrow> buffer = x # y # rest" using b by simp
  have n: "nat (1 + int (length ?cs)) = Suc (length ?cs)" by simp
  have "readline (rs @ (1, 10, e) # later) buffer mx = Some (Inr (1 + int (length ?cs), ?cs @ 10 # 0 # rest))"
    using assms(3) unfolding pre by (subst readline_loop.simps) (simp add: arr_set_def readline_finish_def up up2 n)
  moreover have "readline (rs @ (0, c, False) # later) buffer mx =
      Some (Inr (if ?cs = [] then (0, buffer) else (1 + int (length ?cs), ?cs @ 0 # y # rest)))"
    using assms(3) nil unfolding pre by (subst readline_loop.simps) (auto simp: arr_set_def readline_finish_def up)
  ultimately show ?thesis unfolding d by simp
qed

lemmas readline_line = readline_line_or_end [THEN conjunct1]

text \<open>\<open>readline\<close> delivers a line. The characters up to and including the line feed are stored and
  terminated, through any number of interrupted calls, and their number is returned. At the end of the
  input 0 is returned with nothing stored if no character came before; otherwise the characters are stored,
  but the number returned is one more than there are.\<close>

theorem readline_spec:
  assumes "only_interrupts rs" and "10 \<notin> set (reads_of rs)" and "1 + int (length (reads_of rs)) < mx"
    and "length (reads_of rs) + 2 \<le> length buffer"
  shows "readline (rs @ (1, 10, e) # later) buffer mx =
      Some (Inr (1 + int (length (reads_of rs)), reads_of rs @ [10, 0] @ drop (length (reads_of rs) + 2) buffer)) \<and>
    readline (rs @ (0, c, False) # later) buffer mx =
      Some (Inr (if reads_of rs = [] then (0, buffer)
        else (1 + int (length (reads_of rs)), reads_of rs @ [0] @ drop (length (reads_of rs) + 1) buffer)))"
  by (rule readline_line_or_end [OF assms])

theorem readline_spec_witness:
  "readline [(1, 72, False), (- 1, 0, True), (1, 105, True), (1, 10, False)] [9, 9, 9, 9, 9] 50 = Some (Inr (3, [72, 105, 10, 0, 9])) \<and>
   readline [(1, 72, False), (- 1, 0, True), (1, 105, True), (0, 0, False)] [9, 9, 9, 9, 9] 50 = Some (Inr (3, [72, 105, 0, 9, 9]))"
  using readline_spec [of "[(1, 72, False), (- 1, 0, True), (1, 105, True)]" 50 "[9, 9, 9, 9, 9]" False "[]" 0] by simp

subsection \<open>Client and server together\<close>

lemma echo_buffer_str:
  assumes "0 \<notin> set msg" and "length msg \<le> 255"
  shows "c_str (echo_buffer msg) = Inr msg"
proof -
  obtain n where n: "256 - length msg = Suc n" using assms(2) by (cases "256 - length msg") auto
  have "takeWhile (\<lambda>b. b \<noteq> 0) (msg @ 0 # replicate n 0) = msg" using assms(1) by (subst takeWhile_append2) auto
  with n assms(2) show ?thesis by (simp add: echo_buffer_def c_str_def)
qed

lemma echo_child_round:
  assumes "0 \<notin> set msg" and "length msg \<le> 255" and "msg \<noteq> lit ''quit'' @ [10]" and "completes ws (int (length msg))"
  shows "echo_child ((Some msg, ws) # rounds) sent = echo_child rounds (sent @ msg)"
proof -
  have "writen ws (echo_buffer msg) (int (length msg)) = Some (Inr (int (length msg), msg))"
    using writen_loop_complete [of ws "int (length msg)" 0 "echo_buffer msg" "[]"] assms(2,4)
    by (simp add: writen_def echo_buffer_def)
  with echo_buffer_str [OF assms(1,2)] assms(3) show ?thesis by simp
qed

lemma echo_round_line:
  assumes "line = body @ [10]" and "0 \<notin> set body" and "10 \<notin> set body" and "length line < 50"
    and "completes ws (int (length line))" and "only_interrupts rs" and "reads_of rs = body" and "length (output_buf c) = 51"
  shows "\<exists>c'. echo_round (Line line False ws (rs @ (1, 10, e) # later)) c = Some (Inr (False, c')) \<and>
    sent_bytes c' = sent_bytes c @ line \<and> echoed c' = echoed c @ [line] \<and> length (output_buf c') = 51"
proof -
  have w: "writen ws (line @ [0]) (int (length line)) = Some (Inr (int (length line), line))"
    using writen_loop_complete [of ws "int (length line)" 0 "line @ [0]" "[]"] assms(5) by (simp add: writen_def)
  have len: "1 + int (length (reads_of rs)) < 50" "length (reads_of rs) + 2 \<le> length (output_buf c)" "10 \<notin> set (reads_of rs)"
    using assms(1,3,4,7,8) by auto
  from readline_line [OF assms(6) len(3,1,2), of e later] assms(1,7)
  have r: "readline (rs @ (1, 10, e) # later) (output_buf c) 50 =
      Some (Inr (int (length line), line @ 0 # drop (length body + 2) (output_buf c)))" by simp
  have "0 \<notin> set line" using assms(1,2) by simp
  then have "c_str (line @ 0 # drop (length body + 2) (output_buf c)) = Inr line"
    by (simp add: c_str_def) (subst takeWhile_append2, auto)
  with w r len(2) assms(1,7,8) show ?thesis by (simp add: echo_round_def MAXCHAR_echo_def)
qed

text \<open>The echo service echoes. A line of at most 49 characters other than \<open>quit\<close> that is typed at the
  client is sent in full, comes back from the server's child unchanged, and is shown by the client exactly
  as it was typed, however the system splits and interrupts the calls on both sides.\<close>

theorem echo_end_to_end:
  assumes "line = body @ [10]" and "0 \<notin> set body" and "10 \<notin> set body" and "length line < 50"
    and "line \<noteq> lit ''quit'' @ [10]" and "completes ws (int (length line))" and "completes ws2 (int (length line))"
    and "only_interrupts rs" and "reads_of rs = body" and "length (output_buf c) = 51"
  shows "\<exists>c'. echo_round (Line line False ws (rs @ (1, 10, e) # later)) c = Some (Inr (False, c')) \<and>
    sent_bytes c' = sent_bytes c @ line \<and> echoed c' = echoed c @ [line] \<and>
    echo_child ((Some line, ws2) # rounds) sent = echo_child rounds (sent @ line)"
  using echo_round_line [OF assms(1-4,6,8-10), of e later] echo_child_round [OF _ _ assms(5,7), of rounds sent] assms(1,2,4) by auto

theorem echo_end_to_end_witness:
  "\<exists>c'. echo_round (Line [72, 10] False [(1, False), (1, False)] [(- 1, 0, True), (1, 72, False), (1, 10, False)])
      \<lparr>output_buf = replicate 51 7, sent_bytes = [], echoed = []\<rparr> = Some (Inr (False, c')) \<and> echoed c' = [[72, 10]] \<and>
    echo_child [(Some [72, 10], [(2, False)]), (Some (lit ''quit'' @ [10]), [])] [] = Some (Inr (Child_quit, [72, 10]))"
proof -
  have q: "echo_child [(Some (lit ''quit'' @ [10]), [])] [72, 10] = Some (Inr (Child_quit, [72, 10]))"
    using echo_buffer_str [of "lit ''quit'' @ [10]"] by (simp add: lit_def byte_of_char_def)
  from echo_end_to_end [of "[72, 10]" "[72]" "[(1, False), (1, False)]" "[(2, False)]" "[(- 1, 0, True), (1, 72, False)]"
      "\<lparr>output_buf = replicate 51 7, sent_bytes = [], echoed = []\<rparr>" False "[]" "[(Some (lit ''quit'' @ [10]), [])]" "[]"]
  show ?thesis using q by (auto simp: completes.simps lit_def byte_of_char_def simp del: echo_child.simps)
qed

text \<open>Claim C35: a client that meets the end of its input in the middle of a line leaves without a word, and
  the child that serves it then never ends: at the end of the connection \<open>read\<close> returns 0, which the child
  takes for an empty message, in every round from then on.\<close>

theorem echo_child_spins:
  "echo_round (Line line True ws rs) c = Some (Inr (True, c)) \<and>
   echo_child (map (\<lambda>ws. (Some [], ws)) wss) sent = Some (Inr (Child_running, sent))"
proof -
  have "echo_child (map (\<lambda>ws. (Some [], ws)) wss) sent = Some (Inr (Child_running, sent))"
  proof (induction wss)
    case (Cons ws wss)
    have "completes ws 0" by (subst completes.simps) simp
    with echo_child_round [of "[]" ws] Cons show ?case by (simp add: lit_def)
  qed simp
  then show ?thesis by (simp add: echo_round_def)
qed

end
