(* ===== verification/Sbcp_Program.thy ===== *)
theory Sbcp_Program
  imports Sbcp_Server Echo C_Numbers
begin

section \<open>The chat server as a program (ECEN602/assignment2: server.cpp, server\_main.cpp)\<close>

text \<open>
  The loop of \<open>sbcp\<close> around \<open>select\<close>, with all descriptors that are readable in a round, the \<open>main\<close> of the
  server, and the function that forwards a text to all clients. \<open>writen\<close> and \<open>readline\<close> of the class are
  the functions of theory \<open>Echo\<close>.
\<close>

text \<open>What a round meets: the descriptors \<open>select\<close> reports; the result of \<open>accept\<close> with the JOIN payload and what \<open>namelist\<close>
  held; and what \<open>read\<close> delivers from each client.\<close>

record select_chat =
  chat_ready :: "int set"
  chat_join :: "int \<times> byte list \<times> byte list"
  chat_input :: "int \<Rightarrow> sbcp_input"

text \<open>\<open>for (i = 0; i <= fdmax; i++)\<close>: a client that joins on the way is not in \<open>read_fds\<close>.\<close>

definition round_events :: "int \<Rightarrow> select_chat \<Rightarrow> sbcp_server \<Rightarrow> sbcp_event list" where
  "round_events srvr_fd r s =
     map (\<lambda>i. if i = srvr_fd then (case chat_join r of (new_fd, payload, namelist0) \<Rightarrow> New_client new_fd payload namelist0)
              else From_client i (chat_input r i))
         (filter (\<lambda>i. i \<in> chat_ready r \<inter> master s) [0..fdmax s])"

datatype chat_end = Chat_running sbcp_server | Chat_exit int

fun sbcp_loop :: "bool c_result \<Rightarrow> int \<Rightarrow> select_chat option list \<Rightarrow> sbcp_server \<Rightarrow> chat_end c_result" where
  "sbcp_loop neg srvr_fd [] s = Inr (Chat_running s)"
| "sbcp_loop neg srvr_fd (None # rs) s = Inr (Chat_exit 4)"
| "sbcp_loop neg srvr_fd (Some r # rs) s = c_bind (sbcp_run neg (round_events srvr_fd r s) s) (sbcp_loop neg srvr_fd rs)"

definition sbcp_main :: "bool c_result \<Rightarrow> byte list list \<Rightarrow> (int \<times> bool) list option \<Rightarrow> bool \<Rightarrow> select_chat option list \<Rightarrow> chat_end c_result" where
  "sbcp_main neg argv ai listen_ok rounds =
     (if length argv < 4 then Inr (Chat_exit 1)
      else c_bind (atoi (argv ! 3)) (\<lambda>max_clnt0.
           c_bind (Server_new ai listen_ok max_clnt0) (\<lambda>r.
           case r of Start_exit n \<Rightarrow> Inr (Chat_exit n)
           | Started s \<Rightarrow> sbcp_loop neg (fdmax s) rounds s)))"

text \<open>\<open>forward_message_char\<close>, which no other function calls: \<open>ws j\<close> are the results of the writes to descriptor \<open>j\<close>.\<close>

fun fwd_char_loop :: "(int \<Rightarrow> (int \<times> bool) list) \<Rightarrow> byte list \<Rightarrow> int \<Rightarrow> int \<Rightarrow> int \<Rightarrow> int set \<Rightarrow> int list \<Rightarrow> (int \<times> byte list) list c_result option" where
  "fwd_char_loop ws buffer self_fd srvr_fd buff_size m [] = Some (Inr [])"
| "fwd_char_loop ws buffer self_fd srvr_fd buff_size m (j # js) =
     (if j \<in> m \<and> j \<noteq> srvr_fd \<and> j \<noteq> self_fd then
        Option.bind (writen (ws j) buffer buff_size) (\<lambda>w.
        case w of Inl u \<Rightarrow> Some (Inl u)
        | Inr (_, out) \<Rightarrow>
            map_option (\<lambda>x. c_bind x (\<lambda>outs. Inr ((j, out) # outs))) (fwd_char_loop ws buffer self_fd srvr_fd buff_size m js))
      else fwd_char_loop ws buffer self_fd srvr_fd buff_size m js)"

definition forward_message_char :: "(int \<Rightarrow> (int \<times> bool) list) \<Rightarrow> byte list \<Rightarrow> int \<Rightarrow> int \<Rightarrow> int \<Rightarrow> sbcp_server \<Rightarrow> (int \<times> byte list) list c_result option" where
  "forward_message_char ws buffer self_fd srvr_fd buff_size s =
     fwd_char_loop ws buffer self_fd srvr_fd buff_size (master s) [0..fdmax s]"

text \<open>The text goes in full to every other client, each exactly once.\<close>

theorem forward_message_char_spec:
  assumes "0 \<le> n" and "nat n \<le> length buffer" and "\<forall>j\<in>master s. completes (ws j) n"
  shows "forward_message_char ws buffer self srvr n s =
    Some (Inr (map (\<lambda>j. (j, take (nat n) buffer)) (filter (\<lambda>j. j \<in> master s \<and> j \<noteq> srvr \<and> j \<noteq> self) [0..fdmax s])))"
proof -
  have "writen (ws j) buffer n = Some (Inr (n, take (nat n) buffer))" if "j \<in> master s" for j
    using writen_loop_complete [of "ws j" n 0 buffer "[]"] assms that by (simp add: writen_def)
  then have "fwd_char_loop ws buffer self srvr n (master s) js =
      Some (Inr (map (\<lambda>j. (j, take (nat n) buffer)) (filter (\<lambda>j. j \<in> master s \<and> j \<noteq> srvr \<and> j \<noteq> self) js)))" for js
    by (induction js) simp_all
  then show ?thesis by (simp add: forward_message_char_def)
qed

subsection \<open>A chat in rounds\<close>















end
