(* ===== verification/Sbcp_Client.thy ===== *)
theory Sbcp_Client
  imports Sbcp_Server
begin

section \<open>The chat client (ECEN602/assignment2/client.c)\<close>

text \<open>
  The messages the client sends, what it prints for a message of the server, and one round of its
  main loop. The header field \<open>Length\<close> of an outgoing message is computed from attribute lengths that
  are not yet set, and the server never sets it at all, so its value is an argument wherever it is read.
  A round gets the clock readings and what \<open>select\<close> found: a line or the end of standard input, a
  message or the end of the connection, or nothing.
\<close>

definition IDLE_INTERVAL :: int where
  "IDLE_INTERVAL = 10"

definition EMPTY :: int where
  "EMPTY = 0"

text \<open>An empty attribute: only the first byte of its payload is written.\<close>

definition empty_attr :: "byte list \<Rightarrow> sbcp_attribute c_result" where
  "empty_attr old = c_bind (arr_set old 0 0) (\<lambda>p. Inr \<lparr>attr_type = Some EMPTY, attr_Length = Some 0, attr_payload = p\<rparr>)"

text \<open>\<open>msg.Length\<close> is computed from the lengths of the attributes before they are set: \<open>junk\<close> is what the
  memory of the local variable \<open>msg\<close> held before.\<close>

definition header_len :: "sbcp_message \<Rightarrow> 16 word option" where
  "header_len junk =
     (case (attr_Length (attr0 junk), attr_Length (attr1 junk)) of
        (Some l0, Some l1) \<Rightarrow> Some (word_of_int (2 * 1 + 2 + sint l0 + sint l1)) | _ \<Rightarrow> None)"

definition attr_of :: "int \<Rightarrow> byte list \<Rightarrow> byte list \<Rightarrow> sbcp_attribute c_result" where
  "attr_of ty old s = c_bind (c_strcpy old (s @ [0])) (\<lambda>p. Inr \<lparr>attr_type = Some ty, attr_Length = Some (of_nat (4 + length s)), attr_payload = p\<rparr>)"

definition JOIN_CHAT :: "sbcp_message \<Rightarrow> byte list \<Rightarrow> sbcp_message c_result" where
  "JOIN_CHAT junk name =
     c_bind (attr_of USERNAME (attr_payload (attr0 junk)) name) (\<lambda>a. c_bind (empty_attr (attr_payload (attr1 junk))) (\<lambda>b.
     Inr \<lparr>Vrsn = 3, msg_Type = JOIN, msg_Length = header_len junk, attr0 = a, attr1 = b\<rparr>))"

definition SEND_MSG :: "sbcp_message \<Rightarrow> byte list \<Rightarrow> sbcp_message c_result" where
  "SEND_MSG junk txt =
     c_bind (attr_of MESSAGE (attr_payload (attr0 junk)) txt) (\<lambda>a. c_bind (empty_attr (attr_payload (attr1 junk))) (\<lambda>b.
     Inr \<lparr>Vrsn = 3, msg_Type = SEND, msg_Length = header_len junk, attr0 = a, attr1 = b\<rparr>))"

definition IDLE_CLIENT :: "sbcp_message \<Rightarrow> sbcp_message c_result" where
  "IDLE_CLIENT junk =
     c_bind (empty_attr (attr_payload (attr0 junk))) (\<lambda>a. c_bind (empty_attr (attr_payload (attr1 junk))) (\<lambda>b.
     Inr \<lparr>Vrsn = 3, msg_Type = IDLE, msg_Length = header_len junk, attr0 = a, attr1 = b\<rparr>))"

text \<open>What is printed for a message of the server, and whether the client leaves its loop.\<close>

definition show_packet :: "sbcp_message \<Rightarrow> (byte list \<times> bool) c_result" where
  "show_packet m =
     (if Vrsn m \<noteq> 3 then Inr ([], False)
      else
        let t0 = attr_type (attr0 m); t1 = attr_type (attr1 m);
            p0 = c_str (attr_payload (attr0 m)); p1 = c_str (attr_payload (attr1 m))
        in if msg_Type m = FWD \<and> t0 = Some USERNAME \<and> t1 = Some MESSAGE then
             c_bind p1 (\<lambda>txt. if txt = lit ''N/A'' then Inr ([], False)
               else c_bind p0 (\<lambda>name. Inr (name @ lit '': '' @ txt @ [10], False)))
           else if msg_Type m = ACK \<and> t0 = Some CLIENT_COUNT \<and> t1 = Some USERNAME then
             c_bind p1 (\<lambda>names. if names = lit ''N/A'' then Inr ([], False)
               else c_bind p0 (\<lambda>n. Inr (lit ''Client has joined the chatroom. There are '' @ n @
                      lit '' members in the chatroom - '' @ names, False)))
           else if msg_Type m = NAK \<and> t0 = Some REASON then c_bind p0 (\<lambda>r. Inr (r @ [10], True))
           else if msg_Type m = ONLINE \<and> t0 = Some USERNAME then
             c_bind p0 (\<lambda>name. Inr (lit ''***'' @ name @ lit '' has joined the chatroom.***'' @ [10], False))
           else if msg_Type m = OFFLINE \<and> t0 = Some USERNAME then
             c_bind p0 (\<lambda>name. Inr (lit ''***'' @ name @ lit '' has left the chatroom.***'' @ [10], False))
           else if msg_Type m = IDLE \<and> t0 = Some USERNAME then
             c_bind p0 (\<lambda>name. Inr (name @ lit '' is idle.'', False))
           else Inr ([], False))"

datatype chat_input =
    Typed "byte list" bool int     \<comment> \<open>a line, whether it met the end of input, the time after sending\<close>
  | Input_ended                    \<comment> \<open>\<open>fgets\<close> returned \<open>NULL\<close>\<close>
  | Received int "16 word" sbcp_message  \<comment> \<open>bytes received and the header's \<open>Length\<close>\<close>
  | Server_closed
  | Nothing_ready

record chat_client =
  last_send :: int
  idle_flag :: int
  to_server :: "sbcp_message list"
  shown :: "byte list list"

definition chat_idle :: "sbcp_message \<Rightarrow> int \<Rightarrow> chat_client \<Rightarrow> chat_client c_result" where
  "chat_idle junk now c =
     (if idle_flag c = 1 \<and> now - last_send c \<ge> IDLE_INTERVAL
      then c_bind (IDLE_CLIENT junk) (\<lambda>m. Inr (c\<lparr>to_server := to_server c @ [m], idle_flag := 0\<rparr>))
      else Inr c)"

text \<open>One round: the idle check and what \<open>select\<close> reported. The truth value says that the loop is left.\<close>

definition chat_round :: "sbcp_message \<Rightarrow> int \<Rightarrow> chat_input \<Rightarrow> chat_client \<Rightarrow> (bool \<times> chat_client) c_result" where
  "chat_round junk now inp c0 =
     c_bind (chat_idle junk now c0) (\<lambda>c.
     case inp of
       Typed line at_eof later \<Rightarrow>
         if at_eof then Inr (True, c)
         else c_bind (SEND_MSG junk line) (\<lambda>m.
              Inr (False, c\<lparr>to_server := to_server c @ [m], last_send := later, idle_flag := 1\<rparr>))
     | Input_ended \<Rightarrow> Inr (False, c)
     | Received n len m \<Rightarrow>
         if n \<ge> sint len then c_bind (show_packet m) (\<lambda>(txt, leave). Inr (leave, c\<lparr>shown := shown c @ [txt]\<rparr>))
         else Inr (False, c)
     | Server_closed \<Rightarrow> Inr (True, c)
     | Nothing_ready \<Rightarrow> Inr (False, c))"

fun chat_rounds :: "sbcp_message \<Rightarrow> (int \<times> chat_input) list \<Rightarrow> chat_client \<Rightarrow> (bool \<times> chat_client) c_result" where
  "chat_rounds junk [] c = Inr (False, c)"
| "chat_rounds junk ((now, inp) # is) c =
     c_bind (chat_round junk now inp c) (\<lambda>(leave, c). if leave then Inr (True, c) else chat_rounds junk is c)"

subsection \<open>Messages between client and server\<close>

lemma attr_of_ok:
  assumes "0 \<notin> set s" and "length s < length old"
  shows "\<exists>p. attr_of ty old s = Inr \<lparr>attr_type = Some ty, attr_Length = Some (of_nat (4 + length s)), attr_payload = p\<rparr> \<and> text_of p = s \<and> 0 \<in> set p \<and> length p = length old"
proof -
  have "c_str (s @ [0]) = Inr s" using assms(1) by (simp add: c_str_def) (subst takeWhile_append2, auto)
  moreover have "takeWhile (\<lambda>b. b \<noteq> 0) (s @ 0 # rest) = s" for rest using assms(1) by (subst takeWhile_append2) auto
  ultimately show ?thesis using assms(2) by (simp add: attr_of_def c_strcpy_def buf_write_def text_of_def)
qed

lemma empty_attr_ok: "old \<noteq> [] \<Longrightarrow> \<exists>a. empty_attr old = Inr a"
  by (simp add: empty_attr_def arr_set_def)

text \<open>What one user types is what the others see. A line typed at the client of \<open>c\<close> becomes a
  message that the server forwards to every other client of the room, and their clients print the
  sender's name, a colon and the line, unless the line is exactly \<open>N/A\<close>.\<close>

theorem chat_end_to_end:
  assumes "room s cs" and "next_reset s" and "c \<in> set cs"
    and "0 \<notin> set line" and "length line < 512" and "line \<noteq> lit ''N/A''"
    and "length (attr_payload (attr0 junk)) = 512" and "length (attr_payload (attr1 junk)) = 512"
    and "length (attr_payload (attr0 (fwd_msg s))) = 512" and "length (attr_payload (attr1 (fwd_msg s))) = 512"
  shows "\<exists>out s' m. SEND_MSG junk line = Inr out \<and>
    sbcp_data (Inr z) (clnt_fd c) (Got_message (msg_Type out) (attr_payload (attr0 out))) s = Inr s' \<and>
    writes s' = writes s @ broadcast m (clnt_fd c) cs @ stray z m \<and>
    show_packet m = Inr (uname c @ lit '': '' @ line @ [10], False)"
proof -
  obtain p b where p: "attr_of MESSAGE (attr_payload (attr0 junk)) line = Inr \<lparr>attr_type = Some MESSAGE, attr_Length = Some (of_nat (4 + length line)), attr_payload = p\<rparr>" "text_of p = line" "0 \<in> set p"
      "length p = 512" "empty_attr (attr_payload (attr1 junk)) = Inr b"
    using attr_of_ok [of line "attr_payload (attr0 junk)" MESSAGE] empty_attr_ok [of "attr_payload (attr1 junk)"] assms(4,5,7,8) by force
  let ?out = "\<lparr>Vrsn = 3, msg_Type = SEND, msg_Length = header_len junk, attr0 = \<lparr>attr_type = Some MESSAGE, attr_Length = Some (of_nat (4 + length line)), attr_payload = p\<rparr>, attr1 = b\<rparr>"
  have out: "SEND_MSG junk line = Inr ?out" using p(1,5) by (simp add: SEND_MSG_def)
  have "SEND \<noteq> IDLE" by (simp add: sbcp_codes)
  from chat_message [OF assms(1-3) this p(3,4) assms(9,10), of z] obtain m s' where
    m: "sbcp_data (Inr z) (clnt_fd c) (Got_message SEND p) s = Inr s'" "carries (uname c) line m"
    "writes s' = writes s @ broadcast m (clnt_fd c) cs @ stray z m" "Vrsn m = 3"
    "c_str (attr_payload (attr0 m)) = Inr (uname c)" "c_str (attr_payload (attr1 m)) = Inr line"
    using p(2) by blast
  then have "show_packet m = Inr (uname c @ lit '': '' @ line @ [10], False)"
    using assms(6) by (simp add: show_packet_def carries_def Let_def)
  with out m show ?thesis by (intro exI [of _ ?out] exI [of _ s'] exI [of _ m]) simp
qed

theorem chat_end_to_end_witness:
  "\<exists>out s' m. SEND_MSG nullchar [72, 105, 10] = Inr out \<and>
    sbcp_data (Inr False) 4 (Got_message (msg_Type out) (attr_payload (attr0 out))) demo_room = Inr s' \<and>
    writes s' = [(5, m), (5, nullchar)] \<and> show_packet m = Inr ([65] @ lit '': '' @ [72, 105, 10, 10], False)"
proof -
  have "clnt_fd (demo_clnt 65 4 0) = 4" "uname (demo_clnt 65 4 0) = [65]" by (simp_all add: demo_clnt_def uname_def)
  with chat_end_to_end [OF demo_room_facts, of "demo_clnt 65 4 0" "[72, 105, 10]" nullchar False] show ?thesis
    by (auto simp: demo_room_def sbcp_init_def blank_attr_def broadcast_def stray_def demo_clnt_def nullchar_def lit_def byte_of_char_def)
qed

subsection \<open>The loop\<close>

lemma idle_client_ok: "attr_payload (attr0 junk) \<noteq> [] \<Longrightarrow> attr_payload (attr1 junk) \<noteq> [] \<Longrightarrow> \<exists>m. IDLE_CLIENT junk = Inr m \<and> msg_Type m = IDLE"
  using empty_attr_ok [of "attr_payload (attr0 junk)"] empty_attr_ok [of "attr_payload (attr1 junk)"] by (auto simp: IDLE_CLIENT_def)

lemma ended_rounds_flag0:
  assumes "idle_flag c = 0"
  shows "chat_rounds junk (map (\<lambda>t. (t, Input_ended)) ts) c = Inr (False, c)"
  using assms by (induction ts) (simp_all add: chat_round_def chat_idle_def)

text \<open>After the end of standard input the client neither leaves its loop nor looks at the
  socket again: however many rounds pass, it prints nothing, and sends nothing but a single IDLE notice
  in the first round that starts ten seconds or more after the last message.\<close>

theorem client_spins_after_eof:
  assumes "attr_payload (attr0 junk) \<noteq> []" and "attr_payload (attr1 junk) \<noteq> []"
  shows "\<exists>c'. chat_rounds junk (map (\<lambda>t. (t, Input_ended)) ts) c = Inr (False, c') \<and> shown c' = shown c \<and>
    length (to_server c') = length (to_server c) +
      (if idle_flag c = 1 \<and> (\<exists>t\<in>set ts. t - last_send c \<ge> IDLE_INTERVAL) then 1 else 0)"
proof (induction ts)
  case Nil
  then show ?case by simp
next
  case (Cons t ts)
  obtain m where m: "IDLE_CLIENT junk = Inr m" using idle_client_ok [OF assms] by blast
  show ?case
  proof (cases "idle_flag c = 1 \<and> t - last_send c \<ge> IDLE_INTERVAL")
    case True
    then show ?thesis
      using ended_rounds_flag0 [of "c\<lparr>to_server := to_server c @ [m], idle_flag := 0\<rparr>" junk ts] m
      by (simp add: chat_round_def chat_idle_def)
  next
    case False
    with Cons show ?thesis by (auto simp: chat_round_def chat_idle_def)
  qed
qed

theorem client_spins_after_eof_witness:
  "\<exists>c'. chat_rounds nullchar [(5, Input_ended), (12, Input_ended), (30, Input_ended)]
      \<lparr>last_send = 0, idle_flag = 1, to_server = [], shown = []\<rparr> = Inr (False, c') \<and> length (to_server c') = 1"
  using client_spins_after_eof [of nullchar "[5, 12, 30]" "\<lparr>last_send = 0, idle_flag = 1, to_server = [], shown = []\<rparr>"]
  by (auto simp: IDLE_INTERVAL_def nullchar_def)

text \<open>A message whose header \<open>Length\<close> happens to exceed the number of bytes received is dropped
  without a word, whatever it says; the server never sets that field.\<close>

theorem client_drops_long_header:
  assumes "n < sint len" and "idle_flag c \<noteq> 1"
  shows "chat_round junk now (Received n len m) c = Inr (False, c)"
  using assms by (simp add: chat_round_def chat_idle_def)

theorem client_drops_long_header_witness:
  "chat_round nullchar 0 (Received 1036 1037 nullchar) \<lparr>last_send = 0, idle_flag = 0, to_server = [], shown = []\<rparr> =
     Inr (False, \<lparr>last_send = 0, idle_flag = 0, to_server = [], shown = []\<rparr>)"
  using client_drops_long_header [of 1036 1037 "\<lparr>last_send = 0, idle_flag = 0, to_server = [], shown = []\<rparr>" nullchar 0 nullchar]
  by simp

end
