(* ===== verification/Sbcp_System.thy ===== *)
theory Sbcp_System
  imports Sbcp_Program Sbcp_Client
begin

section \<open>The chat from its start (ECEN602/assignment2: main of client.c with the server)\<close>



subsection \<open>A client joins\<close>














subsection \<open>From the start of all programs\<close>





end
