(* ===== verification/Echo_Server.thy ===== *)
theory Echo_Server
  imports Echo C_Numbers
begin

section \<open>The echo server as a program (ECEN602/assignment1: server.cpp, server\_main.cpp)\<close>

text \<open>
  The server opens its socket, and then accepts connections for ever; each is served by a child process,
  which runs the loop of theory \<open>Echo\<close>. After \<open>quit\<close> the child returns 2 from \<open>echo\<close>, leaves the loop of
  \<open>main\<close> and ends; the parent always returns 0 from \<open>echo\<close> and goes on. A connection has the results of
  \<open>malloc\<close>, \<open>accept\<close> and \<open>fork\<close> in the parent, and what the child meets.
\<close>

datatype process_end = Serving | Ended int

record connection =
  malloc_ok :: bool
  accept_fd :: int
  fork_pid :: int
  child_rounds :: "(byte list option \<times> (int \<times> bool) list) list"

text \<open>The constructor: the results of \<open>socket\<close> and \<open>bind\<close>; the result of \<open>listen\<close> is not looked at. It gives the
  port the server listens on, or the status of the process.\<close>

definition echo_open :: "byte list \<Rightarrow> int \<Rightarrow> bool \<Rightarrow> (process_end + 16 word) c_result" where
  "echo_open portno sock_ret bind_ok =
     (if sock_ret = - 1 then Inr (Inl (Ended 1))
      else c_bind (port_of portno) (\<lambda>port. if \<not> bind_ok then Inr (Inl (Ended 1)) else Inr (Inr port)))"

text \<open>\<open>handler\<close>, which is installed nowhere: the results of \<open>waitpid\<close>, and the children it reports.\<close>

definition echo_handler :: "int list \<Rightarrow> int list" where
  "echo_handler pids = takeWhile (\<lambda>pid. 0 < pid) pids"

text \<open>The child of a connection, from its return from \<open>fork\<close> to its end, and the bytes it sent.\<close>

definition child_main :: "connection \<Rightarrow> (process_end \<times> byte list) c_result option" where
  "child_main c =
     map_option (\<lambda>r. c_bind r (\<lambda>(how, sent).
       Inr (case how of Child_quit \<Rightarrow> Ended 0 | Child_exit n \<Rightarrow> Ended n | Child_running \<Rightarrow> Serving, sent)))
     (echo_child (child_rounds c) [])"

text \<open>The parent: it ends only when memory or a connection cannot be had. The result has the fate of every child.\<close>

fun server_loop :: "connection list \<Rightarrow> process_end \<times> (process_end \<times> byte list) c_result option list" where
  "server_loop [] = (Serving, [])"
| "server_loop (c # cs) =
     (if \<not> malloc_ok c \<or> accept_fd c = - 1 then (Ended 1, [])
      else case server_loop cs of (how, children) \<Rightarrow>
             (how, if fork_pid c = - 1 then children else child_main c # children))"

definition echo_server_main :: "byte list list \<Rightarrow> int \<Rightarrow> bool \<Rightarrow> connection list \<Rightarrow>
    (process_end \<times> (process_end \<times> byte list) c_result option list) c_result" where
  "echo_server_main argv sock_ret bind_ok cs =
     (if length argv < 2 then Inr (Ended 1, [])
      else c_bind (echo_open (argv ! 1) sock_ret bind_ok) (\<lambda>r.
           case r of Inl how \<Rightarrow> Inr (how, []) | Inr port \<Rightarrow> Inr (server_loop cs)))"

subsection \<open>Every client is served\<close>

text \<open>A connection that the parent accepts and hands to a child.\<close>

definition taken :: "connection \<Rightarrow> bool" where
  "taken c \<longleftrightarrow> malloc_ok c \<and> accept_fd c \<noteq> - 1 \<and> fork_pid c \<noteq> - 1"

text \<open>What the child reads from a client: texts that end with the word \<open>quit\<close> on a line and in a read of its own; texts and no such word, where the
  last reads are empty if the client has left; or anything else, errors included. Texts have no zero byte, at most 255 bytes, and writing them back is
  completed.\<close>

datatype visitor = Quits "byte list list" | Stays "byte list list" | Any

definition reads_texts :: "byte list list \<Rightarrow> (byte list option \<times> (int \<times> bool) list) list \<Rightarrow> bool" where
  "reads_texts ls rounds \<longleftrightarrow> map fst (take (length ls) rounds) = map Some ls \<and>
     (\<forall>l\<in>set ls. 0 \<notin> set l \<and> length l \<le> 255 \<and> l \<noteq> lit ''quit'' @ [10]) \<and>
     (\<forall>(l, ws)\<in>set (zip ls (map snd rounds)). completes ws (int (length l)))"

fun behaves :: "visitor \<Rightarrow> connection \<Rightarrow> bool" where
  "behaves (Quits ls) c \<longleftrightarrow> taken c \<and> reads_texts ls (child_rounds c) \<and> map fst (drop (length ls) (child_rounds c)) = [Some (lit ''quit'' @ [10])]"
| "behaves (Stays ls) c \<longleftrightarrow> taken c \<and> reads_texts ls (child_rounds c) \<and> length (child_rounds c) = length ls"
| "behaves Any c \<longleftrightarrow> taken c"

text \<open>How the child of such a client ends, if it does, and what it has sent back.\<close>

fun fate :: "visitor \<Rightarrow> (process_end \<times> byte list) c_result option \<Rightarrow> bool" where
  "fate (Quits ls) r \<longleftrightarrow> r = Some (Inr (Ended 0, concat ls))"
| "fate (Stays ls) r \<longleftrightarrow> r = Some (Inr (Serving, concat ls))"
| "fate Any r \<longleftrightarrow> True"

lemma echo_child_texts: "reads_texts ls rounds \<Longrightarrow> echo_child rounds sent = echo_child (drop (length ls) rounds) (sent @ concat ls)"
proof (induction ls arbitrary: rounds sent)
  case (Cons l ls)
  then obtain ws rounds' where r: "rounds = (Some l, ws) # rounds'" by (cases rounds) (auto simp: reads_texts_def)
  with Cons.prems have "echo_child rounds sent = echo_child rounds' (sent @ l)"
    using echo_child_round [of l ws rounds' sent] by (simp add: reads_texts_def)
  also have "\<dots> = echo_child (drop (length ls) rounds') ((sent @ l) @ concat ls)"
    using Cons.prems r by (intro Cons.IH) (simp add: reads_texts_def)
  finally show ?case using r by simp
qed simp

lemma child_fate: "behaves v c \<Longrightarrow> fate v (child_main c)"
proof (cases v)
  case (Quits ls)
  assume "behaves v c"
  with Quits have t: "reads_texts ls (child_rounds c)" and e: "map fst (drop (length ls) (child_rounds c)) = [Some (lit ''quit'' @ [10])]" by simp_all
  from e obtain ws where "drop (length ls) (child_rounds c) = [(Some (lit ''quit'' @ [10]), ws)]" by auto
  with echo_child_texts [OF t, of "[]"] Quits show ?thesis
    using echo_buffer_str [of "lit ''quit'' @ [10]"] by (simp add: child_main_def lit_def byte_of_char_def)
next
  case (Stays ls)
  assume "behaves v c"
  with Stays echo_child_texts [of ls "child_rounds c" "[]"] show ?thesis by (simp add: child_main_def)
qed simp

text \<open>Claim C18: the echo server serves any number of clients, and none disturbs another. Whatever mixture of clients connects, as long as memory, connections
  and processes can be had, each gets a child of its own and the server goes on accepting. A client that sends its texts and then \<open>quit\<close>, which the child
  gets in a read of its own, gets exactly these texts back and its child ends with status 0; the child of a client that sends its texts and
  says nothing more, or leaves, has sent exactly these texts back and is still running, after however many empty reads; and this holds whatever the
  other clients do.\<close>

theorem echo_server_serves:
  assumes "int port \<le> INT_MAX" and "sock_ret \<noteq> - 1" and "list_all2 behaves vs cs"
  shows "\<exists>children. echo_server_main [prog, dec_digits port] sock_ret True cs = Inr (Serving, children) \<and> list_all2 fate vs children"
proof -
  have "server_loop cs = (Serving, map child_main cs) \<and> list_all2 fate vs (map child_main cs)"
    using assms(3)
  proof (induction vs cs rule: list_all2_induct)
    case (Cons v vs c cs)
    then have "taken c" by (cases v) simp_all
    with Cons child_fate [OF Cons.hyps(1)] show ?case by (simp add: taken_def)
  qed simp
  moreover have "port_of (dec_digits port) = Inr (word_of_int (int port))"
    using atoi_dec [OF assms(1), of "[]"] by (simp add: port_of_def)
  ultimately show ?thesis using assms(2) by (simp add: echo_server_main_def echo_open_def)
qed

theorem echo_server_serves_witness:
  "\<exists>r. echo_server_main [[], dec_digits 7] 3 True
     [\<lparr>malloc_ok = True, accept_fd = 4, fork_pid = 100, child_rounds = [(Some [72, 10], [(1, False), (1, False)]), (Some (lit ''quit'' @ [10]), [])]\<rparr>,
      \<lparr>malloc_ok = True, accept_fd = 4, fork_pid = 101, child_rounds = [(None, [])]\<rparr>,
      \<lparr>malloc_ok = True, accept_fd = 4, fork_pid = 102, child_rounds = [(Some [72], [(1, False)]), (Some [], [])]\<rparr>] =
   Inr (Serving, [Some (Inr (Ended 0, [72, 10])), r, Some (Inr (Serving, [72]))])"
proof -
  let ?cs = "[\<lparr>malloc_ok = True, accept_fd = 4, fork_pid = 100, child_rounds = [(Some [72, 10], [(1, False), (1, False)]), (Some (lit ''quit'' @ [10]), [])]\<rparr>,
      \<lparr>malloc_ok = True, accept_fd = 4, fork_pid = 101, child_rounds = [(None, [])]\<rparr>,
      \<lparr>malloc_ok = True, accept_fd = 4, fork_pid = 102, child_rounds = [(Some [72], [(1, False)]), (Some [], [])]\<rparr>]"
  have "list_all2 behaves [Quits [[72, 10]], Any, Stays [[72], []]] ?cs"
    by (simp add: taken_def reads_texts_def completes.simps lit_def byte_of_char_def)
  from echo_server_serves [OF _ _ this, of 7 3 "[]"] show ?thesis by (auto simp: INT_MAX_def list_all2_Cons1)
qed

text \<open>A failing \<open>fork\<close> is not noticed: the connection is closed and the server goes on as if it had not been made.\<close>

theorem echo_fork_failure_skips:
  assumes "malloc_ok c" and "accept_fd c \<noteq> - 1" and "fork_pid c = - 1"
  shows "server_loop (c # cs) = server_loop cs"
  using assms by (cases "server_loop cs") simp

end
