(* ===== verification/Echo_Session.thy ===== *)
theory Echo_Session
  imports Echo_Server
begin

section \<open>The echo client as a program, and a session with the server (ECEN602/assignment1: echo.c)\<close>



subsection \<open>Lines of a session\<close>









subsection \<open>A whole session\<close>



subsection \<open>Pieces that read quit\<close>

text \<open>The condition on the pieces cannot be left out: a line that only ends in \<open>quit\<close> closes the session when its end reaches the
  child alone, and a \<open>quit\<close> that arrives in two pieces does not close it but is echoed.\<close>

theorem echo_piece_quits:
  assumes "0 \<notin> set p" and "length p \<le> 255" and "p \<noteq> lit ''quit'' @ [10]" and "completes ws (int (length p))"
  shows "echo_child ((Some p, ws) # (Some (lit ''quit'' @ [10]), ws2) # rounds) sent = Some (Inr (Child_quit, sent @ p))"
  using echo_child_round [OF assms] echo_buffer_str [of "lit ''quit'' @ [10]"] by (simp add: lit_def byte_of_char_def)

theorem echo_quit_in_pieces:
  assumes "p @ q = lit ''quit'' @ [10]" and "p \<noteq> []" and "q \<noteq> []" and "completes ws (int (length p))" and "completes ws2 (int (length q))"
  shows "echo_child [(Some p, ws), (Some q, ws2)] sent = Some (Inr (Child_running, sent @ lit ''quit'' @ [10]))"
proof -
  have z: "0 \<notin> set (p @ q)" "length (p @ q) = 5" unfolding assms(1) by (simp_all add: lit_def byte_of_char_def)
  then have "p \<noteq> lit ''quit'' @ [10]" "q \<noteq> lit ''quit'' @ [10]" using assms(2,3) by (auto simp: lit_def)
  moreover have "0 \<notin> set p" "0 \<notin> set q" "length p \<le> 255" "length q \<le> 255" using z by auto
  ultimately show ?thesis
    using echo_child_round [of p ws "[(Some q, ws2)]" sent] echo_child_round [of q ws2 "[]" "sent @ p"] assms(1,4,5)
    by (simp del: echo_child.simps(3))
qed

end
