(* ===== verification/Multiplier.thy ===== *)
theory Multiplier
  imports Prelude
begin

section \<open>The multiplier driver (ECEN749 lab5, lab6)\<close>

text \<open>
  The character device of multiplier.c: a buffer of three integers obtained from \<open>kmalloc\<close>, of which the
  model keeps the twelve bytes, and the two pointers \<open>bf_Ptr\<close> and \<open>char_bf_Ptr\<close> into it, as offsets in
  bytes. The multiplier core behind the registers is not part of the sources: \<open>core i a b\<close> is what reading
  register \<open>i\<close> gives after \<open>a\<close> and \<open>b\<close> were written to registers 0 and 1. Integers are stored with the
  low byte first, as on the ARM processor of the board.

  The module of lab5 and the test program of lab6 (devtest.c) follow.
\<close>

type_synonym mult_core = "nat \<Rightarrow> 32 word \<Rightarrow> 32 word \<Rightarrow> 32 word"

definition INT_BUF_LEN :: nat where
  "INT_BUF_LEN = 3"

definition EINVAL :: int where
  "EINVAL = 22"

record mult_dev =
  kbuf :: "byte list"
  bf_Ptr :: int
  char_bf_Ptr :: int
  reg0 :: "32 word"
  reg1 :: "32 word"

definition le_bytes :: "32 word \<Rightarrow> byte list" where
  "le_bytes w = [ucast w, ucast (drop_bit 8 w), ucast (drop_bit 16 w), ucast (drop_bit 24 w)]"

fun le_word :: "byte list \<Rightarrow> 32 word" where
  "le_word [a, b, c, d] = ucast a OR push_bit 8 (ucast b) OR push_bit 16 (ucast c) OR push_bit 24 (ucast d)"
| "le_word _ = 0"

text \<open>Four bytes at an offset of the buffer; an offset outside the buffer is an access out of bounds.\<close>

definition put_int :: "int \<Rightarrow> 32 word \<Rightarrow> mult_dev \<Rightarrow> mult_dev c_result" where
  "put_int off w d =
     (if off < 0 then Inl Out_of_bounds
      else c_bind (buf_write (nat off) (le_bytes w) (kbuf d)) (\<lambda>b. Inr (d\<lparr>kbuf := b\<rparr>)))"

definition get_int :: "int \<Rightarrow> mult_dev \<Rightarrow> 32 word c_result" where
  "get_int off d =
     (if off < 0 then Inl Out_of_bounds else c_bind (buf_read (nat off) 4 (kbuf d)) (\<lambda>bs. Inr (le_word bs)))"

text \<open>\<open>my_init\<close>: the block from \<open>kmalloc\<close> holds whatever it held before; \<open>r0\<close>, \<open>r1\<close> are the registers' contents.
  A negative major number fails the load without releasing anything.\<close>

definition mult_init :: "byte list \<Rightarrow> int \<Rightarrow> 32 word \<Rightarrow> 32 word \<Rightarrow> int \<times> mult_dev" where
  "mult_init block Major r0 r1 =
     (if Major < 0 then Major else 0, \<lparr>kbuf = block, bf_Ptr = 0, char_bf_Ptr = 0, reg0 = r0, reg1 = r1\<rparr>)"

text \<open>\<open>my_cleanup\<close>: \<open>kfree\<close> needs the pointer that \<open>kmalloc\<close> returned.\<close>

definition mult_cleanup :: "mult_dev \<Rightarrow> unit c_result" where
  "mult_cleanup d = (if bf_Ptr d = 0 then Inr () else Inl Bad_free)"

fun read_regs :: "mult_core \<Rightarrow> nat list \<Rightarrow> mult_dev \<Rightarrow> mult_dev c_result" where
  "read_regs core [] d = Inr d"
| "read_regs core (i # is) d =
     c_bind (put_int (bf_Ptr d + 4 * int i) (core i (reg0 d) (reg1 d)) d) (read_regs core is)"

text \<open>The loop that hands bytes to the user, whatever the length asked for.\<close>

fun put_user_loop :: "nat \<Rightarrow> mult_dev \<Rightarrow> byte list \<Rightarrow> (byte list \<times> mult_dev) c_result" where
  "put_user_loop 0 d out = Inr (out, d)"
| "put_user_loop (Suc n) d out =
     c_bind (arr_get (kbuf d) (char_bf_Ptr d)) (\<lambda>b.
     put_user_loop n (d\<lparr>char_bf_Ptr := char_bf_Ptr d + 1\<rparr>) (out @ [b]))"

definition mult_read :: "mult_core \<Rightarrow> nat \<Rightarrow> mult_dev \<Rightarrow> (int \<times> byte list \<times> mult_dev) c_result" where
  "mult_read core len d =
     (if len > 12 then Inr (- EINVAL, [], d)
      else c_bind (read_regs core [0, 1, 2] d) (\<lambda>d1.
           c_bind (put_user_loop 12 (d1\<lparr>char_bf_Ptr := bf_Ptr d1\<rparr>) []) (\<lambda>(out, d2). Inr (12, out, d2))))"

fun get_user_loop :: "nat \<Rightarrow> byte list \<Rightarrow> mult_dev \<Rightarrow> mult_dev c_result" where
  "get_user_loop i [] d = Inr d"
| "get_user_loop i (b # bs) d =
     c_bind (arr_set (kbuf d) (char_bf_Ptr d + int i) b) (\<lambda>k. get_user_loop (Suc i) bs (d\<lparr>kbuf := k\<rparr>))"

text \<open>\<open>device_write\<close> returns the final value of its loop variable, the number of registers written.\<close>

definition mult_write :: "byte list \<Rightarrow> mult_dev \<Rightarrow> (int \<times> mult_dev) c_result" where
  "mult_write user d =
     (if length user > 8 then Inr (- EINVAL, d)
      else c_bind (get_user_loop 0 user d) (\<lambda>d1.
           let d2 = d1\<lparr>bf_Ptr := char_bf_Ptr d1\<rparr>
           in c_bind (get_int (bf_Ptr d2) d2) (\<lambda>a. c_bind (get_int (bf_Ptr d2 + 4) d2) (\<lambda>b.
              Inr (2, d2\<lparr>reg0 := a, reg1 := b\<rparr>)))))"

text \<open>The module of lab5 writes 7 and 2 and reads the three registers.\<close>

definition multiply_init :: "mult_core \<Rightarrow> 32 word list" where
  "multiply_init core = map (\<lambda>i. core i 7 2) [0, 1, 2]"

text \<open>
  The test program: for every pair it writes, reads back and compares, until the user enters \<open>q\<close>. A
  result is the two operands read, the product read and whether it is the expected one.
\<close>

fun devtest_loop :: "mult_core \<Rightarrow> (nat \<times> nat) list \<Rightarrow> byte list \<Rightarrow> mult_dev \<Rightarrow> (32 word \<times> 32 word \<times> 32 word \<times> bool) list c_result" where
  "devtest_loop core [] keys d = Inr []"
| "devtest_loop core ((i, j) # ps) keys d =
     c_bind (mult_write (le_bytes (of_nat i) @ le_bytes (of_nat j)) d) (\<lambda>(_, d1).
     c_bind (mult_read core 12 d1) (\<lambda>(_, out, d2).
     let a = le_word (take 4 out); b = le_word (take 4 (drop 4 out)); r = le_word (take 4 (drop 8 out));
         line = (a, b, r, r = of_nat (i * j))
     in case keys of [] \<Rightarrow> Inr [line]
        | k # ks \<Rightarrow> if k = 113 then Inr [line] else c_bind (devtest_loop core ps ks d2) (\<lambda>ls. Inr (line # ls))))"

definition devtest_main :: "mult_core \<Rightarrow> byte list \<Rightarrow> mult_dev \<Rightarrow> (32 word \<times> 32 word \<times> 32 word \<times> bool) list c_result" where
  "devtest_main core keys d = devtest_loop core (List.product [0..<17] [0..<17]) keys d"

subsection \<open>Words and bytes\<close>

lemma le_word_bytes [simp]: "le_word (le_bytes w) = w"
proof (rule bit_word_eqI)
  fix n assume "n < LENGTH(32)"
  then consider "n < 8" | "8 \<le> n \<and> n < 16" | "16 \<le> n \<and> n < 24" | "24 \<le> n \<and> n < 32" by force
  then show "bit (le_word (le_bytes w)) n = bit w n" by cases (auto simp: le_bytes_def bit_simps)
qed

lemma length_le_bytes [simp]: "length (le_bytes w) = 4"
  by (simp add: le_bytes_def)

lemma le_bytes_list: "\<exists>a b c d. le_bytes w = [a, b, c, d]"
  by (simp add: le_bytes_def)

subsection \<open>A write and a read\<close>

text \<open>What the board's documentation says of the core: registers 0 and 1 read back, register 2 holds the
  product of 32 bits.\<close>

definition multiplies :: "mult_core \<Rightarrow> bool" where
  "multiplies core \<longleftrightarrow> (\<forall>a b. core 0 a b = a \<and> core 1 a b = b \<and> core 2 a b = a * b)"

definition just_loaded :: "mult_dev \<Rightarrow> bool" where
  "just_loaded d \<longleftrightarrow> length (kbuf d) = 12 \<and> bf_Ptr d = 0 \<and> char_bf_Ptr d = 0"

lemma mult_write_loaded:
  assumes "just_loaded d"
  shows "\<exists>k. mult_write (le_bytes a @ le_bytes b) d = Inr (2, d\<lparr>kbuf := k, bf_Ptr := 0, reg0 := a, reg1 := b\<rparr>) \<and> length k = 12"
proof -
  obtain a0 a1 a2 a3 b0 b1 b2 b3 where ab: "le_bytes a = [a0, a1, a2, a3]" "le_bytes b = [b0, b1, b2, b3]"
    using le_bytes_list by metis
  have w: "le_word [a0, a1, a2, a3] = a" "le_word [b0, b1, b2, b3] = b" using le_word_bytes ab by metis+
  from assms obtain x0 x1 x2 x3 x4 x5 x6 x7 x8 x9 x10 x11 where k: "kbuf d = [x0, x1, x2, x3, x4, x5, x6, x7, x8, x9, x10, x11]"
    by (auto simp: just_loaded_def numeral_eq_Suc length_Suc_conv)
  have "get_user_loop 0 (le_bytes a @ le_bytes b) d =
      Inr (d\<lparr>kbuf := [a0, a1, a2, a3, b0, b1, b2, b3, x8, x9, x10, x11]\<rparr>)"
    using assms by (simp add: ab k just_loaded_def arr_set_def)
  then have "mult_write (le_bytes a @ le_bytes b) d =
      Inr (2, d\<lparr>kbuf := [a0, a1, a2, a3, b0, b1, b2, b3, x8, x9, x10, x11], bf_Ptr := 0, reg0 := a, reg1 := b\<rparr>)"
    using assms w by (simp add: mult_write_def get_int_def buf_read_def just_loaded_def del: le_word.simps)
  then show ?thesis by (intro exI [of _ "[a0, a1, a2, a3, b0, b1, b2, b3, x8, x9, x10, x11]"]) simp
qed

lemma put_user_all:
  "i + n \<le> length (kbuf d) \<Longrightarrow> put_user_loop n (d\<lparr>char_bf_Ptr := int i\<rparr>) out =
     Inr (out @ take n (drop i (kbuf d)), d\<lparr>char_bf_Ptr := int (i + n)\<rparr>)"
proof (induction n arbitrary: i out)
  case 0
  then show ?case by simp
next
  case (Suc n)
  then have "i < length (kbuf d)" by simp
  then have "drop i (kbuf d) = kbuf d ! i # drop (Suc i) (kbuf d)" by (simp add: Cons_nth_drop_Suc)
  with Suc.IH [of "Suc i" "out @ [kbuf d ! i]"] Suc.prems show ?case by (simp add: arr_get_def add.commute)
qed

lemma mult_read_ok:
  assumes "length (kbuf d) = 12" and "bf_Ptr d = 0" and "len \<le> 12"
  shows "mult_read core len d = Inr (12,
      le_bytes (core 0 (reg0 d) (reg1 d)) @ le_bytes (core 1 (reg0 d) (reg1 d)) @ le_bytes (core 2 (reg0 d) (reg1 d)),
      d\<lparr>kbuf := le_bytes (core 0 (reg0 d) (reg1 d)) @ le_bytes (core 1 (reg0 d) (reg1 d)) @ le_bytes (core 2 (reg0 d) (reg1 d)),
        char_bf_Ptr := 12\<rparr>)"
proof -
  let ?k = "le_bytes (core 0 (reg0 d) (reg1 d)) @ le_bytes (core 1 (reg0 d) (reg1 d)) @ le_bytes (core 2 (reg0 d) (reg1 d))"
  have "read_regs core [0, 1, 2] d = Inr (d\<lparr>kbuf := ?k\<rparr>)"
    using assms(1,2) by (simp add: put_int_def buf_write_def)
  with put_user_all [of 0 12 "d\<lparr>kbuf := ?k\<rparr>" "[]"] assms show ?thesis by (simp add: mult_read_def)
qed

text \<open>Claim C19: the driver multiplies. After two integers have been written to a freshly loaded driver, a
  read delivers these integers and their product modulo two to the thirty-second, whatever length up to
  twelve was asked for. (The write reports 2, the number of registers, instead of the eight bytes it
  used; the read always stores twelve bytes and reports them.)\<close>

theorem mult_write_read:
  assumes "multiplies core" and "just_loaded d" and "len \<le> 12"
  shows "\<exists>d1 d2. mult_write (le_bytes a @ le_bytes b) d = Inr (2, d1) \<and>
    mult_read core len d1 = Inr (12, le_bytes a @ le_bytes b @ le_bytes (a * b), d2)"
proof -
  from mult_write_loaded [OF assms(2), of a b] obtain k where
    k: "mult_write (le_bytes a @ le_bytes b) d = Inr (2, d\<lparr>kbuf := k, bf_Ptr := 0, reg0 := a, reg1 := b\<rparr>)" "length k = 12" by blast
  show ?thesis
    using mult_read_ok [of "d\<lparr>kbuf := k, bf_Ptr := 0, reg0 := a, reg1 := b\<rparr>" len core] k assms(1,3)
    by (auto simp: multiplies_def)
qed

definition demo_core :: mult_core where
  "demo_core i a b = (if i = 0 then a else if i = 1 then b else a * b)"

definition demo_dev :: mult_dev where
  "demo_dev = snd (mult_init (replicate 12 170) 245 0 0)"

lemma demo_mult: "multiplies demo_core" "just_loaded demo_dev"
  by (simp_all add: multiplies_def demo_core_def just_loaded_def demo_dev_def mult_init_def)

lemma demo_bytes:
  "le_bytes 7 = [7, 0, 0, 0]" "le_bytes 0x80000000 = [0, 0, 0, 128]" "le_bytes (7 * 0x80000000) = [0, 0, 0, 128]"
  by code_simp+

theorem mult_write_read_witness:
  "\<exists>d1 d2. mult_write [7, 0, 0, 0, 0, 0, 0, 128] demo_dev = Inr (2, d1) \<and>
     mult_read demo_core 12 d1 = Inr (12, [7, 0, 0, 0, 0, 0, 0, 128, 0, 0, 0, 128], d2)"
  using mult_write_read [OF demo_mult, where len = 12 and a = 7 and b = "0x80000000"]
  unfolding demo_bytes by simp

text \<open>The driver survives one read. A read leaves \<open>char_bf_Ptr\<close> behind the buffer, so that every
  write the driver accepts after it, of whatever length, accesses kernel memory behind the buffer.\<close>

theorem mult_write_after_read:
  assumes "length (kbuf d) = 12" and "bf_Ptr d = 0" and "len \<le> 12" and "length user \<le> 8"
  shows "\<exists>n out d1. mult_read core len d = Inr (n, out, d1) \<and> mult_write user d1 = Inl Out_of_bounds"
proof -
  obtain out d1 where r: "mult_read core len d = Inr (12, out, d1)" "length (kbuf d1) = 12" "char_bf_Ptr d1 = 12"
    using mult_read_ok [OF assms(1-3)] by simp
  have "mult_write user d1 = Inl Out_of_bounds"
    using r(2,3) assms(4) by (cases user) (simp_all add: mult_write_def arr_set_def get_int_def buf_read_def)
  with r(1) show ?thesis by blast
qed

theorem mult_write_after_read_witness:
  "\<exists>n out d1. mult_read demo_core 12 demo_dev = Inr (n, out, d1) \<and> mult_write [1, 0, 0, 0, 1, 0, 0, 0] d1 = Inl Out_of_bounds"
  by (rule mult_write_after_read) (use demo_mult(2) in \<open>simp_all add: just_loaded_def\<close>)

text \<open>The test program reports its first product as correct, and, unless the user quits there,
  makes the driver overrun its buffer with the second pair.\<close>

theorem devtest_second_pair:
  assumes "multiplies core" and "just_loaded d"
  shows "devtest_main core keys d =
    (case keys of k # ks \<Rightarrow> if k = 113 then Inr [(0, 0, 0, True)] else Inl Out_of_bounds | [] \<Rightarrow> Inr [(0, 0, 0, True)])"
proof -
  from mult_write_loaded [OF assms(2), of 0 0] obtain k where
    k: "mult_write (le_bytes 0 @ le_bytes 0) d = Inr (2, d\<lparr>kbuf := k, bf_Ptr := 0, reg0 := 0, reg1 := 0\<rparr>)" "length k = 12" by blast
  let ?d = "d\<lparr>kbuf := k, bf_Ptr := 0, reg0 := 0, reg1 := 0\<rparr>"
  have z: "core 0 0 0 = 0" "core 1 0 0 = 0" "core 2 0 0 = 0" using assms(1) by (simp_all add: multiplies_def)
  obtain d2 where r: "mult_read core 12 ?d = Inr (12, le_bytes 0 @ le_bytes 0 @ le_bytes 0, d2)" "char_bf_Ptr d2 = 12" "length (kbuf d2) = 12"
    using mult_read_ok [of ?d 12 core] k(2) z by simp
  have oob: "mult_write (le_bytes 0 @ le_bytes 1) d2 = Inl Out_of_bounds"
    using r(2,3) by (simp add: mult_write_def arr_set_def le_bytes_def)
  have p: "List.product [0..<17] [0..<17] = (0, 0) # (0, 1) # drop 2 (List.product [0..<17] [0..<17 :: nat])"
    by (simp add: upt_rec)
  have "devtest_loop core ((0, 0) # (0, 1) # ps) keys d =
    (case keys of k # ks \<Rightarrow> if k = 113 then Inr [(0, 0, 0, True)] else Inl Out_of_bounds | [] \<Rightarrow> Inr [(0, 0, 0, True)])" for ps
    using k(1) r(1) oob by (simp split: list.split)
  then show ?thesis unfolding devtest_main_def by (subst p) simp
qed

theorem devtest_second_pair_witness: "devtest_main demo_core [10] demo_dev = Inl Out_of_bounds"
  using devtest_second_pair [OF demo_mult, of "[10]"] by simp

lemma multiply_init_14: "multiplies core \<Longrightarrow> multiply_init core = [7, 2, 14]"
  by (simp add: multiplies_def multiply_init_def)

end
