(* ===== verification/Xparameters.thy ===== *)
theory Xparameters
  imports Multiplier
begin

section \<open>The address map of the board (ECEN749/lab6/src: xparameters.h, xparameters\_ps.h, multiplier.h)\<close>

text \<open>
  The macros of the platform headers that the multiplier driver is built with, one record per peripheral with the source's names, the blocks and
  interrupts of the processor, and the physical addresses that the driver reaches through its mapping.
\<close>

record peripheral =
  device_id :: "nat option"
  baseaddr :: "32 word"
  highaddr :: "32 word option"
  dist_baseaddr :: "32 word option"
  clk_freq_hz :: "nat option"
  features :: "(string \<times> nat) list"

subsection \<open>xparameters.h\<close>

definition XPAR_PS7_DEV_CFG_0 :: peripheral where
  "XPAR_PS7_DEV_CFG_0 = \<lparr>device_id = Some 0, baseaddr = 0xF8007000, highaddr = Some 0xF80070FF, dist_baseaddr = None, clk_freq_hz = None, features = []\<rparr>"

definition XPAR_XDCFG_0 :: peripheral where
  "XPAR_XDCFG_0 = \<lparr>device_id = device_id XPAR_PS7_DEV_CFG_0, baseaddr = 0xF8007000, highaddr = Some 0xF80070FF, dist_baseaddr = None, clk_freq_hz = None, features = []\<rparr>"

definition XPAR_PS7_DMA_NS :: peripheral where
  "XPAR_PS7_DMA_NS = \<lparr>device_id = Some 0, baseaddr = 0xF8004000, highaddr = Some 0xF8004FFF, dist_baseaddr = None, clk_freq_hz = None, features = []\<rparr>"

definition XPAR_PS7_DMA_S :: peripheral where
  "XPAR_PS7_DMA_S = \<lparr>device_id = Some 1, baseaddr = 0xF8003000, highaddr = Some 0xF8003FFF, dist_baseaddr = None, clk_freq_hz = None, features = []\<rparr>"

definition XPAR_XDMAPS_0 :: peripheral where
  "XPAR_XDMAPS_0 = \<lparr>device_id = device_id XPAR_PS7_DMA_NS, baseaddr = 0xF8004000, highaddr = Some 0xF8004FFF, dist_baseaddr = None, clk_freq_hz = None, features = []\<rparr>"

definition XPAR_XDMAPS_1 :: peripheral where
  "XPAR_XDMAPS_1 = \<lparr>device_id = device_id XPAR_PS7_DMA_S, baseaddr = 0xF8003000, highaddr = Some 0xF8003FFF, dist_baseaddr = None, clk_freq_hz = None, features = []\<rparr>"

definition XPAR_PS7_AFI_0 :: peripheral where
  "XPAR_PS7_AFI_0 = \<lparr>device_id = None, baseaddr = 0xF8008000, highaddr = Some 0xF8008FFF, dist_baseaddr = None, clk_freq_hz = None, features = []\<rparr>"

definition XPAR_PS7_AFI_1 :: peripheral where
  "XPAR_PS7_AFI_1 = \<lparr>device_id = None, baseaddr = 0xF8009000, highaddr = Some 0xF8009FFF, dist_baseaddr = None, clk_freq_hz = None, features = []\<rparr>"

definition XPAR_PS7_AFI_2 :: peripheral where
  "XPAR_PS7_AFI_2 = \<lparr>device_id = None, baseaddr = 0xF800A000, highaddr = Some 0xF800AFFF, dist_baseaddr = None, clk_freq_hz = None, features = []\<rparr>"

definition XPAR_PS7_AFI_3 :: peripheral where
  "XPAR_PS7_AFI_3 = \<lparr>device_id = None, baseaddr = 0xF800B000, highaddr = Some 0xF800BFFF, dist_baseaddr = None, clk_freq_hz = None, features = []\<rparr>"

definition XPAR_PS7_DDR_0 :: peripheral where
  "XPAR_PS7_DDR_0 = \<lparr>device_id = None, baseaddr = 0x00100000, highaddr = Some 0x1FFFFFFF, dist_baseaddr = None, clk_freq_hz = None, features = []\<rparr>"

definition XPAR_PS7_DDRC_0 :: peripheral where
  "XPAR_PS7_DDRC_0 = \<lparr>device_id = None, baseaddr = 0xF8006000, highaddr = Some 0xF8006FFF, dist_baseaddr = None, clk_freq_hz = None, features = []\<rparr>"

definition XPAR_PS7_GLOBALTIMER_0 :: peripheral where
  "XPAR_PS7_GLOBALTIMER_0 = \<lparr>device_id = None, baseaddr = 0xF8F00200, highaddr = Some 0xF8F002FF, dist_baseaddr = None, clk_freq_hz = None, features = []\<rparr>"

definition XPAR_PS7_GPV_0 :: peripheral where
  "XPAR_PS7_GPV_0 = \<lparr>device_id = None, baseaddr = 0xF8900000, highaddr = Some 0xF89FFFFF, dist_baseaddr = None, clk_freq_hz = None, features = []\<rparr>"

definition XPAR_PS7_INTC_DIST_0 :: peripheral where
  "XPAR_PS7_INTC_DIST_0 = \<lparr>device_id = None, baseaddr = 0xF8F01000, highaddr = Some 0xF8F01FFF, dist_baseaddr = None, clk_freq_hz = None, features = []\<rparr>"

definition XPAR_PS7_IOP_BUS_CONFIG_0 :: peripheral where
  "XPAR_PS7_IOP_BUS_CONFIG_0 = \<lparr>device_id = None, baseaddr = 0xE0200000, highaddr = Some 0xE0200FFF, dist_baseaddr = None, clk_freq_hz = None, features = []\<rparr>"

definition XPAR_PS7_L2CACHEC_0 :: peripheral where
  "XPAR_PS7_L2CACHEC_0 = \<lparr>device_id = None, baseaddr = 0xF8F02000, highaddr = Some 0xF8F02FFF, dist_baseaddr = None, clk_freq_hz = None, features = []\<rparr>"

definition XPAR_PS7_OCMC_0 :: peripheral where
  "XPAR_PS7_OCMC_0 = \<lparr>device_id = None, baseaddr = 0xF800C000, highaddr = Some 0xF800CFFF, dist_baseaddr = None, clk_freq_hz = None, features = []\<rparr>"

definition XPAR_PS7_PL310_0 :: peripheral where
  "XPAR_PS7_PL310_0 = \<lparr>device_id = None, baseaddr = 0xF8F02000, highaddr = Some 0xF8F02FFF, dist_baseaddr = None, clk_freq_hz = None, features = []\<rparr>"

definition XPAR_PS7_PMU_0 :: peripheral where
  "XPAR_PS7_PMU_0 = \<lparr>device_id = None, baseaddr = 0xF8891000, highaddr = Some 0xF8891FFF, dist_baseaddr = None, clk_freq_hz = None, features = []\<rparr>"

definition XPAR_PS7_PMU_0_PMU1 :: peripheral where
  "XPAR_PS7_PMU_0_PMU1 = \<lparr>device_id = None, baseaddr = 0xF8893000, highaddr = Some 0xF8893FFF, dist_baseaddr = None, clk_freq_hz = None, features = []\<rparr>"

definition XPAR_PS7_RAM_0 :: peripheral where
  "XPAR_PS7_RAM_0 = \<lparr>device_id = None, baseaddr = 0x00000000, highaddr = Some 0x0003FFFF, dist_baseaddr = None, clk_freq_hz = None, features = []\<rparr>"

definition XPAR_PS7_RAM_1 :: peripheral where
  "XPAR_PS7_RAM_1 = \<lparr>device_id = None, baseaddr = 0xFFFC0000, highaddr = Some 0xFFFFFFFF, dist_baseaddr = None, clk_freq_hz = None, features = []\<rparr>"

definition XPAR_PS7_SCUC_0 :: peripheral where
  "XPAR_PS7_SCUC_0 = \<lparr>device_id = None, baseaddr = 0xF8F00000, highaddr = Some 0xF8F000FC, dist_baseaddr = None, clk_freq_hz = None, features = []\<rparr>"

definition XPAR_PS7_SLCR_0 :: peripheral where
  "XPAR_PS7_SLCR_0 = \<lparr>device_id = None, baseaddr = 0xF8000000, highaddr = Some 0xF8000FFF, dist_baseaddr = None, clk_freq_hz = None, features = []\<rparr>"

definition XPAR_MULTIPLY_0 :: peripheral where
  "XPAR_MULTIPLY_0 = \<lparr>device_id = Some 0, baseaddr = 0x43C00000, highaddr = Some 0x43C0FFFF, dist_baseaddr = None, clk_freq_hz = None, features = []\<rparr>"

definition XPAR_PS7_SCUGIC_0 :: peripheral where
  "XPAR_PS7_SCUGIC_0 = \<lparr>device_id = Some 0, baseaddr = 0xF8F00100, highaddr = Some 0xF8F001FF, dist_baseaddr = Some 0xF8F01000, clk_freq_hz = None, features = []\<rparr>"

definition XPAR_SCUGIC_0 :: peripheral where
  "XPAR_SCUGIC_0 = \<lparr>device_id = Some 0, baseaddr = 0xF8F00100, highaddr = Some 0xF8F001FF, dist_baseaddr = Some 0xF8F01000, clk_freq_hz = None, features = []\<rparr>"

definition XPAR_PS7_SCUTIMER_0 :: peripheral where
  "XPAR_PS7_SCUTIMER_0 = \<lparr>device_id = Some 0, baseaddr = 0xF8F00600, highaddr = Some 0xF8F0061F, dist_baseaddr = None, clk_freq_hz = None, features = []\<rparr>"

definition XPAR_XSCUTIMER_0 :: peripheral where
  "XPAR_XSCUTIMER_0 = \<lparr>device_id = device_id XPAR_PS7_SCUTIMER_0, baseaddr = 0xF8F00600, highaddr = Some 0xF8F0061F, dist_baseaddr = None, clk_freq_hz = None, features = []\<rparr>"

definition XPAR_PS7_SCUWDT_0 :: peripheral where
  "XPAR_PS7_SCUWDT_0 = \<lparr>device_id = Some 0, baseaddr = 0xF8F00620, highaddr = Some 0xF8F006FF, dist_baseaddr = None, clk_freq_hz = None, features = []\<rparr>"

definition XPAR_SCUWDT_0 :: peripheral where
  "XPAR_SCUWDT_0 = \<lparr>device_id = device_id XPAR_PS7_SCUWDT_0, baseaddr = 0xF8F00620, highaddr = Some 0xF8F006FF, dist_baseaddr = None, clk_freq_hz = None, features = []\<rparr>"

definition XPAR_PS7_SD_0 :: peripheral where
  "XPAR_PS7_SD_0 = \<lparr>device_id = Some 0, baseaddr = 0xE0100000, highaddr = Some 0xE0100FFF, dist_baseaddr = None, clk_freq_hz = Some 50000000, features = [(''HAS_CD'', 1), (''HAS_WP'', 1)]\<rparr>"

definition XPAR_XSDPS_0 :: peripheral where
  "XPAR_XSDPS_0 = \<lparr>device_id = device_id XPAR_PS7_SD_0, baseaddr = 0xE0100000, highaddr = Some 0xE0100FFF, dist_baseaddr = None, clk_freq_hz = Some 50000000, features = [(''HAS_CD'', 1), (''HAS_WP'', 1)]\<rparr>"

definition XPAR_PS7_TTC_0 :: peripheral where
  "XPAR_PS7_TTC_0 = \<lparr>device_id = Some 0, baseaddr = 0xF8001000, highaddr = None, dist_baseaddr = None, clk_freq_hz = Some 108333336, features = [(''CLKSRC'', 0)]\<rparr>"

definition XPAR_PS7_TTC_1 :: peripheral where
  "XPAR_PS7_TTC_1 = \<lparr>device_id = Some 1, baseaddr = 0xF8001004, highaddr = None, dist_baseaddr = None, clk_freq_hz = Some 108333336, features = [(''CLKSRC'', 0)]\<rparr>"

definition XPAR_PS7_TTC_2 :: peripheral where
  "XPAR_PS7_TTC_2 = \<lparr>device_id = Some 2, baseaddr = 0xF8001008, highaddr = None, dist_baseaddr = None, clk_freq_hz = Some 108333336, features = [(''CLKSRC'', 0)]\<rparr>"

definition XPAR_XTTCPS_0 :: peripheral where
  "XPAR_XTTCPS_0 = \<lparr>device_id = device_id XPAR_PS7_TTC_0, baseaddr = 0xF8001000, highaddr = None, dist_baseaddr = None, clk_freq_hz = Some 108333336, features = [(''CLKSRC'', 0)]\<rparr>"

definition XPAR_XTTCPS_1 :: peripheral where
  "XPAR_XTTCPS_1 = \<lparr>device_id = device_id XPAR_PS7_TTC_1, baseaddr = 0xF8001004, highaddr = None, dist_baseaddr = None, clk_freq_hz = Some 108333336, features = [(''CLKSRC'', 0)]\<rparr>"

definition XPAR_XTTCPS_2 :: peripheral where
  "XPAR_XTTCPS_2 = \<lparr>device_id = device_id XPAR_PS7_TTC_2, baseaddr = 0xF8001008, highaddr = None, dist_baseaddr = None, clk_freq_hz = Some 108333336, features = [(''CLKSRC'', 0)]\<rparr>"

definition XPAR_PS7_UART_1 :: peripheral where
  "XPAR_PS7_UART_1 = \<lparr>device_id = Some 0, baseaddr = 0xE0001000, highaddr = Some 0xE0001FFF, dist_baseaddr = None, clk_freq_hz = Some 50000000, features = [(''HAS_MODEM'', 0)]\<rparr>"

definition XPAR_XUARTPS_0 :: peripheral where
  "XPAR_XUARTPS_0 = \<lparr>device_id = device_id XPAR_PS7_UART_1, baseaddr = 0xE0001000, highaddr = Some 0xE0001FFF, dist_baseaddr = None, clk_freq_hz = Some 50000000, features = [(''HAS_MODEM'', 0)]\<rparr>"

definition XPAR_PS7_XADC_0 :: peripheral where
  "XPAR_PS7_XADC_0 = \<lparr>device_id = Some 0, baseaddr = 0xF8007100, highaddr = Some 0xF8007120, dist_baseaddr = None, clk_freq_hz = None, features = []\<rparr>"

definition XPAR_XADCPS_0 :: peripheral where
  "XPAR_XADCPS_0 = \<lparr>device_id = device_id XPAR_PS7_XADC_0, baseaddr = 0xF8007100, highaddr = Some 0xF8007120, dist_baseaddr = None, clk_freq_hz = None, features = []\<rparr>"

text \<open>The peripherals, the standard streams, and the drivers with the numbers of their instances and their canonical definitions.\<close>

definition peripherals :: "peripheral list" where
  "peripherals =
    [XPAR_PS7_DEV_CFG_0, XPAR_PS7_DMA_NS, XPAR_PS7_DMA_S, XPAR_PS7_AFI_0, XPAR_PS7_AFI_1, XPAR_PS7_AFI_2, XPAR_PS7_AFI_3, XPAR_PS7_DDR_0
  , XPAR_PS7_DDRC_0, XPAR_PS7_GLOBALTIMER_0, XPAR_PS7_GPV_0, XPAR_PS7_INTC_DIST_0, XPAR_PS7_IOP_BUS_CONFIG_0, XPAR_PS7_L2CACHEC_0
  , XPAR_PS7_OCMC_0, XPAR_PS7_PL310_0, XPAR_PS7_PMU_0, XPAR_PS7_PMU_0_PMU1, XPAR_PS7_RAM_0, XPAR_PS7_RAM_1, XPAR_PS7_SCUC_0, XPAR_PS7_SLCR_0
  , XPAR_MULTIPLY_0, XPAR_PS7_SCUGIC_0, XPAR_PS7_SCUTIMER_0, XPAR_PS7_SCUWDT_0, XPAR_PS7_SD_0, XPAR_PS7_TTC_0, XPAR_PS7_TTC_1, XPAR_PS7_TTC_2
  , XPAR_PS7_UART_1, XPAR_PS7_XADC_0]"

definition STDIN_BASEADDRESS :: "32 word" where
  "STDIN_BASEADDRESS = 0xE0001000"

definition STDOUT_BASEADDRESS :: "32 word" where
  "STDOUT_BASEADDRESS = 0xE0001000"

definition drivers :: "(nat \<times> peripheral list) list" where
  "drivers =
    [(1, [XPAR_XDCFG_0]), (2, [XPAR_XDMAPS_0, XPAR_XDMAPS_1]), (1, [XPAR_MULTIPLY_0]), (1, [XPAR_SCUGIC_0]), (1, [XPAR_XSCUTIMER_0])
  , (1, [XPAR_SCUWDT_0]), (1, [XPAR_XSDPS_0]), (3, [XPAR_XTTCPS_0, XPAR_XTTCPS_1, XPAR_XTTCPS_2]), (1, [XPAR_XUARTPS_0]), (1, [XPAR_XADCPS_0])]"

definition canonical :: "(peripheral \<times> peripheral) list" where
  "canonical =
    [(XPAR_XDCFG_0, XPAR_PS7_DEV_CFG_0), (XPAR_XDMAPS_0, XPAR_PS7_DMA_NS), (XPAR_XDMAPS_1, XPAR_PS7_DMA_S), (XPAR_SCUGIC_0, XPAR_PS7_SCUGIC_0)
  , (XPAR_XSCUTIMER_0, XPAR_PS7_SCUTIMER_0), (XPAR_SCUWDT_0, XPAR_PS7_SCUWDT_0), (XPAR_XSDPS_0, XPAR_PS7_SD_0)
  , (XPAR_XTTCPS_0, XPAR_PS7_TTC_0), (XPAR_XTTCPS_1, XPAR_PS7_TTC_1), (XPAR_XTTCPS_2, XPAR_PS7_TTC_2), (XPAR_XUARTPS_0, XPAR_PS7_UART_1)
  , (XPAR_XADCPS_0, XPAR_PS7_XADC_0)]"

subsection \<open>xparameters\_ps.h\<close>

definition xps_baseaddrs :: "(string \<times> 32 word) list" where
  "xps_baseaddrs =
    [(''XPS_PERIPHERAL_BASEADDR'', 0xE0000000), (''XPS_UART0_BASEADDR'', 0xE0000000), (''XPS_UART1_BASEADDR'', 0xE0001000)
    , (''XPS_USB0_BASEADDR'', 0xE0002000), (''XPS_USB1_BASEADDR'', 0xE0003000), (''XPS_I2C0_BASEADDR'', 0xE0004000)
    , (''XPS_I2C1_BASEADDR'', 0xE0005000), (''XPS_SPI0_BASEADDR'', 0xE0006000), (''XPS_SPI1_BASEADDR'', 0xE0007000)
    , (''XPS_CAN0_BASEADDR'', 0xE0008000), (''XPS_CAN1_BASEADDR'', 0xE0009000), (''XPS_GPIO_BASEADDR'', 0xE000A000)
    , (''XPS_GEM0_BASEADDR'', 0xE000B000), (''XPS_GEM1_BASEADDR'', 0xE000C000), (''XPS_QSPI_BASEADDR'', 0xE000D000)
    , (''XPS_PARPORT_CRTL_BASEADDR'', 0xE000E000), (''XPS_SDIO0_BASEADDR'', 0xE0100000), (''XPS_SDIO1_BASEADDR'', 0xE0101000)
    , (''XPS_IOU_BUS_CFG_BASEADDR'', 0xE0200000), (''XPS_NAND_BASEADDR'', 0xE1000000), (''XPS_PARPORT0_BASEADDR'', 0xE2000000)
    , (''XPS_PARPORT1_BASEADDR'', 0xE4000000), (''XPS_QSPI_LINEAR_BASEADDR'', 0xFC000000), (''XPS_SYS_CTRL_BASEADDR'', 0xF8000000)
    , (''XPS_TTC0_BASEADDR'', 0xF8001000), (''XPS_TTC1_BASEADDR'', 0xF8002000), (''XPS_DMAC0_SEC_BASEADDR'', 0xF8003000)
    , (''XPS_DMAC0_NON_SEC_BASEADDR'', 0xF8004000), (''XPS_WDT_BASEADDR'', 0xF8005000), (''XPS_DDR_CTRL_BASEADDR'', 0xF8006000)
    , (''XPS_DEV_CFG_APB_BASEADDR'', 0xF8007000), (''XPS_AFI0_BASEADDR'', 0xF8008000), (''XPS_AFI1_BASEADDR'', 0xF8009000)
    , (''XPS_AFI2_BASEADDR'', 0xF800A000), (''XPS_AFI3_BASEADDR'', 0xF800B000), (''XPS_OCM_BASEADDR'', 0xF800C000)
    , (''XPS_EFUSE_BASEADDR'', 0xF800D000), (''XPS_CORESIGHT_BASEADDR'', 0xF8800000), (''XPS_TOP_BUS_CFG_BASEADDR'', 0xF8900000)
    , (''XPS_SCU_PERIPH_BASE'', 0xF8F00000), (''XPS_L2CC_BASEADDR'', 0xF8F02000), (''XPS_SAM_RAM_BASEADDR'', 0xFFFC0000)
    , (''XPS_FPGA_AXI_S0_BASEADDR'', 0x40000000), (''XPS_FPGA_AXI_S1_BASEADDR'', 0x80000000), (''XPS_IOU_S_SWITCH_BASEADDR'', 0xE0000000)
    , (''XPS_PERIPH_APB_BASEADDR'', 0xF8000000)]"

definition xps_int_ids :: "(string \<times> nat) list" where
  "xps_int_ids =
    [(''XPS_CORE_PARITY0_INT_ID'', 32), (''XPS_CORE_PARITY1_INT_ID'', 33), (''XPS_L2CC_INT_ID'', 34), (''XPS_OCMINTR_INT_ID'', 35)
    , (''XPS_ECC_INT_ID'', 36), (''XPS_PMU0_INT_ID'', 37), (''XPS_PMU1_INT_ID'', 38), (''XPS_SYSMON_INT_ID'', 39), (''XPS_DVC_INT_ID'', 40)
    , (''XPS_WDT_INT_ID'', 41), (''XPS_TTC0_0_INT_ID'', 42), (''XPS_TTC0_1_INT_ID'', 43), (''XPS_TTC0_2_INT_ID'', 44)
    , (''XPS_DMA0_ABORT_INT_ID'', 45), (''XPS_DMA0_INT_ID'', 46), (''XPS_DMA1_INT_ID'', 47), (''XPS_DMA2_INT_ID'', 48)
    , (''XPS_DMA3_INT_ID'', 49), (''XPS_SMC_INT_ID'', 50), (''XPS_QSPI_INT_ID'', 51), (''XPS_GPIO_INT_ID'', 52), (''XPS_USB0_INT_ID'', 53)
    , (''XPS_GEM0_INT_ID'', 54), (''XPS_GEM0_WAKE_INT_ID'', 55), (''XPS_SDIO0_INT_ID'', 56), (''XPS_I2C0_INT_ID'', 57)
    , (''XPS_SPI0_INT_ID'', 58), (''XPS_UART0_INT_ID'', 59), (''XPS_CAN0_INT_ID'', 60), (''XPS_FPGA0_INT_ID'', 61), (''XPS_FPGA1_INT_ID'', 62)
    , (''XPS_FPGA2_INT_ID'', 63), (''XPS_FPGA3_INT_ID'', 64), (''XPS_FPGA4_INT_ID'', 65), (''XPS_FPGA5_INT_ID'', 66), (''XPS_FPGA6_INT_ID'', 67)
    , (''XPS_FPGA7_INT_ID'', 68), (''XPS_TTC1_0_INT_ID'', 69), (''XPS_TTC1_1_INT_ID'', 70), (''XPS_TTC1_2_INT_ID'', 71)
    , (''XPS_DMA4_INT_ID'', 72), (''XPS_DMA5_INT_ID'', 73), (''XPS_DMA6_INT_ID'', 74), (''XPS_DMA7_INT_ID'', 75), (''XPS_USB1_INT_ID'', 76)
    , (''XPS_GEM1_INT_ID'', 77), (''XPS_GEM1_WAKE_INT_ID'', 78), (''XPS_SDIO1_INT_ID'', 79), (''XPS_I2C1_INT_ID'', 80)
    , (''XPS_SPI1_INT_ID'', 81), (''XPS_UART1_INT_ID'', 82), (''XPS_CAN1_INT_ID'', 83), (''XPS_FPGA8_INT_ID'', 84), (''XPS_FPGA9_INT_ID'', 85)
    , (''XPS_FPGA10_INT_ID'', 86), (''XPS_FPGA11_INT_ID'', 87), (''XPS_FPGA12_INT_ID'', 88), (''XPS_FPGA13_INT_ID'', 89)
    , (''XPS_FPGA14_INT_ID'', 90), (''XPS_FPGA15_INT_ID'', 91), (''XPS_GLOBAL_TMR_INT_ID'', 27), (''XPS_FIQ_INT_ID'', 28)
    , (''XPS_SCU_TMR_INT_ID'', 29), (''XPS_SCU_WDT_INT_ID'', 30), (''XPS_IRQ_INT_ID'', 31)]"

definition xpar_intrs :: "(string \<times> string) list" where
  "xpar_intrs =
    [(''XPAR_XUARTPS_0_INTR'', ''XPS_UART0_INT_ID''), (''XPAR_XUARTPS_1_INTR'', ''XPS_UART1_INT_ID'')
    , (''XPAR_XUSBPS_0_INTR'', ''XPS_USB0_INT_ID''), (''XPAR_XUSBPS_1_INTR'', ''XPS_USB1_INT_ID'')
    , (''XPAR_XIICPS_0_INTR'', ''XPS_I2C0_INT_ID''), (''XPAR_XIICPS_1_INTR'', ''XPS_I2C1_INT_ID'')
    , (''XPAR_XSPIPS_0_INTR'', ''XPS_SPI0_INT_ID''), (''XPAR_XSPIPS_1_INTR'', ''XPS_SPI1_INT_ID'')
    , (''XPAR_XCANPS_0_INTR'', ''XPS_CAN0_INT_ID''), (''XPAR_XCANPS_1_INTR'', ''XPS_CAN1_INT_ID'')
    , (''XPAR_XGPIOPS_0_INTR'', ''XPS_GPIO_INT_ID''), (''XPAR_XEMACPS_0_INTR'', ''XPS_GEM0_INT_ID'')
    , (''XPAR_XEMACPS_0_WAKE_INTR'', ''XPS_GEM0_WAKE_INT_ID''), (''XPAR_XEMACPS_1_INTR'', ''XPS_GEM1_INT_ID'')
    , (''XPAR_XEMACPS_1_WAKE_INTR'', ''XPS_GEM1_WAKE_INT_ID''), (''XPAR_XSDIOPS_0_INTR'', ''XPS_SDIO0_INT_ID'')
    , (''XPAR_XQSPIPS_0_INTR'', ''XPS_QSPI_INT_ID''), (''XPAR_XSDIOPS_1_INTR'', ''XPS_SDIO1_INT_ID'')
    , (''XPAR_XWDTPS_0_INTR'', ''XPS_WDT_INT_ID''), (''XPAR_XDCFG_0_INTR'', ''XPS_DVC_INT_ID'')
    , (''XPAR_SCUTIMER_INTR'', ''XPS_SCU_TMR_INT_ID''), (''XPAR_SCUWDT_INTR'', ''XPS_SCU_WDT_INT_ID'')
    , (''XPAR_XTTCPS_0_INTR'', ''XPS_TTC0_0_INT_ID''), (''XPAR_XTTCPS_1_INTR'', ''XPS_TTC0_1_INT_ID'')
    , (''XPAR_XTTCPS_2_INTR'', ''XPS_TTC0_2_INT_ID''), (''XPAR_XTTCPS_3_INTR'', ''XPS_TTC1_0_INT_ID'')
    , (''XPAR_XTTCPS_4_INTR'', ''XPS_TTC1_1_INT_ID''), (''XPAR_XTTCPS_5_INTR'', ''XPS_TTC1_2_INT_ID'')
    , (''XPAR_XDMAPS_0_FAULT_INTR'', ''XPS_DMA0_ABORT_INT_ID''), (''XPAR_XDMAPS_0_DONE_INTR_0'', ''XPS_DMA0_INT_ID'')
    , (''XPAR_XDMAPS_0_DONE_INTR_1'', ''XPS_DMA1_INT_ID''), (''XPAR_XDMAPS_0_DONE_INTR_2'', ''XPS_DMA2_INT_ID'')
    , (''XPAR_XDMAPS_0_DONE_INTR_3'', ''XPS_DMA3_INT_ID''), (''XPAR_XDMAPS_0_DONE_INTR_4'', ''XPS_DMA4_INT_ID'')
    , (''XPAR_XDMAPS_0_DONE_INTR_5'', ''XPS_DMA5_INT_ID''), (''XPAR_XDMAPS_0_DONE_INTR_6'', ''XPS_DMA6_INT_ID'')
    , (''XPAR_XDMAPS_0_DONE_INTR_7'', ''XPS_DMA7_INT_ID'')]"

definition ps7_intrs :: "(string \<times> string) list" where
  "ps7_intrs =
    [(''XPAR_PS7_UART_0_INTR'', ''XPS_UART0_INT_ID''), (''XPAR_PS7_UART_1_INTR'', ''XPS_UART1_INT_ID'')
    , (''XPAR_PS7_USB_0_INTR'', ''XPS_USB0_INT_ID''), (''XPAR_PS7_USB_1_INTR'', ''XPS_USB1_INT_ID'')
    , (''XPAR_PS7_I2C_0_INTR'', ''XPS_I2C0_INT_ID''), (''XPAR_PS7_I2C_1_INTR'', ''XPS_I2C1_INT_ID'')
    , (''XPAR_PS7_SPI_0_INTR'', ''XPS_SPI0_INT_ID''), (''XPAR_PS7_SPI_1_INTR'', ''XPS_SPI1_INT_ID'')
    , (''XPAR_PS7_CAN_0_INTR'', ''XPS_CAN0_INT_ID''), (''XPAR_PS7_CAN_1_INTR'', ''XPS_CAN1_INT_ID'')
    , (''XPAR_PS7_GPIO_0_INTR'', ''XPS_GPIO_INT_ID''), (''XPAR_PS7_ETHERNET_0_INTR'', ''XPS_GEM0_INT_ID'')
    , (''XPAR_PS7_ETHERNET_0_WAKE_INTR'', ''XPS_GEM0_WAKE_INT_ID''), (''XPAR_PS7_ETHERNET_1_INTR'', ''XPS_GEM1_INT_ID'')
    , (''XPAR_PS7_ETHERNET_1_WAKE_INTR'', ''XPS_GEM1_WAKE_INT_ID''), (''XPAR_PS7_QSPI_0_INTR'', ''XPS_QSPI_INT_ID'')
    , (''XPAR_PS7_WDT_0_INTR'', ''XPS_WDT_INT_ID''), (''XPAR_PS7_SCUWDT_0_INTR'', ''XPS_SCU_WDT_INT_ID'')
    , (''XPAR_PS7_SCUTIMER_0_INTR'', ''XPS_SCU_TMR_INT_ID''), (''XPAR_PS7_XADC_0_INTR'', ''XPS_SYSMON_INT_ID'')
    , (''XPAR_PS7_TTC_0_INTR'', ''XPS_TTC0_0_INT_ID''), (''XPAR_PS7_TTC_1_INTR'', ''XPS_TTC0_1_INT_ID'')
    , (''XPAR_PS7_TTC_2_INTR'', ''XPS_TTC0_2_INT_ID''), (''XPAR_PS7_TTC_3_INTR'', ''XPS_TTC1_0_INT_ID'')
    , (''XPAR_PS7_TTC_4_INTR'', ''XPS_TTC1_1_INT_ID''), (''XPAR_PS7_TTC_5_INTR'', ''XPS_TTC1_2_INT_ID'')
    , (''XPAR_XADCPS_INT_ID'', ''XPS_SYSMON_INT_ID'')]"

definition clock_aliases :: "(string \<times> string) list" where
  "clock_aliases =
    [(''XPAR_XUARTPS_0_CLOCK_HZ'', ''XPAR_XUARTPS_0_UART_CLK_FREQ_HZ''), (''XPAR_XUARTPS_1_CLOCK_HZ'', ''XPAR_XUARTPS_1_UART_CLK_FREQ_HZ'')
    , (''XPAR_XTTCPS_0_CLOCK_HZ'', ''XPAR_XTTCPS_0_TTC_CLK_FREQ_HZ''), (''XPAR_XTTCPS_1_CLOCK_HZ'', ''XPAR_XTTCPS_1_TTC_CLK_FREQ_HZ'')
    , (''XPAR_XTTCPS_2_CLOCK_HZ'', ''XPAR_XTTCPS_2_TTC_CLK_FREQ_HZ''), (''XPAR_XTTCPS_3_CLOCK_HZ'', ''XPAR_XTTCPS_3_TTC_CLK_FREQ_HZ'')
    , (''XPAR_XTTCPS_4_CLOCK_HZ'', ''XPAR_XTTCPS_4_TTC_CLK_FREQ_HZ''), (''XPAR_XTTCPS_5_CLOCK_HZ'', ''XPAR_XTTCPS_5_TTC_CLK_FREQ_HZ'')
    , (''XPAR_XIICPS_0_CLOCK_HZ'', ''XPAR_XIICPS_0_I2C_CLK_FREQ_HZ''), (''XPAR_XIICPS_1_CLOCK_HZ'', ''XPAR_XIICPS_1_I2C_CLK_FREQ_HZ'')
    , (''XPAR_XQSPIPS_0_CLOCK_HZ'', ''XPAR_XQSPIPS_0_QSPI_CLK_FREQ_HZ'')]"

text \<open>The value of a macro: the blocks have an address, the interrupts a number.\<close>

definition xps_baseaddr :: "string \<Rightarrow> 32 word" where
  "xps_baseaddr name = the (map_of xps_baseaddrs name)"

definition int_id :: "string \<Rightarrow> nat" where
  "int_id name = the (map_of xps_int_ids name)"

definition XPAR_DDR_MEM :: peripheral where
  "XPAR_DDR_MEM = \<lparr>device_id = None, baseaddr = 0, highaddr = Some 0x3FFFFFFF, dist_baseaddr = None, clk_freq_hz = None, features = []\<rparr>"

definition XPAR_XSLCR_0 :: peripheral where
  "XPAR_XSLCR_0 = \<lparr>device_id = Some 0, baseaddr = xps_baseaddr ''XPS_SYS_CTRL_BASEADDR'', highaddr = None, dist_baseaddr = None, clk_freq_hz = None, features = []\<rparr>"

definition XPAR_SCUGIC_SINGLE :: peripheral where
  "XPAR_SCUGIC_SINGLE = \<lparr>device_id = Some 0, baseaddr = xps_baseaddr ''XPS_SCU_PERIPH_BASE'' + 0x100, highaddr = None,
     dist_baseaddr = Some (xps_baseaddr ''XPS_SCU_PERIPH_BASE'' + 0x1000), clk_freq_hz = None, features = [(''ACK_BEFORE'', 0)]\<rparr>"

definition XPAR_GLOBAL_TMR :: peripheral where
  "XPAR_GLOBAL_TMR = \<lparr>device_id = Some 0, baseaddr = xps_baseaddr ''XPS_SCU_PERIPH_BASE'' + 0x200, highaddr = None, dist_baseaddr = None,
     clk_freq_hz = None, features = [(''INTR'', int_id ''XPS_GLOBAL_TMR_INT_ID'')]\<rparr>"

subsection \<open>What the driver reaches\<close>

text \<open>\<open>PHY_ADDR\<close> and \<open>MEMSIZE\<close> of multiplier.h, and the physical address of register \<open>i\<close>, which the driver reaches at \<open>virt_addr + i*4\<close>.\<close>

definition PHY_ADDR :: "32 word" where
  "PHY_ADDR = baseaddr XPAR_MULTIPLY_0"

definition MEMSIZE :: "32 word" where
  "MEMSIZE = the (highaddr XPAR_MULTIPLY_0) - baseaddr XPAR_MULTIPLY_0 + 1"

definition mult_register :: "nat \<Rightarrow> 32 word" where
  "mult_register i = PHY_ADDR + of_nat (4 * i)"

text \<open>The addresses that a header gives to a peripheral. Of the timers (\<open>XPAR_PS7_TTC\<close>) it says only where they begin, and of the distributor of
  \<open>XPAR_PS7_SCUGIC_0\<close> as well; the range of the distributor is that of \<open>XPAR_PS7_INTC_DIST_0\<close>.\<close>

definition has_range :: "peripheral \<Rightarrow> bool" where
  "has_range p \<longleftrightarrow> highaddr p \<noteq> None"

definition answers :: "32 word \<Rightarrow> peripheral \<Rightarrow> bool" where
  "answers x p \<longleftrightarrow> (case highaddr p of None \<Rightarrow> False | Some h \<Rightarrow> baseaddr p \<le> x \<and> x \<le> h)"

definition top_addr :: "peripheral \<Rightarrow> 32 word" where
  "top_addr p = (case highaddr p of None \<Rightarrow> baseaddr p | Some h \<Rightarrow> h)"

lemma answers_range: "answers x p \<longleftrightarrow> has_range p \<and> baseaddr p \<le> x \<and> x \<le> top_addr p"
  by (auto simp: answers_def top_addr_def has_range_def split: option.split)

named_theorems xparameters

lemmas xpar_ps7 [xparameters] = XPAR_PS7_DEV_CFG_0_def XPAR_PS7_DMA_NS_def XPAR_PS7_DMA_S_def XPAR_PS7_AFI_0_def XPAR_PS7_AFI_1_def XPAR_PS7_AFI_2_def
  XPAR_PS7_AFI_3_def XPAR_PS7_DDR_0_def XPAR_PS7_DDRC_0_def XPAR_PS7_GLOBALTIMER_0_def XPAR_PS7_GPV_0_def XPAR_PS7_INTC_DIST_0_def
  XPAR_PS7_IOP_BUS_CONFIG_0_def XPAR_PS7_L2CACHEC_0_def XPAR_PS7_OCMC_0_def XPAR_PS7_PL310_0_def XPAR_PS7_PMU_0_def XPAR_PS7_PMU_0_PMU1_def
  XPAR_PS7_RAM_0_def XPAR_PS7_RAM_1_def XPAR_PS7_SCUC_0_def XPAR_PS7_SLCR_0_def XPAR_MULTIPLY_0_def XPAR_PS7_SCUGIC_0_def XPAR_PS7_SCUTIMER_0_def
  XPAR_PS7_SCUWDT_0_def XPAR_PS7_SD_0_def XPAR_PS7_TTC_0_def XPAR_PS7_TTC_1_def XPAR_PS7_TTC_2_def XPAR_PS7_UART_1_def XPAR_PS7_XADC_0_def

lemmas xpar_canonical [xparameters] = XPAR_XDCFG_0_def XPAR_XDMAPS_0_def XPAR_XDMAPS_1_def XPAR_SCUGIC_0_def XPAR_XSCUTIMER_0_def XPAR_SCUWDT_0_def
  XPAR_XSDPS_0_def XPAR_XTTCPS_0_def XPAR_XTTCPS_1_def XPAR_XTTCPS_2_def XPAR_XUARTPS_0_def XPAR_XADCPS_0_def

text \<open>The window of the multiplier in the address space.\<close>

lemma window_bounds:
  assumes "off < MEMSIZE"
  shows "0x43C00000 \<le> unat (PHY_ADDR + off) \<and> unat (PHY_ADDR + off) \<le> 0x43C0FFFF"
proof -
  have off: "unat off < 0x10000" using assms by (simp add: MEMSIZE_def xparameters word_less_nat_alt)
  then have "unat (PHY_ADDR + off) = 0x43C00000 + unat off"
    by (subst unat_add_lem [THEN iffD1]) (simp_all add: PHY_ADDR_def xparameters)
  with off show ?thesis by simp
qed

lemma window_answers:
  assumes "off < MEMSIZE"
  shows "filter (answers (PHY_ADDR + off)) peripherals = [XPAR_MULTIPLY_0]"
proof -
  have "filter (\<lambda>p. has_range p \<and> baseaddr p \<le> x \<and> x \<le> top_addr p) peripherals = [XPAR_MULTIPLY_0]" if "0x43C00000 \<le> unat x" "unat x \<le> 0x43C0FFFF" for x
    using that by (simp add: peripherals_def top_addr_def has_range_def xparameters word_le_nat_alt)
  with window_bounds [OF assms] show ?thesis by (simp add: answers_range [abs_def])
qed

text \<open>In the order of addresses, every peripheral ends before the next begins; the second level cache has two names.\<close>

definition by_address :: "peripheral list" where
  "by_address =
    [XPAR_PS7_RAM_0, XPAR_PS7_DDR_0, XPAR_MULTIPLY_0, XPAR_PS7_UART_1, XPAR_PS7_SD_0, XPAR_PS7_IOP_BUS_CONFIG_0, XPAR_PS7_SLCR_0, XPAR_PS7_TTC_0,
     XPAR_PS7_TTC_1, XPAR_PS7_TTC_2, XPAR_PS7_DMA_S, XPAR_PS7_DMA_NS, XPAR_PS7_DDRC_0, XPAR_PS7_DEV_CFG_0, XPAR_PS7_XADC_0, XPAR_PS7_AFI_0,
     XPAR_PS7_AFI_1, XPAR_PS7_AFI_2, XPAR_PS7_AFI_3, XPAR_PS7_OCMC_0, XPAR_PS7_PMU_0, XPAR_PS7_PMU_0_PMU1, XPAR_PS7_GPV_0, XPAR_PS7_SCUC_0,
     XPAR_PS7_SCUGIC_0, XPAR_PS7_GLOBALTIMER_0, XPAR_PS7_SCUTIMER_0, XPAR_PS7_SCUWDT_0, XPAR_PS7_INTC_DIST_0, XPAR_PS7_L2CACHEC_0, XPAR_PS7_RAM_1]"

lemma by_address_apart: "sorted_wrt (\<lambda>p q. top_addr p < baseaddr q) by_address"
  by (simp add: by_address_def top_addr_def xparameters)

lemma peripherals_listed: "set peripherals \<subseteq> set by_address"
proof -
  have "XPAR_PS7_PL310_0 = XPAR_PS7_L2CACHEC_0" by (simp add: xparameters)
  then show ?thesis by (simp add: peripherals_def by_address_def)
qed

lemma sorted_wrt_linked: "sorted_wrt R xs \<Longrightarrow> x \<in> set xs \<Longrightarrow> y \<in> set xs \<Longrightarrow> x = y \<or> R x y \<or> R y x"
  by (induction xs) auto

lemma one_answers:
  assumes "p \<in> set peripherals" and "q \<in> set peripherals" and "answers x p" and "answers x q"
  shows "p = q"
proof -
  have "p = q \<or> top_addr p < baseaddr q \<or> top_addr q < baseaddr p"
    using sorted_wrt_linked [OF by_address_apart] peripherals_listed assms(1,2) by blast
  with assms(3,4) show ?thesis by (auto simp: answers_range)
qed

lemma register_answers:
  assumes "i < INT_BUF_LEN" and "k < 4"
  shows "filter (answers (mult_register i + of_nat k)) peripherals = [XPAR_MULTIPLY_0]"
proof -
  have "unat (of_nat n :: 32 word) = n" if "n < 0x10000" for n using that by (simp add: unat_of_nat)
  from this [of "4 * i + k"] have "unat (of_nat (4 * i + k) :: 32 word) = 4 * i + k" using assms by (simp add: INT_BUF_LEN_def)
  then have "(of_nat (4 * i + k) :: 32 word) < MEMSIZE" using assms by (simp add: MEMSIZE_def xparameters word_less_nat_alt INT_BUF_LEN_def)
  from window_answers [OF this] show ?thesis by (simp add: mult_register_def add.assoc)
qed

text \<open>The peripherals of which only the beginning is known begin elsewhere.\<close>

lemma window_no_base:
  assumes "off < MEMSIZE" and "p \<in> set peripherals" and "\<not> has_range p"
  shows "PHY_ADDR + off < baseaddr p"
proof -
  have "list_all (\<lambda>p. has_range p \<or> 0x43C0FFFF < unat (baseaddr p)) peripherals" by (simp add: peripherals_def has_range_def xparameters)
  with assms(2,3) window_bounds [OF assms(1)] show ?thesis by (auto simp: list_all_iff word_less_nat_alt)
qed

text \<open>The driver on the bus of the board: \<open>bus x a b\<close> is what an access to the physical address \<open>x\<close> gives after \<open>a\<close> and \<open>b\<close> were written to the
  first two registers. What \<open>device_read\<close> returns depends on the addresses of the multiplier alone, and on no other peripheral.\<close>

definition bus_core :: "(32 word \<Rightarrow> 32 word \<Rightarrow> 32 word \<Rightarrow> 32 word) \<Rightarrow> mult_core" where
  "bus_core bus i a b = bus (mult_register i) a b"

lemma read_regs_cong:
  assumes "\<And>i a b. i \<in> set is \<Longrightarrow> core i a b = core' i a b"
  shows "read_regs core is d = read_regs core' is d"
  using assms
proof (induction "is" arbitrary: d)
  case (Cons i "is")
  then have "read_regs core is = read_regs core' is" by auto
  with Cons.prems show ?case by simp
qed simp

theorem mult_read_isolated:
  assumes "\<And>x a b. answers x XPAR_MULTIPLY_0 \<Longrightarrow> bus x a b = bus' x a b"
  shows "mult_read (bus_core bus) len d = mult_read (bus_core bus') len d"
proof -
  have "answers (mult_register i) XPAR_MULTIPLY_0" if "i \<in> set [0, 1, 2]" for i
  proof -
    have "filter (answers (mult_register i)) peripherals = [XPAR_MULTIPLY_0]"
      using register_answers [of i 0] that by (auto simp: INT_BUF_LEN_def)
    from arg_cong [OF this, of set] show ?thesis by auto
  qed
  then have "read_regs (bus_core bus) [0, 1, 2] d = read_regs (bus_core bus') [0, 1, 2] d"
    by (intro read_regs_cong) (simp add: bus_core_def assms)
  then show ?thesis by (simp add: mult_read_def)
qed

subsection \<open>The headers against each other\<close>

text \<open>The blocks of the processor under the names of both headers.\<close>

definition ps_blocks :: "(peripheral \<times> string) list" where
  "ps_blocks =
    [(XPAR_PS7_UART_1, ''XPS_UART1_BASEADDR''), (XPAR_PS7_SD_0, ''XPS_SDIO0_BASEADDR''), (XPAR_PS7_IOP_BUS_CONFIG_0, ''XPS_IOU_BUS_CFG_BASEADDR''),
     (XPAR_PS7_SLCR_0, ''XPS_SYS_CTRL_BASEADDR''), (XPAR_PS7_TTC_0, ''XPS_TTC0_BASEADDR''), (XPAR_PS7_DMA_S, ''XPS_DMAC0_SEC_BASEADDR''),
     (XPAR_PS7_DMA_NS, ''XPS_DMAC0_NON_SEC_BASEADDR''), (XPAR_PS7_DDRC_0, ''XPS_DDR_CTRL_BASEADDR''), (XPAR_PS7_DEV_CFG_0, ''XPS_DEV_CFG_APB_BASEADDR''),
     (XPAR_PS7_AFI_0, ''XPS_AFI0_BASEADDR''), (XPAR_PS7_AFI_1, ''XPS_AFI1_BASEADDR''), (XPAR_PS7_AFI_2, ''XPS_AFI2_BASEADDR''),
     (XPAR_PS7_AFI_3, ''XPS_AFI3_BASEADDR''), (XPAR_PS7_OCMC_0, ''XPS_OCM_BASEADDR''), (XPAR_PS7_GPV_0, ''XPS_TOP_BUS_CFG_BASEADDR''),
     (XPAR_PS7_SCUC_0, ''XPS_SCU_PERIPH_BASE''), (XPAR_PS7_L2CACHEC_0, ''XPS_L2CC_BASEADDR''), (XPAR_PS7_RAM_1, ''XPS_SAM_RAM_BASEADDR'')]"

lemma canonical_agree: "list_all (\<lambda>(c, p). c = p) canonical"
  by (simp add: canonical_def xparameters)

lemma drivers_numbered: "list_all (\<lambda>(n, ps). map device_id ps = map Some [0..<n]) drivers"
  by (simp add: drivers_def xparameters upt_rec)

lemma ps_blocks_agree: "list_all (\<lambda>(p, b). baseaddr p = xps_baseaddr b) ps_blocks"
  by (simp add: ps_blocks_def xps_baseaddr_def xps_baseaddrs_def xparameters)

lemma interrupts_distinct: "distinct (map snd xps_int_ids)" "list_all (\<lambda>(_, n). 27 \<le> n \<and> n \<le> 91) xps_int_ids"
  by (simp_all add: xps_int_ids_def)

lemma interrupts_known: "list_all (\<lambda>(_, b). map_of xps_int_ids b \<noteq> None) (xpar_intrs @ ps7_intrs)"
  by code_simp

text \<open>The first serial port is the second of the processor, as its address says, but its interrupt is that of the other one.\<close>

theorem uart_interrupt_mismatch:
  "baseaddr XPAR_XUARTPS_0 = xps_baseaddr ''XPS_UART1_BASEADDR''" "STDOUT_BASEADDRESS = baseaddr XPAR_XUARTPS_0"
  "map_of xpar_intrs ''XPAR_XUARTPS_0_INTR'' = Some ''XPS_UART0_INT_ID''" "int_id ''XPS_UART0_INT_ID'' \<noteq> int_id ''XPS_UART1_INT_ID''"
  by (simp_all add: xparameters xps_baseaddr_def xps_baseaddrs_def STDOUT_BASEADDRESS_def xpar_intrs_def int_id_def xps_int_ids_def)

end
