(* ===== verification/Board.thy ===== *)
theory Board
  imports Prelude
begin

section \<open>Programs on the bare board (ECEN749 lab2, lab3, lab7)\<close>

text \<open>
  Three programs that poll hardware in a loop: the counter with buttons and LEDs (lab2b.c), the test of
  the multiplier core (lab3, helloworld.c) and the display of received infrared messages (lab7,
  helloworld.c). What the hardware delivers is an argument, one element per round; what is written to
  the LEDs and to the console is collected in order. A round of lab2b.c is compared with a description of the
  panel that needs neither the flags nor the remembered counter value of the code.
\<close>

subsection \<open>The counter with buttons (lab2b.c)\<close>

datatype console =
    Incremented int           \<comment> \<open>\<open>COUNT = 0x%x (Increment)\<close>\<close>
  | Decremented int
  | Shows_switches "16 word"
  | Shows_count int

record lab2b =
  count :: int
  count_masked :: "int option"
  btn3_flg :: int
  btn4_flg :: int
  leds :: "32 word list"
  printed :: "console list"

definition lab2b_init :: lab2b where
  "lab2b_init = \<lparr>count = 0, count_masked = None, btn3_flg = 0, btn4_flg = 0, leds = [], printed = []\<rparr>"

text \<open>\<open>count\<close> is a 32-bit \<open>int\<close>: stepping beyond its range is undefined.\<close>

definition bump :: "int \<Rightarrow> int \<Rightarrow> int c_result" where
  "bump c d = (if - INT_MAX - 1 \<le> c + d \<and> c + d \<le> INT_MAX then Inr (c + d) else Inl Signed_overflow)"

definition clear_flags :: "lab2b \<Rightarrow> lab2b" where
  "clear_flags s = s\<lparr>btn3_flg := if btn3_flg s = 1 then 0 else btn3_flg s,
                     btn4_flg := if btn4_flg s = 1 then 0 else btn4_flg s\<rparr>"

text \<open>One pass of the loop: \<open>sw\<close> and \<open>btn\<close> are the two \<open>short\<close> readings. Writing a \<open>short\<close> to the 32-bit LED
  register extends its sign.\<close>

definition lab2b_step :: "16 word \<Rightarrow> 16 word \<Rightarrow> lab2b \<Rightarrow> lab2b c_result" where
  "lab2b_step sw btn s =
     (if btn = 1 then
        c_bind (bump (count s) 1) (\<lambda>c.
        Inr (clear_flags (s\<lparr>count := c, count_masked := Some (c AND 0xF), printed := printed s @ [Incremented (c AND 0xF)]\<rparr>)))
      else if btn = 2 then
        c_bind (bump (count s) (- 1)) (\<lambda>c.
        Inr (clear_flags (s\<lparr>count := c, count_masked := Some (c AND 0xF), printed := printed s @ [Decremented (c AND 0xF)]\<rparr>)))
      else if btn = 4 then
        (let s1 = (if btn3_flg s = 0 then s\<lparr>printed := printed s @ [Shows_switches sw], leds := leds s @ [scast sw], btn3_flg := 1\<rparr>
                   else s\<lparr>leds := leds s @ [scast sw]\<rparr>)
         in Inr (s1\<lparr>btn4_flg := if btn4_flg s1 = 1 then 0 else btn4_flg s1\<rparr>))
      else if btn = 8 then
        c_bind (if btn4_flg s = 0 then
                  (let m = count s AND 0xF
                   in Inr (s\<lparr>count_masked := Some m, printed := printed s @ [Shows_count m], leds := leds s @ [word_of_int m], btn4_flg := 1\<rparr>))
                else (case count_masked s of None \<Rightarrow> Inl Uninitialised
                      | Some m \<Rightarrow> Inr (s\<lparr>leds := leds s @ [word_of_int m]\<rparr>))) (\<lambda>s1.
        Inr (s1\<lparr>btn3_flg := if btn3_flg s1 = 1 then 0 else btn3_flg s1\<rparr>))
      else Inr (clear_flags (s\<lparr>leds := leds s @ [0]\<rparr>)))"

fun lab2b_run :: "(16 word \<times> 16 word) list \<Rightarrow> lab2b \<Rightarrow> lab2b c_result" where
  "lab2b_run [] s = Inr s"
| "lab2b_run ((sw, btn) # ins) s = c_bind (lab2b_step sw btn s) (lab2b_run ins)"

text \<open>The delay between two counts ends after \<open>WAIT_VAL\<close> steps.\<close>

definition WAIT_VAL :: nat where
  "WAIT_VAL = 0x10000000"

function delay_from :: "nat \<Rightarrow> nat" where
  "delay_from delay_count = (if delay_count < WAIT_VAL then delay_from (Suc delay_count) else 0)"
  by pat_completeness auto

termination delay_from
  by (relation "measure (\<lambda>n. WAIT_VAL - n)") auto

declare delay_from.simps [simp del]

subsection \<open>What the panel shows\<close>

text \<open>The panel as its user sees it: the counter, the LED writes and the console lines of a sequence of
  readings, from the button of the round before and the counter alone.\<close>

fun panel_count :: "int \<Rightarrow> (16 word \<times> 16 word) list \<Rightarrow> int" where
  "panel_count c [] = c"
| "panel_count c ((sw, btn) # ins) = panel_count (if btn = 1 then c + 1 else if btn = 2 then c - 1 else c) ins"

fun panel_leds :: "int \<Rightarrow> (16 word \<times> 16 word) list \<Rightarrow> 32 word list" where
  "panel_leds c [] = []"
| "panel_leds c ((sw, btn) # ins) =
     (if btn = 1 then panel_leds (c + 1) ins
      else if btn = 2 then panel_leds (c - 1) ins
      else (if btn = 4 then scast sw else if btn = 8 then word_of_int (c mod 16) else 0) # panel_leds c ins)"

fun panel_lines :: "16 word \<Rightarrow> int \<Rightarrow> (16 word \<times> 16 word) list \<Rightarrow> console list" where
  "panel_lines prev c [] = []"
| "panel_lines prev c ((sw, btn) # ins) =
     (if btn = 1 then Incremented ((c + 1) mod 16) # panel_lines btn (c + 1) ins
      else if btn = 2 then Decremented ((c - 1) mod 16) # panel_lines btn (c - 1) ins
      else (if btn = 4 \<and> prev \<noteq> 4 then [Shows_switches sw] else if btn = 8 \<and> prev \<noteq> 8 then [Shows_count (c mod 16)] else [])
        @ panel_lines btn c ins)"

text \<open>The flags remember which button was pressed in the round before, and while button 4 is held the
  remembered value is that of the counter.\<close>

definition lab2b_inv :: "16 word \<Rightarrow> lab2b \<Rightarrow> bool" where
  "lab2b_inv prev s \<longleftrightarrow> btn3_flg s = (if prev = 4 then 1 else 0) \<and> btn4_flg s = (if prev = 8 then 1 else 0) \<and>
     (prev = 8 \<longrightarrow> count_masked s = Some (count s AND 0xF))"

lemma mask_15: "c AND 15 = (c :: int) mod 16"
  using take_bit_eq_mask [of 4 c] by (simp add: take_bit_eq_mod mask_eq_exp_minus_1)

lemma lab2b_step_ok:
  assumes "lab2b_inv prev s" and "\<bar>count s\<bar> < INT_MAX"
  shows "\<exists>s'. lab2b_step sw btn s = Inr s' \<and> lab2b_inv btn s' \<and> count s' = panel_count (count s) [(sw, btn)] \<and>
    leds s' = leds s @ panel_leds (count s) [(sw, btn)] \<and> printed s' = printed s @ panel_lines prev (count s) [(sw, btn)]"
proof -
  have b: "bump (count s) 1 = Inr (count s + 1)" "bump (count s) (- 1) = Inr (count s - 1)"
    using assms(2) by (auto simp: bump_def abs_less_iff)
  consider "btn = 1" | "btn = 2" | "btn = 4" | "btn = 8" | "btn \<notin> {1, 2, 4, 8}" by auto
  then show ?thesis
    using assms(1) b by cases (auto simp: lab2b_step_def lab2b_inv_def clear_flags_def mask_15 Let_def)
qed

lemma panel_count_bound: "\<bar>panel_count c ins - c\<bar> \<le> int (length ins)"
proof (induction ins arbitrary: c)
  case Nil
  then show ?case by simp
next
  case (Cons i ins)
  obtain sw btn where i: "i = (sw, btn)" by (cases i)
  from Cons [of "c + 1"] Cons [of "c - 1"] Cons [of c] show ?case by (auto simp: i)
qed

lemma lab2b_run_inv:
  assumes "lab2b_inv prev s" and "\<bar>count s\<bar> + int (length ins) \<le> INT_MAX"
  shows "\<exists>s'. lab2b_run ins s = Inr s' \<and> count s' = panel_count (count s) ins \<and>
    leds s' = leds s @ panel_leds (count s) ins \<and> printed s' = printed s @ panel_lines prev (count s) ins"
  using assms
proof (induction ins arbitrary: prev s)
  case Nil
  then show ?case by simp
next
  case (Cons i ins)
  obtain sw btn where i: "i = (sw, btn)" by (cases i)
  from lab2b_step_ok [OF Cons.prems(1), of sw btn] Cons.prems(2) obtain s1 where
    s1: "lab2b_step sw btn s = Inr s1" "lab2b_inv btn s1" "count s1 = panel_count (count s) [(sw, btn)]"
    "leds s1 = leds s @ panel_leds (count s) [(sw, btn)]" "printed s1 = printed s @ panel_lines prev (count s) [(sw, btn)]"
    by auto
  have "\<bar>count s1\<bar> + int (length ins) \<le> INT_MAX"
    using Cons.prems(2) panel_count_bound [of "count s" "[(sw, btn)]"] s1(3) by simp
  from Cons.IH [OF s1(2) this] s1 show ?case by (auto simp: i)
qed

text \<open>Claim C20: the counter program shows what its panel promises. For any readings of switches and buttons,
  as long as they are fewer than the range of the counter, the program never uses an unset value; its
  counter, its writes to the LEDs and its console lines are those of the description of the panel, in
  which a line for button 3 or 4 appears only in the first round the button is held and the LEDs show the
  low four bits of the counter while button 4 is held.\<close>

theorem lab2b_run_refines:
  assumes "int (length ins) \<le> INT_MAX"
  shows "\<exists>s'. lab2b_run ins lab2b_init = Inr s' \<and> count s' = panel_count 0 ins \<and>
    leds s' = panel_leds 0 ins \<and> printed s' = panel_lines 0 0 ins"
  using lab2b_run_inv [of 0 lab2b_init ins] assms by (auto simp: lab2b_init_def lab2b_inv_def)

theorem lab2b_run_refines_witness:
  "\<exists>s'. lab2b_run [(5, 2), (5, 8), (5, 8), (5, 4), (5, 0)] lab2b_init = Inr s' \<and> leds s' = [15, 15, 5, 0] \<and>
     printed s' = [Decremented 15, Shows_count 15, Shows_switches 5]"
  using lab2b_run_refines [of "[(5, 2), (5, 8), (5, 8), (5, 4), (5, 0)]"] by (auto simp: INT_MAX_def)

lemma delay_ends: "delay_from n = 0"
proof (induction n rule: delay_from.induct)
  case (1 n)
  then show ?case by (subst delay_from.simps) simp
qed

subsection \<open>The test of the multiplier core (lab3)\<close>

text \<open>\<open>core\<close> is the value of register 2 when registers 0 and 1 hold its arguments.\<close>

fun squares_loop :: "(32 word \<Rightarrow> 32 word \<Rightarrow> 32 word) \<Rightarrow> nat \<Rightarrow> nat \<Rightarrow> 32 word list" where
  "squares_loop core 0 i = []"
| "squares_loop core (Suc n) i = core (of_nat i) (of_nat i) # squares_loop core n (Suc i)"

definition squares_main :: "(32 word \<Rightarrow> 32 word \<Rightarrow> 32 word) \<Rightarrow> 32 word list" where
  "squares_main core = squares_loop core 17 0"

lemma squares_loop_map: "squares_loop core n i = map (\<lambda>k. core (of_nat k) (of_nat k)) [i..<i + n]"
  by (induction n arbitrary: i) (simp_all add: upt_conv_Cons del: upt_Suc)

lemma squares_main_squares: "(\<And>a b. core a b = a * b) \<Longrightarrow> squares_main core = map (\<lambda>k. of_nat (k * k)) [0..<17]"
  by (simp add: squares_main_def squares_loop_map)

subsection \<open>The platform around the core test (lab3: platform.c)\<close>

text \<open>The glue of the vendor, with what the preprocessor knows as an argument, and the whole program as the sequence of its accesses to the
  hardware: \<open>Write_reg\<close> and \<open>Read_reg\<close> go to the registers of the core.\<close>

record board_config =
  ppc :: bool
  microblaze :: bool
  use_icache :: bool
  use_dcache :: bool
  uart_16550 :: bool

datatype board_call =
    Icache_region | Dcache_region | Icache_enable | Dcache_enable | Dcache_disable | Icache_disable
  | Uart_baud nat | Uart_line | Write_reg nat "32 word" | Read_reg nat | Print_value "32 word"

definition UART_BAUD :: nat where
  "UART_BAUD = 9600"

definition enable_caches :: "board_config \<Rightarrow> board_call list" where
  "enable_caches cfg =
     (if ppc cfg then [Icache_region, Dcache_region]
      else if microblaze cfg then (if use_icache cfg then [Icache_enable] else []) @ (if use_dcache cfg then [Dcache_enable] else [])
      else [])"

definition disable_caches :: "board_call list" where
  "disable_caches = [Dcache_disable, Icache_disable]"

definition init_uart :: "board_config \<Rightarrow> board_call list" where
  "init_uart cfg = (if uart_16550 cfg then [Uart_baud UART_BAUD, Uart_line] else [])"

definition init_platform :: "board_config \<Rightarrow> board_call list" where
  "init_platform cfg = enable_caches cfg @ init_uart cfg"

definition cleanup_platform :: "board_call list" where
  "cleanup_platform = disable_caches"

text \<open>platform\_config.h for the board: an ARM processor with its own serial port.\<close>

definition zynq :: board_config where
  "zynq = \<lparr>ppc = False, microblaze = False, use_icache = False, use_dcache = False, uart_16550 = False\<rparr>"

definition lab3_main :: "board_config \<Rightarrow> (32 word \<Rightarrow> 32 word \<Rightarrow> 32 word) \<Rightarrow> board_call list" where
  "lab3_main cfg core =
     init_platform cfg @
     concat (map (\<lambda>i. [Write_reg 0 (of_nat i), Write_reg 1 (of_nat i), Read_reg 2, Print_value (core (of_nat i) (of_nat i))]) [0..<17]) @
     cleanup_platform"

text \<open>On the board the program starts with the core at once, since its glue enables nothing, prints the values of the loop and nothing else, and ends by
  disabling caches that it never enabled.\<close>

theorem lab3_main_trace:
  "[w. Print_value w \<leftarrow> lab3_main cfg core] = squares_main core \<and> init_platform zynq = [] \<and>
   (\<exists>calls. lab3_main zynq core = calls @ [Dcache_disable, Icache_disable] \<and> Icache_enable \<notin> set calls \<and> Dcache_enable \<notin> set calls)"
proof -
  let ?f = "\<lambda>c. case c of Print_value w \<Rightarrow> [w] | _ \<Rightarrow> []"
  have none: "concat (map ?f (init_platform cfg)) = []" "concat (map ?f cleanup_platform) = []"
    by (auto simp: init_platform_def enable_caches_def init_uart_def cleanup_platform_def disable_caches_def)
  have body: "concat (map ?f (concat (map (\<lambda>i. [Write_reg 0 (of_nat i), Write_reg 1 (of_nat i), Read_reg 2, Print_value (core (of_nat i) (of_nat i))]) ks))) =
      map (\<lambda>i. core (of_nat i) (of_nat i)) ks" for ks by (induction ks) simp_all
  have "concat (map ?f (lab3_main cfg core)) = squares_main core"
    unfolding lab3_main_def map_append concat_append none body by (simp add: squares_main_def squares_loop_map)
  moreover have "init_platform zynq = []" by (simp add: init_platform_def enable_caches_def init_uart_def zynq_def)
  ultimately show ?thesis
    by (intro conjI exI [of _ "concat (map (\<lambda>i. [Write_reg 0 (of_nat i), Write_reg 1 (of_nat i), Read_reg 2, Print_value (core (of_nat i) (of_nat i))]) [0..<17])"])
       (simp_all add: lab3_main_def cleanup_platform_def disable_caches_def del: upt_rec_numeral)
qed

subsection \<open>The display of infrared messages (lab7)\<close>

text \<open>One pass per reading of registers 0 and 1; \<open>reg0_prev\<close> is not set before the first pass, so its first
  value is an argument. A line is printed when the message register has changed.\<close>

fun display_loop :: "32 word \<Rightarrow> (32 word \<times> 32 word) list \<Rightarrow> (32 word \<times> 32 word) list" where
  "display_loop reg0_prev [] = []"
| "display_loop reg0_prev ((reg0, reg1) # rs) =
     (if reg0 \<noteq> reg0_prev then (reg0, reg1) # display_loop reg0 rs else display_loop reg0_prev rs)"

text \<open>The display prints each change of the message register once and nothing else: the messages
  printed are the readings without adjacent repetitions, apart from the first reading, which is not
  printed when it happens to equal the value found in the unset variable. A message that is sent twice
  in a row is therefore shown once.\<close>

theorem display_shows_changes: "junk # map fst (display_loop junk rs) = remdups_adj (junk # map fst rs)"
proof (induction rs arbitrary: junk)
  case Nil
  then show ?case by simp
next
  case (Cons r rs)
  obtain a b where r: "r = (a, b)" by (cases r)
  show ?case
  proof (cases "a = junk")
    case True
    with Cons [of junk] r show ?thesis by simp
  next
    case False
    with Cons [of a] r show ?thesis by auto
  qed
qed

end
