(* ===== verification/Fpga_Lab1.thy ===== *)
theory Fpga_Lab1
  imports Prelude
begin

section \<open>The switches, the counter and the jackpot game (ECEN749/lab1: switch.v, counter.v, jackpot.v)\<close>

text \<open>
  Three circuits. A step is one period of \<open>CLOCK\<close>, with the buttons and switches in it. Assignments with \<open><=\<close> use the values
  from before the edge, so that a block that waits for the divided clock runs after the blocks of \<open>CLOCK\<close>.
  A register without an initial value may hold anything at first.
\<close>

definition switch :: "4 word \<Rightarrow> 4 word" where
  "switch SWITCHES = SWITCHES"

subsection \<open>The clock divider\<close>

record clock_divider =
  clk_counter :: "24 word"
  out_clk :: bool

definition divider_edge :: "clock_divider \<Rightarrow> clock_divider" where
  "divider_edge d =
     (if clk_counter d = 0xFFFFFF then d\<lparr>out_clk := \<not> out_clk d, clk_counter := 0\<rparr>
      else d\<lparr>clk_counter := clk_counter d + 1\<rparr>)"

definition rises :: "clock_divider \<Rightarrow> bool" where
  "rises d \<longleftrightarrow> \<not> out_clk d \<and> out_clk (divider_edge d)"

subsection \<open>The counter\<close>

record counter_chip =
  div_of :: clock_divider
  counter_of :: "4 word"

text \<open>Of several assignments to the register the last one counts.\<close>

definition counter_tick :: "3 word \<Rightarrow> 4 word \<Rightarrow> 4 word" where
  "counter_tick BUTTONS c =
     (let c1 = (if bit BUTTONS 0 then c + 1 else c);
          c2 = (if bit BUTTONS 1 then c - 1 else c1)
      in if bit BUTTONS 2 then 0 else c2)"

definition counter_step :: "counter_chip \<Rightarrow> 3 word \<Rightarrow> counter_chip" where
  "counter_step k BUTTONS =
     \<lparr>div_of = divider_edge (div_of k),
      counter_of = (if rises (div_of k) then counter_tick BUTTONS (counter_of k) else counter_of k)\<rparr>"

definition counter_leds :: "counter_chip \<Rightarrow> 4 word" where
  "counter_leds k = counter_of k"

subsection \<open>The game\<close>

datatype jackpot_state = IDLE | PUSHED | MISSED | WIN

record jackpot =
  jp_div :: clock_divider
  jp_reset :: bool
  jp_state :: jackpot_state
  led_pattern :: "4 word"
  LEDS :: "4 word"

definition next_pattern :: "4 word \<Rightarrow> 4 word" where
  "next_pattern p = (if bit p 3 then 1 else push_bit 1 p)"

definition jackpot_fsm :: "4 word \<Rightarrow> bool \<Rightarrow> jackpot \<Rightarrow> jackpot" where
  "jackpot_fsm SWITCHES RESET j =
     (case jp_state j of
        IDLE \<Rightarrow> j\<lparr>LEDS := led_pattern j, jp_state := (if SWITCHES \<noteq> 0 then PUSHED else IDLE)\<rparr>
      | PUSHED \<Rightarrow> j\<lparr>jp_state := (if SWITCHES \<noteq> LEDS j then MISSED else WIN)\<rparr>
      | MISSED \<Rightarrow> j\<lparr>jp_state := (if SWITCHES = 0 then IDLE else MISSED), LEDS := led_pattern j\<rparr>
      | WIN \<Rightarrow> j\<lparr>LEDS := 15, jp_state := (if RESET then if SWITCHES \<noteq> 0 then MISSED else IDLE else WIN)\<rparr>)"

text \<open>\<open>jp_reset\<close> is the level of \<open>RESET\<close> in the period before: a rise of it sets the pattern before the edge of \<open>CLOCK\<close>.\<close>

definition jackpot_step :: "jackpot \<Rightarrow> 4 word \<times> bool \<Rightarrow> jackpot" where
  "jackpot_step j i =
     (let (SWITCHES, RESET) = i;
          j1 = (if RESET \<and> \<not> jp_reset j then j\<lparr>led_pattern := 1\<rparr> else j);
          j2 = jackpot_fsm SWITCHES RESET j1
      in j2\<lparr>jp_reset := RESET, jp_div := divider_edge (jp_div j),
            led_pattern := (if rises (jp_div j) then if RESET then 1 else next_pattern (led_pattern j1) else led_pattern j1)\<rparr>)"

subsection \<open>The divided clock\<close>

lemma divider_run:
  assumes "clk_counter d = 0" and "\<not> out_clk d"
  shows "clk_counter ((divider_edge ^^ n) d) = word_of_nat (n mod 2 ^ 24) \<and> out_clk ((divider_edge ^^ n) d) = odd (n div 2 ^ 24)"
proof (induction n)
  case 0
  then show ?case using assms by simp
next
  case (Suc n)
  have mod: "unat (word_of_nat (n mod 2 ^ 24) :: 24 word) = n mod 2 ^ 24" by (simp add: unat_of_nat)
  show ?case
  proof (cases "n mod 2 ^ 24 = 2 ^ 24 - 1")
    case True
    then have "Suc n mod 2 ^ 24 = 0" "Suc n div 2 ^ 24 = Suc (n div 2 ^ 24)" by (simp_all add: mod_Suc div_Suc)
    moreover have "(word_of_nat (n mod 2 ^ 24) :: 24 word) = 0xFFFFFF" using True by simp
    ultimately show ?thesis using Suc by (simp add: divider_edge_def)
  next
    case False
    then have "Suc n mod 2 ^ 24 = Suc (n mod 2 ^ 24)" "Suc n div 2 ^ 24 = n div 2 ^ 24" by (simp_all add: mod_Suc div_Suc)
    moreover have "(word_of_nat (n mod 2 ^ 24) :: 24 word) \<noteq> 0xFFFFFF"
    proof
      assume "(word_of_nat (n mod 2 ^ 24) :: 24 word) = 0xFFFFFF"
      from arg_cong [OF this, of unat] False show False unfolding mod by simp
    qed
    ultimately show ?thesis using Suc by (simp add: divider_edge_def add.commute)
  qed
qed

lemma half_period:
  fixes B n :: nat
  assumes "0 < B"
  shows "even (n div B) \<and> odd (Suc n div B) \<longleftrightarrow> n mod (B * 2) = B - 1"
proof -
  have split: "n mod (B * 2) = B * (n div B mod 2) + n mod B" by (simp add: mod_mult2_eq)
  have "Suc n div B = (if Suc (n mod B) = B then Suc (n div B) else n div B)" by (simp add: div_Suc mod_Suc)
  then have "even (n div B) \<and> odd (Suc n div B) \<longleftrightarrow> even (n div B) \<and> Suc (n mod B) = B" by simp
  also have "\<dots> \<longleftrightarrow> n mod (B * 2) = B - 1"
  proof (cases "even (n div B)")
    case True
    then show ?thesis using assms by (auto simp: split)
  next
    case False
    then have "B \<le> n mod (B * 2)" by (simp add: split odd_iff_mod_2_eq_one)
    then show ?thesis using False assms by linarith
  qed
  finally show ?thesis .
qed

lemma rises_run:
  assumes "clk_counter d = 0" and "\<not> out_clk d"
  shows "rises ((divider_edge ^^ n) d) \<longleftrightarrow> n mod 2 ^ 25 = 2 ^ 24 - 1"
proof -
  have "rises ((divider_edge ^^ n) d) \<longleftrightarrow> even (n div 2 ^ 24) \<and> odd (Suc n div 2 ^ 24)"
    using divider_run [OF assms, of n] divider_run [OF assms, of "Suc n"] by (simp add: rises_def)
  also have "\<dots> \<longleftrightarrow> n mod (2 ^ 24 * 2) = 2 ^ 24 - 1" by (rule half_period) simp
  finally show ?thesis by simp
qed

subsection \<open>The counter samples its buttons\<close>

lemma counter_step_of: "counter_of (counter_step k b) = (if rises (div_of k) then counter_tick b (counter_of k) else counter_of k)"
  by (simp add: counter_step_def)

lemma counter_div: "div_of (foldl counter_step k bs) = (divider_edge ^^ length bs) (div_of k)"
  by (induction bs rule: rev_induct) (simp_all add: counter_step_def)

text \<open>The buttons are looked at once in \<open>2 ^ 25\<close> periods, for the first time after \<open>2 ^ 24\<close>, and not at all in between.\<close>

definition sampled :: "'a list \<Rightarrow> 'a list" where
  "sampled bs = map ((!) bs) (filter (\<lambda>n. n mod 2 ^ 25 = 2 ^ 24 - 1) [0..<length bs])"

lemma sampled_snoc: "sampled (bs @ [b]) = sampled bs @ (if length bs mod 2 ^ 25 = 2 ^ 24 - 1 then [b] else [])"
  by (simp add: sampled_def nth_append)

theorem counter_samples:
  assumes "clk_counter (div_of k) = 0" and "\<not> out_clk (div_of k)"
  shows "counter_leds (foldl counter_step k bs) = foldl (\<lambda>c b. counter_tick b c) (counter_of k) (sampled bs)"
proof (induction bs rule: rev_induct)
  case Nil
  then show ?case by (simp add: sampled_def counter_leds_def)
next
  case (snoc b bs)
  then show ?case
    using rises_run [OF assms, of "length bs"] by (simp add: sampled_snoc counter_leds_def counter_step_of counter_div)
qed

subsection \<open>The rules of the game\<close>

definition one_hot :: "4 word \<Rightarrow> bool" where
  "one_hot p \<longleftrightarrow> p = 1 \<or> p = 2 \<or> p = 4 \<or> p = 8"

definition jackpot_ok :: "jackpot \<Rightarrow> bool" where
  "jackpot_ok j \<longleftrightarrow> one_hot (led_pattern j) \<and> (jp_state j = PUSHED \<longrightarrow> one_hot (LEDS j))"

lemma one_hot_next: "one_hot p \<Longrightarrow> one_hot (next_pattern p)"
  by (auto simp: one_hot_def next_pattern_def bit_iff_odd drop_bit_eq_div)

lemma jackpot_step_ok: "jackpot_ok j \<Longrightarrow> jackpot_ok (jackpot_step j i)"
  by (cases i; cases "jp_state j") (auto simp: jackpot_ok_def jackpot_step_def jackpot_fsm_def Let_def one_hot_next one_hot_def [of 1])

lemma jackpot_run_ok: "jackpot_ok j \<Longrightarrow> jackpot_ok (foldl jackpot_step j is)"
  by (induction "is" arbitrary: j) (simp_all add: jackpot_step_ok)

text \<open>A reset starts the game.\<close>

lemma jackpot_reset: "\<not> jp_reset j \<Longrightarrow> jp_state j \<noteq> PUSHED \<Longrightarrow> jackpot_ok (jackpot_step j (0, True))"
  by (cases "jp_state j") (simp_all add: jackpot_ok_def jackpot_step_def jackpot_fsm_def Let_def one_hot_def)

text \<open>Without one, registers that start at zero stay dark.\<close>

theorem jackpot_dark:
  assumes "led_pattern j = 0" and "\<forall>i\<in>set is. \<not> snd i"
  shows "led_pattern (foldl jackpot_step j is) = 0"
  using assms
proof (induction "is" arbitrary: j)
  case (Cons i "is")
  then have "led_pattern (jackpot_step j i) = 0"
    by (cases i; cases "jp_state j") (simp_all add: jackpot_step_def jackpot_fsm_def Let_def next_pattern_def)
  with Cons show ?case by simp
qed simp

lemma jackpot_step_stays:
  "jp_state j = WIN \<Longrightarrow> \<not> snd i \<Longrightarrow> jp_state (jackpot_step j i) = WIN \<and> LEDS (jackpot_step j i) = 15"
  "jp_state j = MISSED \<Longrightarrow> fst i \<noteq> 0 \<Longrightarrow> jp_state (jackpot_step j i) = MISSED"
  by (cases i; simp add: jackpot_step_def jackpot_fsm_def Let_def)+

lemma jackpot_won:
  "jp_state j = WIN \<Longrightarrow> \<forall>i\<in>set is. \<not> snd i \<Longrightarrow> jp_state (foldl jackpot_step j is) = WIN \<and> (is \<noteq> [] \<longrightarrow> LEDS (foldl jackpot_step j is) = 15)"
  by (induction "is" rule: rev_induct) (simp_all add: jackpot_step_stays)

lemma jackpot_missed:
  "jp_state j = MISSED \<Longrightarrow> \<forall>i\<in>set is. fst i \<noteq> 0 \<Longrightarrow> jp_state (foldl jackpot_step j is) = MISSED"
  by (induction "is" rule: rev_induct) (simp_all add: jackpot_step_stays)

text \<open>The pattern that a switch is compared with: the one of the period in which it was pushed.\<close>

definition shown :: "jackpot \<Rightarrow> bool \<Rightarrow> 4 word" where
  "shown j r = (if r \<and> \<not> jp_reset j then 1 else led_pattern j)"

text \<open>Claim C40: the rules of the jackpot game, at any time after a reset. If a switch is pushed while the game waits, exactly one LED is lit, and the game is
  won if and only if exactly the switch of this LED is on in the next period; so nobody wins by pushing several switches.
  After a win all LEDs are lit until the next reset, and after a miss the game cannot be won before all switches have been released.\<close>

theorem jackpot_game:
  assumes "jackpot_ok j\<^sub>0" and "j = foldl jackpot_step j\<^sub>0 past" and "jp_state j = IDLE" and "s \<noteq> 0"
    and "j' = foldl jackpot_step j [(s, r), (s', r')]"
  shows "one_hot (shown j r) \<and> LEDS j' = shown j r \<and> jp_state j' = (if s' = shown j r then WIN else MISSED) \<and>
    (s' = shown j r \<longrightarrow> (\<forall>is. (\<forall>i\<in>set is. \<not> snd i) \<and> is \<noteq> [] \<longrightarrow> jp_state (foldl jackpot_step j' is) = WIN \<and> LEDS (foldl jackpot_step j' is) = 15)) \<and>
    (s' \<noteq> shown j r \<longrightarrow> (\<forall>is. (\<forall>i\<in>set is. fst i \<noteq> 0) \<longrightarrow> jp_state (foldl jackpot_step j' is) = MISSED))"
proof -
  have ok: "jackpot_ok j" using assms(1,2) jackpot_run_ok by simp
  then have "one_hot (shown j r)" by (simp add: shown_def jackpot_ok_def one_hot_def)
  moreover have "LEDS j' = shown j r" "jp_state j' = (if s' = shown j r then WIN else MISSED)"
    using assms(3-5) by (auto simp: jackpot_step_def jackpot_fsm_def Let_def shown_def)
  ultimately show ?thesis using jackpot_won [of j'] jackpot_missed [of j'] by auto
qed

definition demo_game :: jackpot where
  "demo_game = \<lparr>jp_div = \<lparr>clk_counter = 0, out_clk = False\<rparr>, jp_reset = False, jp_state = IDLE, led_pattern = 2, LEDS = 0\<rparr>"

theorem jackpot_game_witness:
  "jp_state (foldl jackpot_step demo_game [(0, False), (2, False), (2, False)]) = WIN \<and>
   jp_state (foldl jackpot_step demo_game [(0, False), (2, False), (2, False), (0, False), (7, False)]) = WIN \<and>
   LEDS (foldl jackpot_step demo_game [(0, False), (2, False), (2, False), (0, False), (7, False)]) = 15"
proof -
  have ok: "jackpot_ok demo_game" by (simp add: demo_game_def jackpot_ok_def one_hot_def)
  have idle: "jp_state (foldl jackpot_step demo_game [(0, False)]) = IDLE" "shown (foldl jackpot_step demo_game [(0, False)]) False = 2"
    by (simp_all add: demo_game_def shown_def jackpot_step_def jackpot_fsm_def Let_def rises_def divider_edge_def)
  show ?thesis using jackpot_game [OF ok refl idle(1), of 2 _ False 2 False, OF _ refl] idle(2)
    by (auto dest: spec [of _ "[(0, False), (7, False)]"])
qed

end
