(* ===== verification/Ppm.thy ===== *)
theory Ppm
  imports C_Numbers
begin

section \<open>Reading an image (CSCE646/pr04/myppm.h)\<close>

text \<open>
  \<open>ppm_init\<close> reads a binary PPM file: the header line by line through a C++ file stream, with comment
  lines skipped by \<open>clean_up\<close>, and then three bytes per pixel, the first row of the file going to the last row
  of the map. A stream has the bytes still to come and a flag that says it is usable; reaching the end
  clears the flag, and \<open>getline\<close> on an unusable stream leaves its string as it was. What \<open>new\<close> leaves in the
  pixel array is an argument.
\<close>

record RGB =
  red :: byte
  green :: byte
  blue :: byte

record ifs =
  rest :: "byte list"
  good :: bool

definition getline :: "byte list \<Rightarrow> ifs \<Rightarrow> byte list \<times> ifs" where
  "getline line s =
     (if \<not> good s then (line, s)
      else if 10 \<in> set (rest s)
      then (takeWhile (\<lambda>b. b \<noteq> 10) (rest s), s\<lparr>rest := tl (dropWhile (\<lambda>b. b \<noteq> 10) (rest s))\<rparr>)
      else (rest s, \<lparr>rest = [], good = False\<rparr>))"

text \<open>\<open>peek\<close> at the end of the file makes the stream unusable.\<close>

function clean_up :: "ifs \<Rightarrow> ifs" where
  "clean_up s =
     (if \<not> good s then s
      else if rest s = [] then s\<lparr>good := False\<rparr>
      else if hd (rest s) = 35 then clean_up (snd (getline [] s))
      else s)"
  by pat_completeness auto

termination clean_up
proof (relation "measure (\<lambda>s. length (rest s))")
  fix s :: ifs
  assume "rest s \<noteq> []" "\<not> \<not> good s"
  moreover have "length (dropWhile (\<lambda>b. b \<noteq> 10) (rest s)) \<le> length (rest s)" by (rule length_dropWhile_le)
  ultimately show "(snd (getline [] s), s) \<in> measure (\<lambda>s. length (rest s))"
    by (cases "rest s") (auto simp: getline_def)
qed simp

declare clean_up.simps [simp del]

subsection \<open>Numbers\<close>

text \<open>\<open>istringstream(line) >> width >> height\<close>: after a failed extraction \<open>height\<close> keeps its value.\<close>

definition read_dims :: "byte list \<Rightarrow> int \<Rightarrow> int \<times> int" where
  "read_dims line height0 =
     (case read_int line of (w, ok, r) \<Rightarrow> (w, if ok then fst (read_int r) else height0))"

text \<open>\<open>stoi\<close> throws where the extraction fails, and nobody catches it.\<close>

definition stoi :: "byte list \<Rightarrow> int c_result" where
  "stoi line = (case read_int line of (v, ok, _) \<Rightarrow> if ok then Inr v else Inl Exit_called)"

subsection \<open>Pixels\<close>

record myppm =
  width :: int
  height :: int
  RGB_range :: int
  pixel_map :: "RGB list"
  new_map :: "RGB list"

text \<open>\<open>for (i = height - 1; i >= 0; i--) for (j = 0; j < width; j++)\<close>: the values of \<open>index\<close> in order.\<close>

definition pixel_order :: "int \<Rightarrow> int \<Rightarrow> int list" where
  "pixel_order w h = concat (map (\<lambda>i. map (\<lambda>j. i * w + j) [0..w - 1]) (rev [0..h - 1]))"

text \<open>The loop over the pixels, which stores \<open>f colors\<close> for the bytes of each pixel. \<open>read(colors, 3)\<close> goes into an
  array that is not set before: with fewer than three bytes left the pixel gets indeterminate values.\<close>

fun read_map :: "(RGB \<Rightarrow> 'a) \<Rightarrow> int list \<Rightarrow> ifs \<Rightarrow> 'a list \<Rightarrow> 'a list c_result" where
  "read_map f [] s m = Inr m"
| "read_map f (index # ix) s m =
     (if \<not> good s \<or> length (rest s) < 3 then Inl Uninitialised
      else c_bind (arr_set m index (f \<lparr>red = rest s ! 0, green = rest s ! 1, blue = rest s ! 2\<rparr>))
             (read_map f ix (s\<lparr>rest := drop 3 (rest s)\<rparr>)))"

text \<open>The loop of pr04, which stores every pixel in both maps.\<close>

fun read_maps :: "int list \<Rightarrow> ifs \<Rightarrow> RGB list \<Rightarrow> RGB list \<Rightarrow> (RGB list \<times> RGB list) c_result" where
  "read_maps [] s m n = Inr (m, n)"
| "read_maps (index # ix) s m n =
     (if \<not> good s \<or> length (rest s) < 3 then Inl Uninitialised
      else let colors = \<lparr>red = rest s ! 0, green = rest s ! 1, blue = rest s ! 2\<rparr>
           in c_bind (arr_set m index colors) (\<lambda>m1. c_bind (arr_set n index colors) (\<lambda>n1.
              read_maps ix (s\<lparr>rest := drop 3 (rest s)\<rparr>) m1 n1)))"

text \<open>The header: width, height, range and the stream at the first pixel. \<open>file\<close> is \<open>None\<close> when the file cannot be
  opened: then the first line is empty. A negative number of pixels makes \<open>new\<close> throw.\<close>

definition read_header :: "int \<Rightarrow> byte list option \<Rightarrow> (int \<times> int \<times> int \<times> ifs) c_result" where
  "read_header height0 file =
     (let s0 = (case file of None \<Rightarrow> \<lparr>rest = [], good = False\<rparr> | Some bs \<Rightarrow> \<lparr>rest = bs, good = True\<rparr>);
          (l1, s1) = getline [] s0
      in if l1 \<noteq> lit ''P6'' then Inl Exit_called
         else
           let (l2, s2) = getline l1 (clean_up s1);
               (w, h) = read_dims l2 height0;
               (l3, s3) = getline l2 (clean_up s2)
           in c_bind (stoi l3) (\<lambda>range.
              if w * h > INT_MAX \<or> w * h < - INT_MAX - 1 then Inl Signed_overflow
              else if w * h < 0 then Inl Exit_called
              else Inr (w, h, range, clean_up s3)))"

text \<open>\<open>junk\<close> is what the memory of the two maps held, one behind the other.\<close>

definition ppm_init :: "(nat \<Rightarrow> RGB) \<Rightarrow> int \<Rightarrow> byte list option \<Rightarrow> myppm c_result" where
  "ppm_init junk height0 file =
     c_bind (read_header height0 file) (\<lambda>(w, h, range, s).
     let size = nat (w * h)
     in c_bind (read_maps (pixel_order w h) s (map junk [0..<size]) (map (\<lambda>i. junk (size + i)) [0..<size])) (\<lambda>(m, n).
        Inr \<lparr>width = w, height = h, RGB_range = range, pixel_map = m, new_map = n\<rparr>))"

lemma read_maps_split:
  "length m = length n \<Longrightarrow>
   read_maps ix s m n = c_bind (read_map (\<lambda>c. c) ix s m) (\<lambda>m'. c_bind (read_map (\<lambda>c. c) ix s n) (\<lambda>n'. Inr (m', n')))"
proof (induction ix arbitrary: s m n)
  case (Cons index ix)
  then show ?case by (auto simp: arr_set_def Let_def)
qed simp

subsection \<open>Lines, comments and numbers of a well-formed header\<close>

lemma getline_line: "10 \<notin> set l \<Longrightarrow> getline x \<lparr>rest = l @ 10 # r, good = True\<rparr> = (l, \<lparr>rest = r, good = True\<rparr>)"
proof -
  assume "10 \<notin> set l"
  then have "takeWhile (\<lambda>b. b \<noteq> 10) (l @ 10 # r) = l" "dropWhile (\<lambda>b. b \<noteq> 10) (l @ 10 # r) = 10 # r"
    by (induction l) auto
  then show ?thesis by (simp add: getline_def)
qed

text \<open>A block of comment lines.\<close>

definition comments :: "byte list list \<Rightarrow> byte list" where
  "comments cs = concat (map (\<lambda>c. 35 # c @ [10]) cs)"

lemma clean_up_stop: "b \<noteq> 35 \<Longrightarrow> clean_up \<lparr>rest = b # r, good = True\<rparr> = \<lparr>rest = b # r, good = True\<rparr>"
  by (subst clean_up.simps) simp

lemma clean_up_comments:
  "\<forall>c\<in>set cs. 10 \<notin> set c \<Longrightarrow> clean_up \<lparr>rest = comments cs @ r, good = True\<rparr> = clean_up \<lparr>rest = r, good = True\<rparr>"
proof (induction cs)
  case Nil
  then show ?case by (simp add: comments_def)
next
  case (Cons c cs)
  have "getline [] \<lparr>rest = (35 # c) @ 10 # (comments cs @ r), good = True\<rparr> = (35 # c, \<lparr>rest = comments cs @ r, good = True\<rparr>)"
    using Cons.prems by (intro getline_line) simp
  then have "clean_up \<lparr>rest = comments (c # cs) @ r, good = True\<rparr> = clean_up \<lparr>rest = comments cs @ r, good = True\<rparr>"
    by (subst clean_up.simps) (simp add: comments_def)
  with Cons show ?case by simp
qed

subsection \<open>The pixels of a well-formed file\<close>

definition px_bytes :: "RGB \<Rightarrow> byte list" where
  "px_bytes q = [red q, green q, blue q]"

lemma read_row:
  assumes "length old = length r"
  shows "read_map f (map int [length a..<length a + length r] @ ix) \<lparr>rest = concat (map px_bytes r) @ t, good = True\<rparr> (a @ old @ b) =
    read_map f ix \<lparr>rest = t, good = True\<rparr> (a @ map f r @ b)"
  using assms
proof (induction r arbitrary: a old)
  case Nil
  then show ?case by simp
next
  case (Cons q r)
  then obtain x old' where old: "old = x # old'" "length old' = length r" by (cases old) auto
  have q: "\<lparr>red = red q, green = green q, blue = blue q\<rparr> = q" by simp
  have up: "[length a..<length a + length (q # r)] = length a # [Suc (length a)..<Suc (length a) + length r]"
    by (simp add: upt_conv_Cons del: upt_Suc)
  have "read_map f (map int [length a..<length a + length (q # r)] @ ix) \<lparr>rest = concat (map px_bytes (q # r)) @ t, good = True\<rparr> (a @ old @ b) =
      read_map f (map int [length (a @ [f q])..<length (a @ [f q]) + length r] @ ix) \<lparr>rest = concat (map px_bytes r) @ t, good = True\<rparr> ((a @ [f q]) @ old' @ b)"
    unfolding up by (simp add: px_bytes_def arr_set_def list_update_append old(1) q del: upt_Suc)
  also have "\<dots> = read_map f ix \<lparr>rest = t, good = True\<rparr> ((a @ [f q]) @ map f r @ b)" by (rule Cons.IH [OF old(2)])
  finally show ?case by simp
qed

lemma row_indices: "map (\<lambda>j. int k * int n + j) [0..int n - 1] = map int [k * n..<k * n + n]"
proof -
  have "map (\<lambda>j. int k * int n + j) [0..int n - 1] = map int (map (\<lambda>j. j + k * n) [0..<n])"
    by (simp add: upto_map_int o_def add.commute)
  then show ?thesis by (simp add: map_add_upt add.commute)
qed

lemma pixel_order_Suc:
  "pixel_order (int n) (int (Suc k)) = map int [k * n..<k * n + n] @ pixel_order (int n) (int k)"
proof -
  have "[0..int (Suc k) - 1] = [0..int k - 1] @ [int k]" by (simp add: upto_rec2)
  then show ?thesis by (simp add: pixel_order_def row_indices)
qed

lemma read_rows:
  assumes "\<forall>r\<in>set rows. length r = n" and "length a = length rows * n"
  shows "read_map f (pixel_order (int n) (int (length rows))) \<lparr>rest = concat (map px_bytes (concat rows)) @ t, good = True\<rparr> (a @ b) =
    Inr (map f (concat (rev rows)) @ b)"
  using assms
proof (induction rows arbitrary: a b)
  case Nil
  then show ?case by (simp add: pixel_order_def)
next
  case (Cons r rows)
  define a1 where "a1 = take (length rows * n) a"
  define old where "old = drop (length rows * n) a"
  have a: "a = a1 @ old" "length a1 = length rows * n" "length old = length r"
    using Cons.prems by (auto simp: a1_def old_def)
  have "read_map f (pixel_order (int n) (int (length (r # rows)))) \<lparr>rest = concat (map px_bytes (concat (r # rows))) @ t, good = True\<rparr> (a @ b) =
      read_map f (map int [length a1..<length a1 + length r] @ pixel_order (int n) (int (length rows)))
        \<lparr>rest = concat (map px_bytes r) @ concat (map px_bytes (concat rows)) @ t, good = True\<rparr> (a1 @ old @ b)"
    using Cons.prems(1) a by (simp add: pixel_order_Suc del: of_nat_Suc)
  also have "\<dots> = Inr (map f (concat (rev rows)) @ map f r @ b)"
    unfolding read_row [OF a(3)] using Cons.prems(1) a(2) by (intro Cons.IH) auto
  finally show ?case by simp
qed

text \<open>A file with comment blocks after each header line; \<open>rows\<close> are its rows from top to bottom.\<close>

definition ppm_file :: "byte list list \<Rightarrow> byte list list \<Rightarrow> byte list list \<Rightarrow> nat \<Rightarrow> nat \<Rightarrow> RGB list list \<Rightarrow> byte list" where
  "ppm_file c1 c2 c3 n rng rows =
     lit ''P6'' @ 10 # comments c1 @ (dec_digits n @ 32 # dec_digits (length rows)) @ 10 # comments c2 @
     dec_digits rng @ 10 # comments c3 @ concat (map px_bytes (concat rows))"

lemma header_parsed:
  assumes "\<forall>c\<in>set (c1 @ c2 @ c3). 10 \<notin> set c" and "int n \<le> INT_MAX" and "int (length rows) \<le> INT_MAX" and "int rng \<le> INT_MAX"
  shows "read_header h0 (Some (ppm_file c1 c2 c3 n rng rows)) =
    (if int n * int (length rows) > INT_MAX then Inl Signed_overflow
     else Inr (int n, int (length rows), int rng, clean_up \<lparr>rest = concat (map px_bytes (concat rows)), good = True\<rparr>))"
proof -
  let ?dims = "dec_digits n @ 32 # dec_digits (length rows)" and ?px = "concat (map px_bytes (concat rows))"
  have c: "\<forall>c\<in>set c1. 10 \<notin> set c" "\<forall>c\<in>set c2. 10 \<notin> set c" "\<forall>c\<in>set c3. 10 \<notin> set c" using assms(1) by auto
  have stop: "clean_up \<lparr>rest = dec_digits k @ r, good = True\<rparr> = \<lparr>rest = dec_digits k @ r, good = True\<rparr>" for k r
    using dec_digits_all [of k] by (cases "dec_digits k") (auto intro: clean_up_stop)
  have no10: "10 \<notin> set (dec_digits k)" for k using dec_digits_all [of k] by blast
  have g1: "getline [] \<lparr>rest = ppm_file c1 c2 c3 n rng rows, good = True\<rparr> =
      (lit ''P6'', \<lparr>rest = comments c1 @ ?dims @ 10 # comments c2 @ dec_digits rng @ 10 # comments c3 @ ?px, good = True\<rparr>)"
    unfolding ppm_file_def by (rule getline_line) (simp add: lit_def byte_of_char_def)
  have g2: "getline l (clean_up \<lparr>rest = comments c1 @ ?dims @ 10 # r, good = True\<rparr>) = (?dims, \<lparr>rest = r, good = True\<rparr>)" for l r
    using clean_up_comments [OF c(1), of "?dims @ 10 # r"] stop [of n "32 # dec_digits (length rows) @ 10 # r"]
      getline_line [of ?dims l r] no10 by simp
  have g3: "getline l (clean_up \<lparr>rest = comments c2 @ dec_digits rng @ 10 # r, good = True\<rparr>) = (dec_digits rng, \<lparr>rest = r, good = True\<rparr>)" for l r
    using clean_up_comments [OF c(2), of "dec_digits rng @ 10 # r"] stop [of rng "10 # r"] getline_line [of "dec_digits rng" l r] no10 by simp
  have dims: "read_dims ?dims h0 = (int n, int (length rows))"
    using read_int_dec [OF assms(2), of "32 # dec_digits (length rows)" "[]"] read_int_dec [OF assms(3), of "[]" "[32]"]
    by (simp add: read_dims_def is_digit_def is_space_def)
  have rng: "stoi (dec_digits rng) = Inr (int rng)"
    using read_int_dec [OF assms(4), of "[]" "[]"] by (simp add: stoi_def)
  have pos: "0 \<le> int n * int (length rows)" by simp
  show ?thesis
    unfolding read_header_def by (simp add: g1 g2 [simplified] g3 [simplified] dims rng clean_up_comments [OF c(3)] INT_MAX_def) (use pos in linarith)
qed

lemma file_parsed:
  assumes "\<forall>c\<in>set (c1 @ c2 @ c3). 10 \<notin> set c" and "\<forall>r\<in>set rows. length r = n" and "0 < n" and "rows \<noteq> []"
    and "int n * int (length rows) \<le> INT_MAX" and "int rng \<le> INT_MAX" and "red (hd (hd rows)) \<noteq> 35"
  shows "\<exists>s. read_header h0 (Some (ppm_file c1 c2 c3 n rng rows)) = Inr (int n, int (length rows), int rng, s) \<and>
    (\<forall>m. length m = n * length rows \<longrightarrow> read_map f (pixel_order (int n) (int (length rows))) s m = Inr (map f (concat (rev rows))))"
proof -
  have "int n \<le> int n * int (length rows)" "int (length rows) \<le> int n * int (length rows)"
    using assms(3,4) by (cases "length rows"; cases n; simp)+
  then have fit: "int n \<le> INT_MAX" "int (length rows) \<le> INT_MAX" using assms(5) by linarith+
  obtain q r rows' where rows: "rows = (q # r) # rows'" using assms(2-4) by (cases rows; cases "hd rows") auto
  have stop: "clean_up \<lparr>rest = concat (map px_bytes (concat rows)), good = True\<rparr> =
      \<lparr>rest = concat (map px_bytes (concat rows)) @ [], good = True\<rparr>"
    using assms(7) unfolding rows by (simp add: px_bytes_def clean_up_stop)
  have "read_map f (pixel_order (int n) (int (length rows))) \<lparr>rest = concat (map px_bytes (concat rows)) @ [], good = True\<rparr> (m @ []) =
      Inr (map f (concat (rev rows)) @ [])" if "length m = n * length rows" for m
    using assms(2) that by (intro read_rows) simp_all
  with stop header_parsed [OF assms(1) fit assms(6)] assms(5) show ?thesis by simp
qed

lemma file_read:
  assumes "\<forall>c\<in>set (c1 @ c2 @ c3). 10 \<notin> set c" and "\<forall>r\<in>set rows. length r = n" and "0 < n" and "rows \<noteq> []"
    and "int n * int (length rows) \<le> INT_MAX" and "int rng \<le> INT_MAX" and "red (hd (hd rows)) \<noteq> 35"
  shows "c_bind (read_header h0 (Some (ppm_file c1 c2 c3 n rng rows))) (\<lambda>(w, h, range, s).
      c_bind (read_map f (pixel_order w h) s (map junk [0..<nat (w * h)])) (\<lambda>m. Inr (g w h range m))) =
    Inr (g (int n) (int (length rows)) (int rng) (map f (concat (rev rows))))"
  using file_parsed [OF assms, of h0 f] by (auto simp: nat_mult_distrib)

lemma init_read:
  assumes "\<forall>c\<in>set (c1 @ c2 @ c3). 10 \<notin> set c" and "\<forall>r\<in>set rows. length r = n" and "0 < n" and "rows \<noteq> []"
    and "int n * int (length rows) \<le> INT_MAX" and "int rng \<le> INT_MAX" and "red (hd (hd rows)) \<noteq> 35"
  shows "ppm_init junk h0 (Some (ppm_file c1 c2 c3 n rng rows)) =
    Inr \<lparr>width = int n, height = int (length rows), RGB_range = int rng, pixel_map = concat (rev rows), new_map = concat (rev rows)\<rparr>"
  using file_parsed [OF assms, of h0 "\<lambda>c. c"] by (auto simp: ppm_init_def read_maps_split nat_mult_distrib)

text \<open>A non-empty array of rows of the same length that fits into an \<open>int\<close>.\<close>

definition rows_ok :: "nat \<Rightarrow> nat \<Rightarrow> RGB list list \<Rightarrow> bool" where
  "rows_ok n rng rows \<longleftrightarrow> (\<forall>r\<in>set rows. length r = n) \<and> 0 < n \<and> rows \<noteq> [] \<and> int n * int (length rows) \<le> INT_MAX \<and>
     int rng \<le> INT_MAX \<and> red (hd (hd rows)) \<noteq> 35"

lemma rows_ok_length: "rows_ok n rng rows \<Longrightarrow> length (concat (rev rows)) = n * length rows"
proof -
  have "\<forall>r\<in>set rows. length r = n \<Longrightarrow> length (concat (rev rows)) = n * length rows" by (induction rows) auto
  then show "rows_ok n rng rows \<Longrightarrow> length (concat (rev rows)) = n * length rows" by (simp add: rows_ok_def)
qed

lemma ppm_init_plain:
  assumes "rows_ok n rng rows"
  shows "ppm_init junk h0 (Some (ppm_file [] [] [] n rng rows)) =
    Inr \<lparr>width = int n, height = int (length rows), RGB_range = int rng, pixel_map = concat (rev rows), new_map = concat (rev rows)\<rparr>"
  using assms by (intro init_read) (auto simp: rows_ok_def)

text \<open>Claim C26: a well-formed image is read as it was written. For a file with the header P6, any comment
  lines between the header lines, the dimensions and the range in decimal and the rows from top to bottom,
  the map holds the rows from bottom to top, and both maps are equal, provided the first byte of the first
  pixel is not that of a comment sign.\<close>

theorem ppm_init_reads:
  assumes "\<forall>c\<in>set (c1 @ c2 @ c3). 10 \<notin> set c" and "\<forall>r\<in>set rows. length r = n" and "0 < n" and "rows \<noteq> []"
    and "int n * int (length rows) \<le> INT_MAX" and "int rng \<le> INT_MAX" and "red (hd (hd rows)) \<noteq> 35"
  shows "ppm_init junk h0 (Some (ppm_file c1 c2 c3 n rng rows)) =
    Inr \<lparr>width = int n, height = int (length rows), RGB_range = int rng,
         pixel_map = concat (rev rows), new_map = concat (rev rows)\<rparr>"
  by (rule init_read [OF assms])

definition demo_px :: "byte \<Rightarrow> RGB" where
  "demo_px b = \<lparr>red = b, green = b + 1, blue = 35\<rparr>"

theorem ppm_init_reads_witness:
  "ppm_init (\<lambda>_. demo_px 0) 0 (Some (ppm_file [[32, 104]] [] [] 2 255 [[demo_px 1, demo_px 2], [demo_px 3, demo_px 4]])) =
    Inr \<lparr>width = 2, height = 2, RGB_range = 255, pixel_map = [demo_px 3, demo_px 4, demo_px 1, demo_px 2],
         new_map = [demo_px 3, demo_px 4, demo_px 1, demo_px 2]\<rparr>"
  using ppm_init_reads [of "[[32, 104]]" "[]" "[]" "[[demo_px 1, demo_px 2], [demo_px 3, demo_px 4]]" 2 255 "\<lambda>_. demo_px 0" 0]
  by (simp add: INT_MAX_def demo_px_def)

text \<open>An image whose first pixel has red value 35 is not read correctly. The comment skipper runs
  once more before the pixels and takes the data for a comment line; if no byte of the pixels is a line
  feed, all of it is skipped and the map is filled with indeterminate values.\<close>

theorem ppm_hash_pixel:
  assumes "\<forall>c\<in>set (c1 @ c2 @ c3). 10 \<notin> set c" and "\<forall>r\<in>set rows. length r = n" and "0 < n" and "rows \<noteq> []"
    and "int n * int (length rows) \<le> INT_MAX" and "int rng \<le> INT_MAX" and "red (hd (hd rows)) = 35"
    and "10 \<notin> set (concat (map px_bytes (concat rows)))"
  shows "ppm_init junk h0 (Some (ppm_file c1 c2 c3 n rng rows)) = Inl Uninitialised"
proof -
  have "int n \<le> int n * int (length rows)" "int (length rows) \<le> int n * int (length rows)"
    using assms(3,4) by (cases "length rows"; cases n; simp)+
  then have fit: "int n \<le> INT_MAX" "int (length rows) \<le> INT_MAX" using assms(5) by linarith+
  obtain q r rows' where rows: "rows = (q # r) # rows'" using assms(2-4) by (cases rows; cases "hd rows") auto
  have skip: "clean_up \<lparr>rest = concat (map px_bytes (concat rows)), good = True\<rparr> = \<lparr>rest = [], good = False\<rparr>"
  proof -
    have "snd (getline [] \<lparr>rest = concat (map px_bytes (concat rows)), good = True\<rparr>) = \<lparr>rest = [], good = False\<rparr>"
      using assms(8) by (simp add: getline_def)
    moreover have "clean_up \<lparr>rest = [], good = False\<rparr> = \<lparr>rest = [], good = False\<rparr>" by (subst clean_up.simps) simp
    ultimately show ?thesis using assms(7) rows by (subst clean_up.simps) (simp add: px_bytes_def)
  qed
  obtain k n' where "length rows = Suc k" "n = Suc n'" using assms(3,4) by (cases "length rows"; cases n) auto
  then obtain j js where "pixel_order (int n) (int (length rows)) = j # js"
    by (simp add: pixel_order_Suc upt_conv_Cons del: upt_Suc of_nat_Suc)
  with skip header_parsed [OF assms(1) fit assms(6)] assms(5) show ?thesis by (simp add: ppm_init_def)
qed

theorem ppm_hash_pixel_witness:
  "ppm_init (\<lambda>_. demo_px 0) 0 (Some (ppm_file [] [] [] 1 255 [[demo_px 35]])) = Inl Uninitialised"
  by (rule ppm_hash_pixel) (simp_all add: demo_px_def px_bytes_def INT_MAX_def)

end
