(* ===== verification/Ppm_Filter.thy ===== *)
theory Ppm_Filter
  imports Ppm Complex_Main
begin

section \<open>Filters on images (CSCE646/pr04/myppm.h)\<close>

text \<open>
  The convolution and the erosion of pr04. The filters walk a window over the image; indices that leave the
  pixel array are accesses out of bounds, sums that leave the range of \<open>int\<close> are overflows. A \<open>double\<close> is a
  rational number, and every floating-point operation that may round is followed by the rounding \<open>rnd\<close> of
  the machine, an argument of the definitions.

  A filter is correct if it stays inside the arrays, changes exactly the pixels whose window lies in the image,
  and gives each of them a value that depends on the original image only. The locale \<open>pixel_filter\<close> derives
  this for a whole image from the treatment of a single pixel; the filters here and in \<open>Ppm_Hue\<close> interpret it.
\<close>

subsection \<open>Windows\<close>

definition conv_range :: "int \<Rightarrow> int" where
  "conv_range sz = (sz - 1) sdiv 2"

text \<open>\<open>for (yk = 0; yk < size; yk++) for (xk = 0; xk < size; xk++)\<close>.\<close>

definition window :: "int \<Rightarrow> (int \<times> int) list" where
  "window sz = concat (map (\<lambda>yk. map (\<lambda>xk. (xk, yk)) [0..sz - 1]) [0..sz - 1])"

text \<open>The loop over a window with its corner at row \<open>x0\<close> and column \<open>y0\<close>: \<open>f\<close> gets the index into the kernel and the
  attempt to read the pixel.\<close>

fun window_loop :: "(int \<Rightarrow> RGB c_result \<Rightarrow> 'a \<Rightarrow> 'a c_result) \<Rightarrow> myppm \<Rightarrow> int \<Rightarrow> int \<Rightarrow> int \<Rightarrow> (int \<times> int) list \<Rightarrow> 'a \<Rightarrow> 'a c_result" where
  "window_loop f P sz x0 y0 [] acc = Inr acc"
| "window_loop f P sz x0 y0 ((xk, yk) # ks) acc =
     c_bind (f (xk * sz + yk) (arr_get (pixel_map P) ((x0 + xk) * width P + (y0 + yk))) acc)
       (window_loop f P sz x0 y0 ks)"

definition set_px :: "int \<Rightarrow> int \<Rightarrow> int \<times> int \<times> int \<Rightarrow> myppm \<Rightarrow> myppm c_result" where
  "set_px x y rgb P =
     (case rgb of (r, g, b) \<Rightarrow>
        c_bind (arr_set (new_map P) (x * width P + y) \<lparr>red = word_of_int r, green = word_of_int g, blue = word_of_int b\<rparr>)
          (\<lambda>m. Inr (P\<lparr>new_map := m\<rparr>)))"

text \<open>The pixels a filter visits: \<open>for (y = m; y < height - m; y++) for (x = m; x < width - m; x++)\<close>.\<close>

definition visited :: "int \<Rightarrow> myppm \<Rightarrow> (int \<times> int) list" where
  "visited m P = concat (map (\<lambda>y. map (\<lambda>x. (y, x)) [m..width P - m - 1]) [m..height P - m - 1])"

fun each_pixel :: "(myppm \<Rightarrow> int \<Rightarrow> int \<Rightarrow> myppm c_result) \<Rightarrow> (int \<times> int) list \<Rightarrow> myppm \<Rightarrow> myppm c_result" where
  "each_pixel single [] P = Inr P"
| "each_pixel single ((y, x) # ps) P = c_bind (single P y x) (each_pixel single ps)"

subsection \<open>Erosion (pr04)\<close>

definition erode_step :: "int \<Rightarrow> RGB c_result \<Rightarrow> int \<times> int \<times> int \<Rightarrow> (int \<times> int \<times> int) c_result" where
  "erode_step k px acc =
     (case acc of (r, g, b) \<Rightarrow>
        c_bind px (\<lambda>p. Inr (min (uint (red p)) r, min (uint (green p)) g, min (uint (blue p)) b)))"

definition morphological_single_pixel :: "int \<Rightarrow> myppm \<Rightarrow> int \<Rightarrow> int \<Rightarrow> myppm c_result" where
  "morphological_single_pixel sz P x y =
     c_bind (window_loop erode_step P sz (x - conv_range sz) (y - conv_range sz) (window sz) (255, 255, 255))
       (\<lambda>rgb. set_px x y rgb P)"

definition dilation :: "int \<Rightarrow> myppm \<Rightarrow> myppm c_result" where
  "dilation sz P = each_pixel (morphological_single_pixel sz) (visited (conv_range sz) P) P"

subsection \<open>Convolution (pr04)\<close>

text \<open>\<open>acc += int(p) * k\<close> in the range of \<open>int\<close>.\<close>

definition in_int :: "int \<Rightarrow> bool" where
  "in_int v \<longleftrightarrow> - INT_MAX - 1 \<le> v \<and> v \<le> INT_MAX"

definition mac :: "int \<Rightarrow> byte \<Rightarrow> int \<Rightarrow> int c_result" where
  "mac acc p k =
     (if in_int (uint p * k) \<and> in_int (acc + uint p * k) then Inr (acc + uint p * k) else Inl Signed_overflow)"

definition conv_step :: "int list \<Rightarrow> int \<Rightarrow> RGB c_result \<Rightarrow> int \<times> int \<times> int \<Rightarrow> (int \<times> int \<times> int) c_result" where
  "conv_step kern k px acc =
     (case acc of (r, g, b) \<Rightarrow>
        c_bind px (\<lambda>p. c_bind (arr_get kern k) (\<lambda>w.
        c_bind (mac r (red p) w) (\<lambda>r. c_bind (mac g (green p) w) (\<lambda>g. c_bind (mac b (blue p) w) (\<lambda>b. Inr (r, g, b)))))))"

text \<open>\<open>(int) remainder(acc * factor + bias, 255)\<close>: the remainder is the one of IEEE 754, which subtracts the multiple of the
  divisor that is nearest (an even multiple when two are equally near); it is exact.\<close>

definition rint :: "rat \<Rightarrow> int" where
  "rint x = (let f = \<lfloor>x\<rfloor>; d = x - of_int f in if d < 1 / 2 then f else if 1 / 2 < d then f + 1 else if even f then f else f + 1)"

definition remainder :: "rat \<Rightarrow> rat \<Rightarrow> rat" where
  "remainder x y = x - of_int (rint (x / y)) * y"

definition trunc :: "rat \<Rightarrow> int" where
  "trunc x = (if x < 0 then \<lceil>x\<rceil> else \<lfloor>x\<rfloor>)"

text \<open>The conversion of a \<open>double\<close> to \<open>int\<close>.\<close>

definition to_int :: "rat \<Rightarrow> int c_result" where
  "to_int x = (if in_int (trunc x) then Inr (trunc x) else Inl Signed_overflow)"

definition scale :: "(rat \<Rightarrow> rat) \<Rightarrow> rat \<Rightarrow> int \<Rightarrow> int \<Rightarrow> int" where
  "scale rnd factor bias acc = trunc (remainder (rnd (rnd (of_int acc * factor) + of_int bias)) 255)"

definition conv_single_pixel :: "(rat \<Rightarrow> rat) \<Rightarrow> int list \<Rightarrow> int \<Rightarrow> rat \<Rightarrow> int \<Rightarrow> myppm \<Rightarrow> int \<Rightarrow> int \<Rightarrow> myppm c_result" where
  "conv_single_pixel rnd kern sz factor bias P x y =
     c_bind (window_loop (conv_step kern) P sz (x - conv_range sz) (y - conv_range sz) (window sz) (0, 0, 0))
       (\<lambda>(r, g, b). set_px x y (scale rnd factor bias r, scale rnd factor bias g, scale rnd factor bias b) P)"

text \<open>Without a kernel only a line is printed. The member \<open>bias\<close> is only read by \<open>conv_single_pixel\<close> and becomes its argument.\<close>

definition conv_blur :: "(rat \<Rightarrow> rat) \<Rightarrow> int list option \<Rightarrow> int \<Rightarrow> rat \<Rightarrow> int \<Rightarrow> myppm \<Rightarrow> myppm c_result" where
  "conv_blur rnd kern sz factor bias0 P =
     (case kern of None \<Rightarrow> Inr P
      | Some k \<Rightarrow> each_pixel (conv_single_pixel rnd k sz factor bias0) (visited (conv_range sz) P) P)"

subsection \<open>The program\<close>

text \<open>\<open>main\<close> up to the display of \<open>new_map\<close>; \<open>fs\<close> are the files. The object is global, so that \<open>height\<close> starts at 0.\<close>

definition motion_kernel :: "int list" where
  "motion_kernel = [
     1,0,0,0,0,0,0,0,0,
     0,3,0,0,0,0,0,0,0,
     0,0,5,0,0,0,0,0,0,
     0,0,0,7,0,0,0,0,0,
     0,0,0,0,9,0,0,0,0,
     0,0,0,0,0,7,0,0,0,
     0,0,0,0,0,0,5,0,0,
     0,0,0,0,0,0,0,3,0,
     0,0,0,0,0,0,0,0,1]"

definition pr04_main :: "(rat \<Rightarrow> rat) \<Rightarrow> (nat \<Rightarrow> RGB) \<Rightarrow> (byte list \<Rightarrow> byte list option) \<Rightarrow> byte list list \<Rightarrow> myppm c_result" where
  "pr04_main rnd junk fs argv =
     (if length argv \<le> 2 then Inl Exit_called
      else c_bind (ppm_init junk 0 (fs (argv ! 2))) (\<lambda>ppm.
           if argv ! 1 = lit ''convolution'' then conv_blur rnd (Some (replicate 25 1)) 5 (rnd (1 / 25)) 255 ppm
           else if argv ! 1 = lit ''emboss'' then conv_blur rnd (Some [-1,-1,0,-1,0,1,0,1,1]) 3 (rnd (1 / 9)) 128 ppm
           else if argv ! 1 = lit ''motion'' then conv_blur rnd (Some motion_kernel) 9 (rnd (1 / 41)) 0 ppm
           else if argv ! 1 = lit ''erosion'' then dilation 9 ppm
           else Inl Exit_called))"

subsection \<open>Positions\<close>

definition wf_image :: "myppm \<Rightarrow> bool" where
  "wf_image P \<longleftrightarrow> 0 \<le> width P \<and> 0 \<le> height P \<and>
     length (pixel_map P) = nat (width P * height P) \<and> length (new_map P) = nat (width P * height P)"

text \<open>The pixel of row \<open>r\<close> and column \<open>c\<close> in a map.\<close>

definition px_at :: "myppm \<Rightarrow> RGB list \<Rightarrow> int \<Rightarrow> int \<Rightarrow> RGB" where
  "px_at P m r c = m ! nat (r * width P + c)"

definition on_image :: "myppm \<Rightarrow> int \<Rightarrow> int \<Rightarrow> bool" where
  "on_image P r c \<longleftrightarrow> 0 \<le> r \<and> r < height P \<and> 0 \<le> c \<and> c < width P"

text \<open>The pixels at a distance of at least \<open>m\<close> from the border.\<close>

definition inner :: "int \<Rightarrow> myppm \<Rightarrow> int \<Rightarrow> int \<Rightarrow> bool" where
  "inner m P r c \<longleftrightarrow> m \<le> r \<and> r < height P - m \<and> m \<le> c \<and> c < width P - m"

lemma index_bounds:
  assumes "on_image P r c"
  shows "0 \<le> r * width P + c" "r * width P + c < width P * height P"
proof -
  have "(r + 1) * width P \<le> height P * width P" using assms by (intro mult_right_mono) (auto simp: on_image_def)
  then show "0 \<le> r * width P + c" "r * width P + c < width P * height P"
    using assms by (auto simp: on_image_def algebra_simps)
qed

lemma index_inj:
  assumes "on_image P r c" and "on_image P r' c'" and "r * width P + c = r' * width P + c'"
  shows "r = r' \<and> c = c'"
proof -
  have "(r * width P + c) div width P = r" "(r' * width P + c') div width P = r'"
    using assms(1,2) by (auto simp: on_image_def div_pos_pos_trivial)
  with assms(3) show ?thesis by simp
qed

lemma odd_range:
  assumes "0 < sz" and "odd sz"
  shows "sz = 2 * conv_range sz + 1" and "0 \<le> conv_range sz"
  using assms by (auto simp: conv_range_def elim!: oddE)

lemma inner_on_image: "0 \<le> m \<Longrightarrow> inner m P r c \<Longrightarrow> on_image P r c"
  by (auto simp: inner_def on_image_def)

lemma inner_mono: "m \<le> m' \<Longrightarrow> inner m' P r c \<Longrightarrow> inner m P r c"
  by (auto simp: inner_def)

lemma window_set: "(xk, yk) \<in> set (window sz) \<longleftrightarrow> 0 \<le> xk \<and> xk < sz \<and> 0 \<le> yk \<and> yk < sz"
  by (auto simp: window_def image_iff Bex_def)

lemma window_in:
  assumes "0 < sz" and "odd sz" and "inner (conv_range sz) P r c" and "(xk, yk) \<in> set (window sz)"
  shows "on_image P (r - conv_range sz + xk) (c - conv_range sz + yk)"
  using odd_range [OF assms(1,2)] assms(3,4) unfolding inner_def on_image_def window_set by linarith

lemma visited_set: "(y, x) \<in> set (visited m P) \<longleftrightarrow> inner m P y x"
  by (auto simp: visited_def inner_def image_iff Bex_def)

lemma arr_get_px:
  "wf_image P \<Longrightarrow> on_image P r c \<Longrightarrow> arr_get (pixel_map P) (r * width P + c) = Inr (px_at P (pixel_map P) r c)"
  using index_bounds [of P r c] by (simp add: arr_get_def wf_image_def px_at_def)

lemma set_px_ok:
  "wf_image P \<Longrightarrow> on_image P x y \<Longrightarrow> set_px x y (r, g, b) P = Inr (P\<lparr>new_map := (new_map P)[nat (x * width P + y) :=
     \<lparr>red = word_of_int r, green = word_of_int g, blue = word_of_int b\<rparr>]\<rparr>)"
  using index_bounds [of P x y] by (simp add: set_px_def arr_set_def wf_image_def)

lemma px_at_frame: "px_at (P\<lparr>new_map := m\<rparr>) = px_at P" and on_image_frame: "on_image (P\<lparr>new_map := m\<rparr>) = on_image P"
  by (simp_all add: px_at_def on_image_def fun_eq_iff)

lemma px_at_update:
  assumes "wf_image P" and "on_image P r c" and "on_image P y x"
  shows "px_at P ((new_map P)[nat (y * width P + x) := v]) r c = (if (r, c) = (y, x) then v else px_at P (new_map P) r c)"
proof (cases "(r, c) = (y, x)")
  case True
  with index_bounds [OF assms(3)] assms(1) show ?thesis by (simp add: px_at_def wf_image_def)
next
  case False
  then have "r * width P + c \<noteq> y * width P + x" using index_inj [OF assms(2,3)] by blast
  with index_bounds [OF assms(2)] index_bounds [OF assms(3)] have "nat (y * width P + x) \<noteq> nat (r * width P + c)" by linarith
  with False show ?thesis by (auto simp: px_at_def)
qed

lemma px_at_eqI:
  assumes "wf_image P" and "length m = length (new_map P)" and "length m' = length (new_map P)"
    and "\<And>r c. on_image P r c \<Longrightarrow> px_at P m r c = px_at P m' r c"
  shows "m = m'"
proof (rule nth_equalityI)
  fix k
  assume "k < length m"
  then have k: "int k < width P * height P" using assms(1,2) by (auto simp: wf_image_def)
  then have w: "0 < width P" using assms(1) by (cases "width P = 0") (auto simp: wf_image_def)
  have "width P * (int k div width P) \<le> int k" using w mult_div_mod_eq [of "width P" "int k"] pos_mod_sign [of "width P" "int k"] by linarith
  then have "width P * (int k div width P) < width P * height P" using k by linarith
  then have "int k div width P < height P" using w by (simp add: mult_less_cancel_left_pos)
  with w have "on_image P (int k div width P) (int k mod width P)" by (simp add: on_image_def pos_imp_zdiv_nonneg_iff)
  from assms(4) [OF this] show "m ! k = m' ! k" by (simp add: px_at_def)
qed (use assms in simp)

subsection \<open>Filtering an image\<close>

text \<open>
  \<open>single k sz P r c\<close> computes one pixel, with further arguments \<open>k\<close> (a kernel, a hue map) that are suitable
  for the image when \<open>ok k sz P\<close>; \<open>val\<close> is the value it must store.
\<close>

locale pixel_filter =
  fixes ok :: "'k \<Rightarrow> int \<Rightarrow> myppm \<Rightarrow> bool"
    and single :: "'k \<Rightarrow> int \<Rightarrow> myppm \<Rightarrow> int \<Rightarrow> int \<Rightarrow> myppm c_result"
    and val :: "'k \<Rightarrow> int \<Rightarrow> myppm \<Rightarrow> int \<Rightarrow> int \<Rightarrow> RGB"
  assumes single: "0 < sz \<Longrightarrow> odd sz \<Longrightarrow> wf_image P \<Longrightarrow> ok k sz P \<Longrightarrow> inner (conv_range sz) P r c \<Longrightarrow>
      single k sz P r c = Inr (P\<lparr>new_map := (new_map P)[nat (r * width P + c) := val k sz P r c]\<rparr>)"
    and val_frame: "val k sz (P\<lparr>new_map := m\<rparr>) r c = val k sz P r c"
    and ok_frame: "ok k sz (P\<lparr>new_map := m\<rparr>) = ok k sz P"
begin

lemma each_pixel_spec:
  assumes "0 < sz" and "odd sz" and "wf_image P" and "ok k sz P" and "\<forall>(y, x)\<in>set ps. inner (conv_range sz) P y x"
  shows "\<exists>m. each_pixel (single k sz) ps P = Inr (P\<lparr>new_map := m\<rparr>) \<and> length m = length (new_map P) \<and>
    (\<forall>r c. on_image P r c \<longrightarrow> px_at P m r c = (if (r, c) \<in> set ps then val k sz P r c else px_at P (new_map P) r c))"
  using assms
proof (induction ps arbitrary: P)
  case Nil
  then show ?case by (intro exI [of _ "new_map P"]) simp
next
  case (Cons p ps)
  obtain y x where p: "p = (y, x)" by (cases p)
  have yx: "inner (conv_range sz) P y x" "on_image P y x"
    using Cons.prems inner_on_image [OF odd_range(2) [OF Cons.prems(1,2)]] by (auto simp: p)
  let ?m = "(new_map P)[nat (y * width P + x) := val k sz P y x]"
  let ?P = "P\<lparr>new_map := ?m\<rparr>"
  have step: "single k sz P y x = Inr ?P" using single Cons.prems yx by simp
  have "wf_image ?P" "ok k sz ?P" "\<forall>(y, x)\<in>set ps. inner (conv_range sz) ?P y x"
    using Cons.prems by (auto simp: wf_image_def ok_frame inner_def)
  from Cons.IH [OF Cons.prems(1,2) this] obtain m where
    m: "each_pixel (single k sz) ps ?P = Inr (P\<lparr>new_map := m\<rparr>)" "length m = length (new_map P)"
    "\<And>r c. on_image P r c \<Longrightarrow> px_at P m r c = (if (r, c) \<in> set ps then val k sz P r c else px_at P ?m r c)"
    by (auto simp: val_frame on_image_def px_at_def)
  have up: "px_at P ?m r c = (if (r, c) = (y, x) then val k sz P r c else px_at P (new_map P) r c)" if "on_image P r c" for r c
    using px_at_update [OF Cons.prems(3) that yx(2)] by simp
  show ?case using step m up by (intro exI [of _ m]) (auto simp: p)
qed

lemma whole_image:
  assumes "0 < sz" and "odd sz" and "wf_image P" and "ok k sz P" and "conv_range sz \<le> m"
  shows "\<exists>q. each_pixel (single k sz) (visited m P) P = Inr (P\<lparr>new_map := q\<rparr>) \<and> length q = length (new_map P) \<and>
    (\<forall>r c. on_image P r c \<longrightarrow> px_at P q r c = (if inner m P r c then val k sz P r c else px_at P (new_map P) r c))"
proof -
  have "\<forall>(y, x)\<in>set (visited m P). inner (conv_range sz) P y x"
    using inner_mono [OF assms(5)] by (auto simp: visited_set)
  from each_pixel_spec [OF assms(1-4) this] show ?thesis by (auto simp: visited_set)
qed

end

subsection \<open>Windows as folds\<close>

definition window_px :: "myppm \<Rightarrow> int \<Rightarrow> int \<Rightarrow> int \<Rightarrow> int \<times> int \<Rightarrow> RGB" where
  "window_px P sz r c k = px_at P (pixel_map P) (r - conv_range sz + fst k) (c - conv_range sz + snd k)"

lemma window_px_frame [simp]: "window_px (P\<lparr>new_map := m\<rparr>) = window_px P"
  by (simp add: window_px_def px_at_def fun_eq_iff)

lemma window_nonempty: "0 < sz \<Longrightarrow> window sz \<noteq> []"
  using window_set [of 0 0 sz] by (metis empty_iff empty_set order_refl)

lemma distinct_window: "distinct (window sz)"
proof -
  have "window sz = map prod.swap (List.product [0..sz - 1] [0..sz - 1])"
    by (simp add: window_def product_concat_map map_concat o_def)
  then show ?thesis by (simp add: distinct_map distinct_product)
qed

text \<open>A loop whose body does not fail on a readable pixel.\<close>

lemma window_loop_fold:
  assumes "wf_image P" and "\<forall>(i, j)\<in>set ks. on_image P (x0 + i) (y0 + j)"
    and "\<And>i j p acc. (i, j) \<in> set ks \<Longrightarrow> f (i * sz + j) (Inr p) acc = Inr (g (i * sz + j) p acc)"
  shows "window_loop f P sz x0 y0 ks acc =
    Inr (fold (\<lambda>k. g (fst k * sz + snd k) (px_at P (pixel_map P) (x0 + fst k) (y0 + snd k))) ks acc)"
  using assms(2,3)
proof (induction ks arbitrary: acc)
  case Nil
  then show ?case by simp
next
  case (Cons k ks)
  then show ?case by (cases k) (simp add: arr_get_px [OF assms(1)])
qed

definition erode_px :: "RGB \<Rightarrow> int \<times> int \<times> int \<Rightarrow> int \<times> int \<times> int" where
  "erode_px p acc = (case acc of (r, g, b) \<Rightarrow> (min (uint (red p)) r, min (uint (green p)) g, min (uint (blue p)) b))"

lemma erode_step_Inr: "erode_step k (Inr p) acc = Inr (erode_px p acc)"
  by (cases acc) (simp add: erode_step_def erode_px_def)

lemma fold_erode:
  "fold erode_px ps (r, g, b) =
     (fold min (map (uint \<circ> red) ps) r, fold min (map (uint \<circ> green) ps) g, fold min (map (uint \<circ> blue) ps) b)"
  by (induction ps arbitrary: r g b) (simp_all add: erode_px_def)

text \<open>The running minimum that starts at 255 is the least channel value.\<close>

lemma fold_min_byte:
  fixes f :: "'a \<Rightarrow> byte"
  assumes "ps \<noteq> []"
  shows "word_of_int (fold min (map (uint \<circ> f) ps) 255) = Min (f ` set ps)"
proof -
  let ?A = "f ` set ps"
  have A: "finite ?A" "?A \<noteq> {}" using assms by auto
  have "fold min (map (uint \<circ> f) ps) 255 = Min (set (255 # map (uint \<circ> f) ps))" by (rule Min.set_eq_fold [symmetric])
  also have "\<dots> = Min (insert 255 (uint ` ?A))" by (simp add: image_comp)
  also have "\<dots> = min 255 (Min (uint ` ?A))" using A by (intro Min.insert) auto
  also have "Min (uint ` ?A) = uint (Min ?A)" using A
    by (intro mono_Min_commute [symmetric] monoI) (simp_all add: word_le_def)
  also have "min 255 (uint (Min ?A)) = uint (Min ?A)"
    using uint_lt2p [of "Min ?A"] by simp
  finally show ?thesis by (simp only: word_of_int_uint)
qed

definition px_min :: "RGB set \<Rightarrow> RGB" where
  "px_min S = \<lparr>red = Min (red ` S), green = Min (green ` S), blue = Min (blue ` S)\<rparr>"

lemma fold_erode_px_min:
  assumes "ps \<noteq> []" and "fold erode_px ps (255, 255, 255) = (r, g, b)"
  shows "\<lparr>red = word_of_int r, green = word_of_int g, blue = word_of_int b\<rparr> = px_min (set ps)"
  using assms fold_min_byte [OF assms(1), of red] fold_min_byte [OF assms(1), of green] fold_min_byte [OF assms(1), of blue]
  by (auto simp: fold_erode px_min_def)

subsection \<open>Erosion\<close>

definition eroded :: "unit \<Rightarrow> int \<Rightarrow> myppm \<Rightarrow> int \<Rightarrow> int \<Rightarrow> RGB" where
  "eroded u sz P r c = px_min (window_px P sz r c ` set (window sz))"

lemma erode_single:
  assumes "0 < sz" and "odd sz" and "wf_image P" and "inner (conv_range sz) P r c"
  shows "morphological_single_pixel sz P r c = Inr (P\<lparr>new_map := (new_map P)[nat (r * width P + c) := eroded () sz P r c]\<rparr>)"
proof -
  let ?ps = "map (window_px P sz r c) (window sz)"
  obtain a b d where acc: "fold erode_px ?ps (255, 255, 255) = (a, b, d)" by (cases "fold erode_px ?ps (255, 255, 255)")
  have "window_loop erode_step P sz (r - conv_range sz) (c - conv_range sz) (window sz) (255, 255, 255) = Inr (a, b, d)"
    using acc window_in [OF assms(1,2,4)] assms(3)
    by (subst window_loop_fold [where g = "\<lambda>k. erode_px"])
      (auto simp: erode_step_Inr fold_map o_def window_px_def)
  moreover have "\<lparr>red = word_of_int a, green = word_of_int b, blue = word_of_int d\<rparr> = eroded () sz P r c"
    using fold_erode_px_min [OF _ acc] window_nonempty [OF assms(1)] by (simp add: eroded_def)
  moreover have "on_image P r c" using inner_on_image [OF odd_range(2) [OF assms(1,2)] assms(4)] .
  ultimately show ?thesis using assms(3) by (simp add: morphological_single_pixel_def set_px_ok)
qed

interpretation erosion: pixel_filter "\<lambda>u sz P. True" "\<lambda>u. morphological_single_pixel" eroded
  by unfold_locales (simp_all add: erode_single eroded_def)

definition neighbours :: "myppm \<Rightarrow> int \<Rightarrow> int \<Rightarrow> int \<Rightarrow> RGB set" where
  "neighbours P n r c = {px_at P (pixel_map P) r' c' | r' c'. \<bar>r' - r\<bar> \<le> n \<and> \<bar>c' - c\<bar> \<le> n}"

lemma window_neighbours:
  assumes "0 < sz" and "odd sz"
  shows "window_px P sz r c ` set (window sz) = neighbours P (conv_range sz) r c" (is "?A = ?B")
proof
  show "?A \<subseteq> ?B" using odd_range [OF assms] by (fastforce simp: window_px_def window_set neighbours_def)
  show "?B \<subseteq> ?A"
  proof
    fix p
    assume "p \<in> ?B"
    then obtain r' c' where p: "p = px_at P (pixel_map P) r' c'" "\<bar>r' - r\<bar> \<le> conv_range sz" "\<bar>c' - c\<bar> \<le> conv_range sz"
      by (auto simp: neighbours_def)
    let ?k = "(r' - r + conv_range sz, c' - c + conv_range sz)"
    have "?k \<in> set (window sz)" "p = window_px P sz r c ?k" using p odd_range [OF assms] by (auto simp: window_set window_px_def)
    then show "p \<in> ?A" by blast
  qed
qed

definition demo_img :: myppm where
  "demo_img = \<lparr>width = 3, height = 3, RGB_range = 255, pixel_map = map demo_px [9, 8, 7, 6, 200, 6, 7, 8, 9],
     new_map = map demo_px [9, 8, 7, 6, 200, 6, 7, 8, 9]\<rparr>"

lemma demo_img_wf: "wf_image demo_img" and demo_img_inner: "inner 1 demo_img 1 1"
  by (simp_all add: demo_img_def wf_image_def inner_def)

lemma conv_range_3 [simp]: "conv_range 3 = 1"
  by (simp add: conv_range_def)

text \<open>Claim C27: \<open>dilation\<close> with a window of odd size computes an erosion: it never accesses a pixel outside of the
  image, leaves \<open>pixel_map\<close> and the pixels near the border as they are, and stores in every other pixel, channel by channel,
  the minimum over the pixels of the original image in the square around it.\<close>

theorem dilation_erodes:
  assumes "0 < sz" and "odd sz" and "wf_image P"
  shows "\<exists>q. dilation sz P = Inr (P\<lparr>new_map := q\<rparr>) \<and> length q = length (new_map P) \<and>
    (\<forall>r c. on_image P r c \<longrightarrow> px_at P q r c =
      (if inner (conv_range sz) P r c then px_min (neighbours P (conv_range sz) r c) else px_at P (new_map P) r c))"
proof -
  have "eroded () sz P r c = px_min (neighbours P (conv_range sz) r c)" for r c
    by (simp add: eroded_def window_neighbours [OF assms(1,2)])
  then show ?thesis
    using erosion.whole_image [OF assms TrueI order_refl, of "()"] unfolding dilation_def by (simp only:)
qed

theorem dilation_erodes_witness:
  "\<exists>q. dilation 3 demo_img = Inr (demo_img\<lparr>new_map := q\<rparr>) \<and> px_at demo_img q 1 1 = px_min (neighbours demo_img 1 1 1)"
proof -
  have "on_image demo_img 1 1" by (simp add: demo_img_def on_image_def)
  then show ?thesis using dilation_erodes [of 3 demo_img] demo_img_wf demo_img_inner by auto
qed

subsection \<open>Convolution\<close>

lemma idx_bounds: "0 \<le> i \<Longrightarrow> i < sz \<Longrightarrow> 0 \<le> j \<Longrightarrow> j < sz \<Longrightarrow> 0 \<le> i * sz + j \<and> i * sz + j < sz * (sz::int)"
proof -
  assume a: "0 \<le> i" "i < sz" "0 \<le> j" "j < sz"
  then have "(i + 1) * sz \<le> sz * sz" by (intro mult_right_mono) auto
  with a show ?thesis by (auto simp: algebra_simps)
qed

lemma idx_inj:
  assumes "(i, j) \<in> set (window sz)" and "(i', j') \<in> set (window sz)" and "nat (i * sz + j) = nat (i' * sz + j')"
  shows "i = i' \<and> j = j'"
proof -
  have "0 \<le> i * sz + j" "0 \<le> i' * sz + j'" using assms(1,2) idx_bounds by (simp_all add: window_set)
  with assms(3) have eq: "i * sz + j = i' * sz + j'" by linarith
  have "(i * sz + j) div sz = i" "(i' * sz + j') div sz = i'"
    using assms(1,2) by (auto simp: window_set div_pos_pos_trivial)
  with eq show ?thesis by simp
qed

definition kern_at :: "int list \<Rightarrow> int \<Rightarrow> int \<times> int \<Rightarrow> int" where
  "kern_at kern sz k = kern ! nat (fst k * sz + snd k)"

lemma kern_weight:
  assumes "length kern = nat (sz * sz)"
  shows "(\<Sum>k\<leftarrow>window sz. \<bar>kern_at kern sz k\<bar>) \<le> (\<Sum>w\<leftarrow>kern. \<bar>w\<bar>)"
proof -
  let ?f = "\<lambda>k. nat (fst k * sz + snd k)"
  have inj: "inj_on ?f (set (window sz))" using idx_inj by (auto simp: inj_on_def)
  have sub: "?f ` set (window sz) \<subseteq> {0..<length kern}"
    using idx_bounds assms by (auto simp: window_set nat_less_iff)
  have "(\<Sum>k\<leftarrow>window sz. \<bar>kern_at kern sz k\<bar>) = (\<Sum>k\<in>set (window sz). \<bar>kern ! ?f k\<bar>)"
    by (simp add: sum.distinct_set_conv_list distinct_window kern_at_def)
  also have "\<dots> = (\<Sum>n\<in>?f ` set (window sz). \<bar>kern ! n\<bar>)" by (simp add: sum.reindex [OF inj])
  also have "\<dots> \<le> (\<Sum>n\<in>{0..<length kern}. \<bar>kern ! n\<bar>)" using sub by (intro sum_mono2) auto
  also have "\<dots> = (\<Sum>w\<leftarrow>kern. \<bar>w\<bar>)" by (simp add: sum_list_sum_nth)
  finally show ?thesis .
qed

lemma mac_Inr:
  assumes "\<bar>acc\<bar> + 255 * \<bar>w\<bar> \<le> INT_MAX"
  shows "mac acc p w = Inr (acc + uint p * w)" and "\<bar>acc + uint p * w\<bar> \<le> \<bar>acc\<bar> + 255 * \<bar>w\<bar>"
proof -
  have "uint p \<le> 255" using uint_lt2p [of p] by simp
  then have m: "\<bar>uint p * w\<bar> \<le> 255 * \<bar>w\<bar>" by (simp add: abs_mult mult_right_mono)
  then show "\<bar>acc + uint p * w\<bar> \<le> \<bar>acc\<bar> + 255 * \<bar>w\<bar>" by linarith
  with m assms show "mac acc p w = Inr (acc + uint p * w)" by (auto simp: mac_def in_int_def)
qed

lemma conv_loop:
  assumes "wf_image P" and "length kern = nat (sz * sz)" and "set ks \<subseteq> set (window sz)"
    and "\<forall>k\<in>set ks. on_image P (x0 + fst k) (y0 + snd k)"
    and "\<bar>r\<bar> + 255 * (\<Sum>k\<leftarrow>ks. \<bar>kern_at kern sz k\<bar>) \<le> INT_MAX"
    and "\<bar>g\<bar> + 255 * (\<Sum>k\<leftarrow>ks. \<bar>kern_at kern sz k\<bar>) \<le> INT_MAX"
    and "\<bar>b\<bar> + 255 * (\<Sum>k\<leftarrow>ks. \<bar>kern_at kern sz k\<bar>) \<le> INT_MAX"
  defines "px \<equiv> \<lambda>k. px_at P (pixel_map P) (x0 + fst k) (y0 + snd k)"
  shows "window_loop (conv_step kern) P sz x0 y0 ks (r, g, b) =
    Inr (r + (\<Sum>k\<leftarrow>ks. uint (red (px k)) * kern_at kern sz k), g + (\<Sum>k\<leftarrow>ks. uint (green (px k)) * kern_at kern sz k),
      b + (\<Sum>k\<leftarrow>ks. uint (blue (px k)) * kern_at kern sz k))"
  using assms(3-7)
proof (induction ks arbitrary: r g b)
  case Nil
  then show ?case by simp
next
  case (Cons k ks)
  let ?w = "kern_at kern sz k" and ?S = "\<Sum>k\<leftarrow>ks. \<bar>kern_at kern sz k\<bar>"
  have S: "0 \<le> ?S" by (rule sum_list_nonneg) auto
  have step: "\<bar>a\<bar> + 255 * \<bar>?w\<bar> \<le> INT_MAX" "mac a p ?w = Inr (a + uint p * ?w)" "\<bar>a + uint p * ?w\<bar> + 255 * ?S \<le> INT_MAX"
    if "\<bar>a\<bar> + 255 * (\<Sum>k\<leftarrow>k # ks. \<bar>kern_at kern sz k\<bar>) \<le> INT_MAX" for a p
  proof -
    from that S show b: "\<bar>a\<bar> + 255 * \<bar>?w\<bar> \<le> INT_MAX" by simp
    show "mac a p ?w = Inr (a + uint p * ?w)" by (rule mac_Inr(1) [OF b])
    from mac_Inr(2) [OF b, of p] that show "\<bar>a + uint p * ?w\<bar> + 255 * ?S \<le> INT_MAX" by simp
  qed
  have get: "arr_get kern (fst k * sz + snd k) = Inr ?w"
    using Cons.prems(1) idx_bounds [of "fst k" sz "snd k"] assms(2)
    by (cases k) (simp add: window_set arr_get_def kern_at_def)
  show ?case using Cons.prems Cons.IH step get
    by (cases k) (simp add: conv_step_def arr_get_px [OF assms(1)] px_def add.assoc)
qed


text \<open>The weighted sum of a channel over the window of a pixel.\<close>

definition conv_sum :: "int list \<Rightarrow> int \<Rightarrow> myppm \<Rightarrow> int \<Rightarrow> int \<Rightarrow> (RGB \<Rightarrow> byte) \<Rightarrow> int" where
  "conv_sum kern sz P r c ch = (\<Sum>(i, j)\<in>{0..sz - 1} \<times> {0..sz - 1}.
     uint (ch (px_at P (pixel_map P) (r - conv_range sz + i) (c - conv_range sz + j))) * kern ! nat (i * sz + j))"

definition convolved :: "(int \<Rightarrow> int) \<times> int list \<Rightarrow> int \<Rightarrow> myppm \<Rightarrow> int \<Rightarrow> int \<Rightarrow> RGB" where
  "convolved k sz P r c = (let v = \<lambda>ch. word_of_int (fst k (conv_sum (snd k) sz P r c ch)) in \<lparr>red = v red, green = v green, blue = v blue\<rparr>)"

text \<open>A kernel of the right size whose sums cannot leave the range of \<open>int\<close>.\<close>

definition kernel_ok :: "int list \<Rightarrow> int \<Rightarrow> bool" where
  "kernel_ok kern sz \<longleftrightarrow> length kern = nat (sz * sz) \<and> 255 * (\<Sum>w\<leftarrow>kern. \<bar>w\<bar>) \<le> INT_MAX"

lemma conv_sum_window:
  "(\<Sum>k\<leftarrow>window sz. uint (ch (window_px P sz r c k)) * kern_at kern sz k) = conv_sum kern sz P r c ch"
proof -
  have "set (window sz) = {0..sz - 1} \<times> {0..sz - 1}" by (auto simp: window_set)
  then show ?thesis
    by (simp add: sum.distinct_set_conv_list [symmetric] distinct_window conv_sum_def window_px_def kern_at_def case_prod_beta)
qed

lemma conv_window:
  assumes "0 < sz" and "odd sz" and "wf_image P" and "kernel_ok kern sz" and "inner (conv_range sz) P r c"
  shows "window_loop (conv_step kern) P sz (r - conv_range sz) (c - conv_range sz) (window sz) (0, 0, 0) =
    Inr (conv_sum kern sz P r c red, conv_sum kern sz P r c green, conv_sum kern sz P r c blue)"
proof -
  have len: "length kern = nat (sz * sz)" and w: "255 * (\<Sum>k\<leftarrow>window sz. \<bar>kern_at kern sz k\<bar>) \<le> INT_MAX"
    using assms(4) kern_weight [of kern sz] by (auto simp: kernel_ok_def)
  have "\<forall>k\<in>set (window sz). on_image P (r - conv_range sz + fst k) (c - conv_range sz + snd k)"
    using window_in [OF assms(1,2,5)] by auto
  from conv_loop [OF assms(3) len order_refl this, of 0 0 0] w show ?thesis
    by (simp add: conv_sum_window [unfolded window_px_def])
qed

definition conv_filter :: "(int \<Rightarrow> int) \<times> int list \<Rightarrow> int \<Rightarrow> myppm \<Rightarrow> int \<Rightarrow> int \<Rightarrow> myppm c_result" where
  "conv_filter k sz P r c =
     c_bind (window_loop (conv_step (snd k)) P sz (r - conv_range sz) (c - conv_range sz) (window sz) (0, 0, 0))
       (\<lambda>(x, y, z). set_px r c (fst k x, fst k y, fst k z) P)"

interpretation convolution: pixel_filter "\<lambda>k sz P. kernel_ok (snd k) sz" conv_filter convolved
proof
  fix sz P r c and k :: "(int \<Rightarrow> int) \<times> int list"
  assume a: "0 < sz" "odd sz" "wf_image P" "kernel_ok (snd k) sz" "inner (conv_range sz) P r c"
  have "on_image P r c" using inner_on_image [OF odd_range(2) [OF a(1,2)] a(5)] .
  then show "conv_filter k sz P r c = Inr (P\<lparr>new_map := (new_map P)[nat (r * width P + c) := convolved k sz P r c]\<rparr>)"
    using a by (simp add: conv_filter_def conv_window set_px_ok convolved_def Let_def)
qed (simp_all add: convolved_def conv_sum_def px_at_def)

lemma conv_image:
  assumes "0 < sz" and "odd sz" and "wf_image P" and "kernel_ok kern sz"
  shows "\<exists>q. conv_blur rnd (Some kern) sz factor bias P = Inr (P\<lparr>new_map := q\<rparr>) \<and> length q = length (new_map P) \<and>
    (\<forall>r c. on_image P r c \<longrightarrow> px_at P q r c =
      (if inner (conv_range sz) P r c then convolved (scale rnd factor bias, kern) sz P r c else px_at P (new_map P) r c))"
proof -
  have "conv_filter (scale rnd factor bias, kern) sz = conv_single_pixel rnd kern sz factor bias"
    by (simp add: conv_filter_def conv_single_pixel_def fun_eq_iff)
  with convolution.whole_image [of sz P "(scale rnd factor bias, kern)", OF _ _ _ _ order_refl] assms show ?thesis
    by (simp add: conv_blur_def)
qed


text \<open>Claim C28: \<open>conv_blur\<close> with a kernel of matching odd size whose weights cannot overflow an \<open>int\<close> computes the convolution: no
  access is out of bounds and no sum overflows, \<open>pixel_map\<close> and the pixels near the border stay as they are, and every other
  pixel gets, channel by channel, the scaled weighted sum of the original pixels around it. Without a kernel nothing changes.\<close>

theorem conv_blur_spec:
  assumes "0 < sz" and "odd sz" and "wf_image P" and "kernel_ok kern sz"
  shows "conv_blur rnd None sz factor bias P = Inr P \<and>
    (\<exists>q. conv_blur rnd (Some kern) sz factor bias P = Inr (P\<lparr>new_map := q\<rparr>) \<and> length q = length (new_map P) \<and>
    (\<forall>r c. on_image P r c \<longrightarrow> px_at P q r c =
      (if inner (conv_range sz) P r c then convolved (scale rnd factor bias, kern) sz P r c else px_at P (new_map P) r c)))"
  using conv_image [OF assms] by (simp add: conv_blur_def)

theorem conv_blur_spec_witness:
  "\<exists>q. conv_blur (\<lambda>x. x) (Some [-1, -1, 0, -1, 0, 1, 0, 1, 1]) 3 (1 / 9) 128 demo_img = Inr (demo_img\<lparr>new_map := q\<rparr>) \<and>
     px_at demo_img q 1 1 = convolved (scale (\<lambda>x. x) (1 / 9) 128, [-1, -1, 0, -1, 0, 1, 0, 1, 1]) 3 demo_img 1 1"
proof -
  have "on_image demo_img 1 1" "kernel_ok [-1, -1, 0, -1, 0, 1, 0, 1, 1] 3"
    by (simp_all add: demo_img_def on_image_def kernel_ok_def INT_MAX_def)
  then show ?thesis
    using conv_blur_spec [of 3 demo_img "[-1, -1, 0, -1, 0, 1, 0, 1, 1]" "\<lambda>x. x" "1 / 9" 128] demo_img_wf demo_img_inner by auto
qed

definition identity_kernel :: "int \<Rightarrow> int list" where
  "identity_kernel sz = (replicate (nat (sz * sz)) 0)[nat (conv_range sz * sz + conv_range sz) := 1]"

lemma identity_sum:
  assumes "0 < sz" and "odd sz"
  shows "conv_sum (identity_kernel sz) sz P r c ch = uint (ch (px_at P (pixel_map P) r c))"
proof -
  let ?n = "conv_range sz" and ?W = "{0..sz - 1} \<times> {0..sz - 1}"
  have n: "(?n, ?n) \<in> ?W" using odd_range [OF assms] by auto
  then have b: "nat (?n * sz + ?n) < nat (sz * sz)" using idx_bounds [of ?n sz ?n] by auto
  have "identity_kernel sz ! nat (i * sz + j) = (if (i, j) = (?n, ?n) then 1 else 0)" if "(i, j) \<in> ?W" for i j
  proof -
    have "nat (i * sz + j) < nat (sz * sz)" using that n idx_bounds [of i sz j] by auto
    then show ?thesis using that n b idx_inj [of i j sz ?n ?n] by (auto simp: identity_kernel_def nth_list_update window_set)
  qed
  then have "conv_sum (identity_kernel sz) sz P r c ch =
      (\<Sum>k\<in>?W. if k = (?n, ?n) then uint (ch (px_at P (pixel_map P) (r - ?n + fst k) (c - ?n + snd k))) else 0)"
    unfolding conv_sum_def by (intro sum.cong) (auto split: if_splits)
  then show ?thesis using n by (simp add: sum.delta')
qed

lemma sum_unit_vector: "k < n \<Longrightarrow> (\<Sum>w\<leftarrow>(replicate n 0)[k := 1]. \<bar>w\<bar>) = (1 :: int)"
  by (induction n arbitrary: k) (auto simp: sum_list_replicate split: nat.splits)

lemma identity_kernel_ok:
  assumes "0 < sz" and "odd sz"
  shows "kernel_ok (identity_kernel sz) sz"
proof -
  have "nat (conv_range sz * sz + conv_range sz) < nat (sz * sz)"
    using odd_range [OF assms] idx_bounds [of "conv_range sz" sz "conv_range sz"] assms by auto
  then have "(\<Sum>w\<leftarrow>identity_kernel sz. \<bar>w\<bar>) = 1"
    unfolding identity_kernel_def by (rule sum_unit_vector)
  then show ?thesis by (simp add: kernel_ok_def identity_kernel_def INT_MAX_def)
qed

text \<open>Doubles represent the integers up to 2 to the 53rd.\<close>

definition exact_ints :: "(rat \<Rightarrow> rat) \<Rightarrow> bool" where
  "exact_ints rnd \<longleftrightarrow> (\<forall>n. \<bar>n\<bar> \<le> 2 ^ 53 \<longrightarrow> rnd (of_int n) = of_int n)"

lemma scale_unit:
  assumes "exact_ints rnd" and "0 \<le> v" and "v \<le> 255"
  shows "scale rnd 1 0 v = (if v < 128 then v else v - 255)"
proof -
  have r: "rnd (of_int v) = of_int v" using assms by (simp add: exact_ints_def)
  have "rint (of_int v / 255) = (if v < 128 then 0 else 1)"
  proof (cases "v = 255")
    case False
    then have "\<lfloor>of_int v / (255::rat)\<rfloor> = 0" using assms by (simp add: floor_eq_iff)
    then show ?thesis by (auto simp: rint_def Let_def field_simps)
  qed (simp add: rint_def)
  then show ?thesis by (simp add: scale_def r remainder_def trunc_def)
qed

text \<open>The identity kernel with factor 1 and bias 0 is not the identity. The signed remainder sends the values above 127 to
  negative numbers modulo 255, which the conversion to a byte takes modulo 256: a channel of at least 128 grows by one, and
  full brightness turns to zero. (Stated for the red channel; doubles represent the integers exactly.)\<close>

theorem identity_kernel_shifts_bright:
  assumes "exact_ints rnd" and "0 < sz" and "odd sz" and "wf_image P"
  shows "\<exists>q. conv_blur rnd (Some (identity_kernel sz)) sz 1 0 P = Inr (P\<lparr>new_map := q\<rparr>) \<and>
    (\<forall>r c. inner (conv_range sz) P r c \<longrightarrow>
       (let v = red (px_at P (pixel_map P) r c) in red (px_at P q r c) = (if v < 128 then v else v + 1)))"
proof -
  have "word_of_int (scale rnd 1 0 (uint v)) = (if v < 128 then v else v + 1)" for v :: byte
  proof -
    have "uint v \<le> 255" using uint_lt2p [of v] by simp
    moreover have "word_of_int (uint v - 255) = v + 1" by (simp add: diff_eq_eq)
    ultimately show ?thesis by (simp add: scale_unit [OF assms(1)] word_less_def)
  qed
  with conv_image [OF assms(2-4) identity_kernel_ok [OF assms(2,3)], of rnd 1 0] inner_on_image [OF odd_range(2) [OF assms(2,3)]]
  show ?thesis by (force simp: convolved_def Let_def identity_sum [OF assms(2,3)])
qed

theorem identity_kernel_shifts_bright_witness:
  "\<exists>q. conv_blur (\<lambda>x. x) (Some (identity_kernel 3)) 3 1 0 demo_img = Inr (demo_img\<lparr>new_map := q\<rparr>) \<and> red (px_at demo_img q 1 1) = 201"
proof -
  have "red (px_at demo_img (pixel_map demo_img) 1 1) = 200" by (simp add: demo_img_def px_at_def demo_px_def)
  then show ?thesis
    using identity_kernel_shifts_bright [of "\<lambda>x. x" 3 demo_img] demo_img_wf demo_img_inner by (force simp: exact_ints_def)
qed

subsection \<open>The modes of the program\<close>

lemma erosion_image:
  assumes "0 < sz" and "odd sz" and "wf_image P"
  shows "\<exists>q. dilation sz P = Inr (P\<lparr>new_map := q\<rparr>) \<and> length q = length (new_map P) \<and>
    (\<forall>r c. on_image P r c \<longrightarrow> px_at P q r c =
      (if inner (conv_range sz) P r c then eroded () sz P r c else px_at P (new_map P) r c))"
  using erosion.whole_image [OF assms TrueI order_refl, of "()"] unfolding dilation_def by (simp only:)

text \<open>What the modes share: the size and the outermost pixels stay.\<close>

definition framed :: "myppm \<Rightarrow> myppm c_result \<Rightarrow> bool" where
  "framed P res \<longleftrightarrow> (\<exists>q. res = Inr (P\<lparr>new_map := q\<rparr>) \<and> length q = length (new_map P) \<and>
     (\<forall>r c. on_image P r c \<and> \<not> inner 1 P r c \<longrightarrow> px_at P q r c = px_at P (new_map P) r c))"

lemma framedI:
  assumes "\<exists>q. res = Inr (P\<lparr>new_map := q\<rparr>) \<and> length q = length (new_map P) \<and>
    (\<forall>r c. on_image P r c \<longrightarrow> px_at P q r c = (if inner m P r c then v r c else px_at P (new_map P) r c))" and "1 \<le> m"
  shows "framed P res"
  using assms(1) inner_mono [OF assms(2)] unfolding framed_def by (elim ex_forward) auto

text \<open>Claim C23: pr04 runs safely in each of its modes. On a well-formed file it neither leaves the pixel arrays nor overflows, whatever
  the size of the image; the image it shows has the same size and the same outermost pixels as the file.\<close>

theorem pr04_modes_safe:
  assumes "rows_ok n rng rows" and "fs name = Some (ppm_file [] [] [] n rng rows)"
    and "mode \<in> {lit ''convolution'', lit ''emboss'', lit ''motion'', lit ''erosion''}"
  shows "framed \<lparr>width = int n, height = int (length rows), RGB_range = int rng, pixel_map = concat (rev rows), new_map = concat (rev rows)\<rparr>
    (pr04_main rnd junk fs [prog, mode, name])" (is "framed ?P _")
proof -
  have wf: "wf_image ?P" using rows_ok_length [OF assms(1)] by (simp add: wf_image_def nat_mult_distrib)
  have cr: "conv_range 5 = 2" "conv_range 9 = 4" by (simp_all add: conv_range_def)
  have k: "kernel_ok (replicate 25 1) 5" "kernel_ok [-1,-1,0,-1,0,1,0,1,1] 3" "kernel_ok motion_kernel 9"
    by (simp_all add: kernel_ok_def INT_MAX_def motion_kernel_def sum_list_replicate)
  have conv: "framed ?P (conv_blur rnd (Some kern) sz f b ?P)" if "kernel_ok kern sz" "0 < sz" "odd sz" "1 \<le> conv_range sz" for kern sz f b
    by (rule framedI [OF conv_image [OF that(2,3) wf that(1)] that(4)])
  have "framed ?P (conv_blur rnd (Some (replicate 25 1)) 5 (rnd (1 / 25)) 255 ?P)"
    "framed ?P (conv_blur rnd (Some [-1,-1,0,-1,0,1,0,1,1]) 3 (rnd (1 / 9)) 128 ?P)"
    "framed ?P (conv_blur rnd (Some motion_kernel) 9 (rnd (1 / 41)) 0 ?P)" "framed ?P (dilation 9 ?P)"
    using conv [OF k(1)] conv [OF k(2)] conv [OF k(3)] framedI [OF erosion_image [OF _ _ wf, of 9]] by (simp_all only: cr conv_range_3) simp_all
  moreover have "pr04_main rnd junk fs [prog, mode, name] \<in>
      {conv_blur rnd (Some (replicate 25 1)) 5 (rnd (1 / 25)) 255 ?P, conv_blur rnd (Some [-1,-1,0,-1,0,1,0,1,1]) 3 (rnd (1 / 9)) 128 ?P,
       conv_blur rnd (Some motion_kernel) 9 (rnd (1 / 41)) 0 ?P, dilation 9 ?P}"
    using assms(3) by (auto simp: pr04_main_def assms(2) ppm_init_plain [OF assms(1)])
  ultimately show ?thesis by (elim insertE emptyE) simp_all
qed

theorem pr04_modes_safe_witness:
  "framed \<lparr>width = 2, height = 2, RGB_range = 255, pixel_map = [demo_px 3, demo_px 4, demo_px 1, demo_px 2],
      new_map = [demo_px 3, demo_px 4, demo_px 1, demo_px 2]\<rparr>
    (pr04_main (\<lambda>x. x) (\<lambda>_. demo_px 0) (\<lambda>_. Some (ppm_file [] [] [] 2 255 [[demo_px 1, demo_px 2], [demo_px 3, demo_px 4]]))
       [lit ''pr04'', lit ''emboss'', lit ''a''])"
proof -
  have "rows_ok 2 255 [[demo_px 1, demo_px 2], [demo_px 3, demo_px 4]]" by (simp add: rows_ok_def INT_MAX_def demo_px_def)
  from pr04_modes_safe [OF this, of "\<lambda>_. Some (ppm_file [] [] [] 2 255 [[demo_px 1, demo_px 2], [demo_px 3, demo_px 4]])" "lit ''a''"
      "lit ''emboss''" "\<lambda>x. x" "\<lambda>_. demo_px 0" "lit ''pr04''"]
  show ?thesis by simp
qed

end
