(* ===== verification/Ppm_Hue.thy ===== *)
theory Ppm_Hue
  imports Ppm_Filter
begin

section \<open>Filters along lines chosen by a hue (CSCE646/pr05)\<close>

text \<open>
  pr05 reads a second image as a map of hues and filters every pixel of the first along a line whose
  direction depends on the hue at that place: the kernel is one of eight lines through the centre of a 9 by 9
  window. The eight kernels occur twice in the source, in \<open>conv_blur\<close> and in \<open>dilation\<close>. Their entries are
  small integers stored as \<open>double\<close>, so that the sums of \<open>conv_single_pixel\<close> are those of pr04.
\<close>

subsection \<open>Hues\<close>

definition get_hue :: "(rat \<Rightarrow> rat) \<Rightarrow> int \<Rightarrow> int \<Rightarrow> int \<Rightarrow> rat" where
  "get_hue rnd r g b =
     (let RED = rnd (of_int r / 255); GREEN = rnd (of_int g / 255); BLUE = rnd (of_int b / 255);
          mx = max RED (max GREEN BLUE);
          mn = min RED (min GREEN BLUE)
      in if mx = 0 then 0
         else
           let delta = rnd (mx - mn)
           in if delta = 0 then 0
              else
                let h1 = (if RED = mx then rnd (rnd (GREEN - BLUE) / delta)
                          else if GREEN = mx then rnd (2 + rnd (rnd (BLUE - RED) / delta))
                          else rnd (4 + rnd (rnd (RED - GREEN) / delta)));
                    h2 = rnd (h1 * 60)
                in if h2 < 0 then rnd (h2 + 360) else h2)"

text \<open>The bytes of a pixel are read into an array of \<open>char\<close>, which is signed.\<close>

definition hue_of :: "(rat \<Rightarrow> rat) \<Rightarrow> RGB \<Rightarrow> rat" where
  "hue_of rnd colors = get_hue rnd (sint (red colors)) (sint (green colors)) (sint (blue colors))"

record hsv_ppm =
  hsv_width :: int
  hsv_height :: int
  hsv_range :: int
  hue_map :: "rat list"

definition ppm_init_hsv :: "(rat \<Rightarrow> rat) \<Rightarrow> (nat \<Rightarrow> rat) \<Rightarrow> int \<Rightarrow> byte list option \<Rightarrow> hsv_ppm c_result" where
  "ppm_init_hsv rnd junk height0 file =
     c_bind (read_header height0 file) (\<lambda>(w, h, range, s).
     c_bind (read_map (hue_of rnd) (pixel_order w h) s (map junk [0..<nat (w * h)])) (\<lambda>m.
     Inr \<lparr>hsv_width = w, hsv_height = h, hsv_range = range, hue_map = m\<rparr>))"

subsection \<open>Kernels\<close>

definition kernel0 :: "int list" where
  "kernel0 = [
    0,0,0,0,0,0,0,0,0,
    0,0,0,0,0,0,0,0,0,
    0,0,0,0,0,0,0,0,0,
    0,0,0,0,0,0,0,0,0,
    1,1,1,1,1,1,1,1,1,
    0,0,0,0,0,0,0,0,0,
    0,0,0,0,0,0,0,0,0,
    0,0,0,0,0,0,0,0,0,
    0,0,0,0,0,0,0,0,0]"

definition kernel1 :: "int list" where
  "kernel1 = [
    0,0,0,0,0,0,0,0,0,
    0,0,0,0,0,0,0,0,0,
    0,0,0,0,0,0,0,0,2,
    0,0,0,0,0,0,2,0,0,
    0,0,0,0,1,0,0,0,0,
    0,0,2,0,0,0,0,0,0,
    2,0,0,0,0,0,0,0,0,
    0,0,0,0,0,0,0,0,0,
    0,0,0,0,0,0,0,0,0]"

definition kernel2 :: "int list" where
  "kernel2 = [
    0,0,0,0,0,0,0,0,1,
    0,0,0,0,0,0,0,1,0,
    0,0,0,0,0,0,1,0,0,
    0,0,0,0,0,1,0,0,0,
    0,0,0,0,1,0,0,0,0,
    0,0,0,1,0,0,0,0,0,
    0,0,1,0,0,0,0,0,0,
    0,1,0,0,0,0,0,0,0,
    1,0,0,0,0,0,0,0,0]"

definition kernel3 :: "int list" where
  "kernel3 = [
    0,0,0,0,0,0,2,0,0,
    0,0,0,0,0,0,0,0,0,
    0,0,0,0,0,2,0,0,0,
    0,0,0,0,0,0,0,0,0,
    0,0,0,0,1,0,0,0,0,
    0,0,0,0,0,0,0,0,0,
    0,0,0,2,0,0,0,0,0,
    0,0,0,0,0,0,0,0,0,
    0,0,2,0,0,0,0,0,0]"

definition kernel4 :: "int list" where
  "kernel4 = [
    0,0,0,0,1,0,0,0,0,
    0,0,0,0,1,0,0,0,0,
    0,0,0,0,1,0,0,0,0,
    0,0,0,0,1,0,0,0,0,
    0,0,0,0,1,0,0,0,0,
    0,0,0,0,1,0,0,0,0,
    0,0,0,0,1,0,0,0,0,
    0,0,0,0,1,0,0,0,0,
    0,0,0,0,1,0,0,0,0]"

definition kernel5 :: "int list" where
  "kernel5 = [
    0,0,2,0,0,0,0,0,0,
    0,0,0,0,0,0,0,0,0,
    0,0,0,2,0,0,0,0,0,
    0,0,0,0,0,0,0,0,0,
    0,0,0,0,1,0,0,0,0,
    0,0,0,0,0,0,0,0,0,
    0,0,0,0,0,2,0,0,0,
    0,0,0,0,0,0,0,0,0,
    0,0,0,0,0,0,2,0,0]"

definition kernel6 :: "int list" where
  "kernel6 = [
    1,0,0,0,0,0,0,0,0,
    0,1,0,0,0,0,0,0,0,
    0,0,1,0,0,0,0,0,0,
    0,0,0,1,0,0,0,0,0,
    0,0,0,0,1,0,0,0,0,
    0,0,0,0,0,1,0,0,0,
    0,0,0,0,0,0,1,0,0,
    0,0,0,0,0,0,0,1,0,
    0,0,0,0,0,0,0,0,1]"

definition kernel7 :: "int list" where
  "kernel7 = [
    0,0,0,0,0,0,0,0,0,
    0,0,0,0,0,0,0,0,0,
    2,0,0,0,0,0,0,0,0,
    0,0,2,0,0,0,0,0,0,
    0,0,0,0,1,0,0,0,0,
    0,0,0,0,0,0,2,0,0,
    0,0,0,0,0,0,0,0,2,
    0,0,0,0,0,0,0,0,0,
    0,0,0,0,0,0,0,0,0]"

definition hue_kernel :: "rat \<Rightarrow> int list" where
  "hue_kernel h =
     (if h < 45 / 2 then kernel0 else if h < 45 then kernel1 else if h < 135 / 2 then kernel2 else if h < 90 then kernel3
      else if h < 225 / 2 then kernel4 else if h < 135 then kernel5 else if h < 315 / 2 then kernel6 else if h < 180 then kernel7
      else if h < 405 / 2 then kernel0 else if h < 225 then kernel1 else if h < 495 / 2 then kernel2 else if h < 270 then kernel3
      else if h < 585 / 2 then kernel4 else if h < 315 then kernel5 else if h < 675 / 2 then kernel6 else kernel7)"

subsection \<open>Convolution and erosion\<close>

text \<open>The kernels of pr05 are arrays of \<open>double\<close>: \<open>acc += int(p) * k\<close> is computed in \<open>double\<close> and converted back every time.\<close>

definition mac_double :: "(rat \<Rightarrow> rat) \<Rightarrow> int \<Rightarrow> byte \<Rightarrow> rat \<Rightarrow> int c_result" where
  "mac_double rnd acc p k = to_int (rnd (of_int acc + rnd (of_int (uint p) * k)))"

definition conv_step_double :: "(rat \<Rightarrow> rat) \<Rightarrow> rat list \<Rightarrow> int \<Rightarrow> RGB c_result \<Rightarrow> int \<times> int \<times> int \<Rightarrow> (int \<times> int \<times> int) c_result" where
  "conv_step_double rnd kern k px acc =
     (case acc of (r, g, b) \<Rightarrow>
        c_bind px (\<lambda>p. c_bind (arr_get kern k) (\<lambda>w.
        c_bind (mac_double rnd r (red p) w) (\<lambda>r. c_bind (mac_double rnd g (green p) w) (\<lambda>g.
        c_bind (mac_double rnd b (blue p) w) (\<lambda>b. Inr (r, g, b)))))))"

definition pr05_conv_single_pixel :: "(rat \<Rightarrow> rat) \<Rightarrow> rat list \<Rightarrow> int \<Rightarrow> rat \<Rightarrow> int \<Rightarrow> myppm \<Rightarrow> int \<Rightarrow> int \<Rightarrow> myppm c_result" where
  "pr05_conv_single_pixel rnd kern sz factor bias P x y =
     c_bind (window_loop (conv_step_double rnd kern) P sz (x - conv_range sz) (y - conv_range sz) (window sz) (0, 0, 0))
       (\<lambda>(r, g, b). set_px x y (scale rnd factor bias r, scale rnd factor bias g, scale rnd factor bias b) P)"

definition hue_conv_single_pixel :: "(rat \<Rightarrow> rat) \<Rightarrow> rat list \<Rightarrow> int \<Rightarrow> rat \<Rightarrow> int \<Rightarrow> myppm \<Rightarrow> int \<Rightarrow> int \<Rightarrow> myppm c_result" where
  "hue_conv_single_pixel rnd hue_map0 sz factor bias P y x =
     c_bind (arr_get hue_map0 (y * width P + x)) (\<lambda>h.
       pr05_conv_single_pixel rnd (map of_int (hue_kernel h)) sz factor bias P y x)"

definition hue_conv_blur :: "(rat \<Rightarrow> rat) \<Rightarrow> int \<Rightarrow> rat \<Rightarrow> int \<Rightarrow> rat list \<Rightarrow> myppm \<Rightarrow> myppm c_result" where
  "hue_conv_blur rnd sz factor bias0 hue_map0 P =
     each_pixel (hue_conv_single_pixel rnd hue_map0 sz factor bias0) (visited (conv_range sz + 3) P) P"

definition masked_step :: "int list \<Rightarrow> int \<Rightarrow> RGB c_result \<Rightarrow> int \<times> int \<times> int \<Rightarrow> (int \<times> int \<times> int) c_result" where
  "masked_step kern k px acc =
     c_bind (arr_get kern k) (\<lambda>w. if w \<noteq> 0 then erode_step k px acc else Inr acc)"

definition masked_single_pixel :: "int list \<Rightarrow> int \<Rightarrow> myppm \<Rightarrow> int \<Rightarrow> int \<Rightarrow> myppm c_result" where
  "masked_single_pixel kern sz P x y =
     c_bind (window_loop (masked_step kern) P sz (x - conv_range sz) (y - conv_range sz) (window sz) (255, 255, 255))
       (\<lambda>rgb. set_px x y rgb P)"

definition hue_single_pixel :: "rat list \<Rightarrow> int \<Rightarrow> myppm \<Rightarrow> int \<Rightarrow> int \<Rightarrow> myppm c_result" where
  "hue_single_pixel hue_map0 sz P y x =
     c_bind (arr_get hue_map0 (y * width P + x)) (\<lambda>h. masked_single_pixel (hue_kernel h) sz P y x)"

definition hue_dilation :: "int \<Rightarrow> rat list \<Rightarrow> myppm \<Rightarrow> myppm c_result" where
  "hue_dilation sz hue_map0 P = each_pixel (hue_single_pixel hue_map0 sz) (visited (conv_range sz) P) P"

subsection \<open>The program\<close>

text \<open>\<open>main\<close> up to the display of \<open>new_map\<close>; \<open>fs\<close> are the files. The objects are global, so that \<open>height\<close> starts at 0. With
  two arguments \<open>argv[3]\<close> is the null pointer, from which no string can be made.\<close>

definition pr05_main :: "(rat \<Rightarrow> rat) \<Rightarrow> (nat \<Rightarrow> RGB) \<Rightarrow> (nat \<Rightarrow> rat) \<Rightarrow> (byte list \<Rightarrow> byte list option) \<Rightarrow> byte list list \<Rightarrow> myppm c_result" where
  "pr05_main rnd junk junk_hue fs argv =
     (if length argv \<le> 2 then Inl Exit_called
      else c_bind (ppm_init junk 0 (fs (argv ! 2))) (\<lambda>ppm.
           if length argv = 3 then Inl Null_deref
           else c_bind (ppm_init_hsv rnd junk_hue 0 (fs (argv ! 3))) (\<lambda>ppm_control.
                if argv ! 1 = lit ''motion'' then hue_conv_blur rnd 9 (rnd (1 / 9)) 0 (hue_map ppm_control) ppm
                else if argv ! 1 = lit ''erosion'' then hue_dilation 9 (hue_map ppm_control) ppm
                else Inl Exit_called)))"

subsection \<open>The kernels are lines\<close>

text \<open>\<open>hue_line h\<close> are the coefficients \<open>a\<close>, \<open>b\<close> of the line \<open>a * (row distance) = b * (column distance)\<close>.\<close>

definition hue_sector :: "rat \<Rightarrow> nat" where
  "hue_sector h = (if h < 0 then 0 else if 15 < \<lfloor>h * 2 / 45\<rfloor> then 7 else nat \<lfloor>h * 2 / 45\<rfloor> mod 8)"

definition hue_line :: "rat \<Rightarrow> int \<times> int" where
  "hue_line h = [(1, 0), (2, -1), (1, -1), (1, -2), (0, 1), (1, 2), (1, 1), (2, 1)] ! hue_sector h"

definition line_kernel :: "int \<times> int \<Rightarrow> int list \<Rightarrow> bool" where
  "line_kernel ab kern \<longleftrightarrow> length kern = 81 \<and> sum_list (map abs kern) = 9 \<and>
     map (\<lambda>w. w \<noteq> 0) kern = map (\<lambda>(i, j). fst ab * (i - 4) = snd ab * (j - 4)) (List.product [0..8] [0..8])"

lemma upto_8: "[0..8] = [0, 1, 2, 3, 4, 5, 6, 7, 8 :: int]"
  by code_simp

lemma kernels_are_lines:
  "line_kernel (1, 0) kernel0" "line_kernel (2, -1) kernel1" "line_kernel (1, -1) kernel2" "line_kernel (1, -2) kernel3"
  "line_kernel (0, 1) kernel4" "line_kernel (1, 2) kernel5" "line_kernel (1, 1) kernel6" "line_kernel (2, 1) kernel7"
  unfolding line_kernel_def upto_8 kernel0_def kernel1_def kernel2_def kernel3_def kernel4_def kernel5_def kernel6_def kernel7_def
  by simp_all

lemma line_kernel_at:
  assumes "line_kernel ab kern" and "(i, j) \<in> set (window 9)"
  shows "kern_at kern 9 (i, j) \<noteq> 0 \<longleftrightarrow> fst ab * (i - 4) = snd ab * (j - 4)"
proof -
  let ?n = "nat (i * 9 + j)"
  have len: "length kern = 81" using assms(1) by (simp only: line_kernel_def)
  have w: "0 \<le> i" "i < 9" "0 \<le> j" "j < 9" using assms(2) by (simp_all add: window_set)
  then have n: "?n < 81" "?n div 9 = nat i" "?n mod 9 = nat j" by (auto simp: nat_add_distrib nat_mult_distrib)
  have up: "[0..8] ! nat k = k" if "0 \<le> k" "k < 9" for k :: int using that by simp
  have "List.product [0..8] [0..8] ! ?n = (i, j)" using n w by (subst product_nth) (simp_all add: up)
  with n have "(map (\<lambda>(i, j). fst ab * (i - 4) = snd ab * (j - 4)) (List.product [0..8] [0..8])) ! ?n \<longleftrightarrow>
      fst ab * (i - 4) = snd ab * (j - 4)" by (subst nth_map) simp_all
  moreover have "(map (\<lambda>w. w \<noteq> 0) kern) ! ?n \<longleftrightarrow> kern_at kern 9 (i, j) \<noteq> 0"
    using len n by (simp add: kern_at_def)
  ultimately show ?thesis using assms(1) by (simp only: line_kernel_def)
qed

lemma hue_kernel_sector:
  "hue_kernel h = [kernel0, kernel1, kernel2, kernel3, kernel4, kernel5, kernel6, kernel7] ! hue_sector h"
proof -
  define n where "n = \<lfloor>h * 2 / 45\<rfloor>"
  have "h < 45 / 2 \<longleftrightarrow> n < 1" "h < 45 \<longleftrightarrow> n < 2" "h < 135 / 2 \<longleftrightarrow> n < 3" "h < 90 \<longleftrightarrow> n < 4" "h < 225 / 2 \<longleftrightarrow> n < 5"
    "h < 135 \<longleftrightarrow> n < 6" "h < 315 / 2 \<longleftrightarrow> n < 7" "h < 180 \<longleftrightarrow> n < 8" "h < 405 / 2 \<longleftrightarrow> n < 9" "h < 225 \<longleftrightarrow> n < 10"
    "h < 495 / 2 \<longleftrightarrow> n < 11" "h < 270 \<longleftrightarrow> n < 12" "h < 585 / 2 \<longleftrightarrow> n < 13" "h < 315 \<longleftrightarrow> n < 14" "h < 675 / 2 \<longleftrightarrow> n < 15"
    by (simp_all add: n_def floor_less_iff field_simps)
  note hk = hue_kernel_def [of h, unfolded this]
  have hs: "hue_sector h = (if n < 0 then 0 else if 15 < n then 7 else nat n mod 8)"
    by (simp add: hue_sector_def n_def zero_le_floor floor_less_iff) 
  have "15 < n \<or> n = 15 \<or> n = 14 \<or> n = 13 \<or> n = 12 \<or> n = 11 \<or> n = 10 \<or> n = 9 \<or> n = 8 \<or> n = 7 \<or>
      n = 6 \<or> n = 5 \<or> n = 4 \<or> n = 3 \<or> n = 2 \<or> n = 1 \<or> n = 0 \<or> n < 0" by presburger
  then show ?thesis unfolding hk hs by (elim disjE) simp_all
qed

lemma hue_kernel_line: "line_kernel (hue_line h) (hue_kernel h)"
proof -
  have "hue_sector h < 8" by (simp add: hue_sector_def)
  then have "hue_sector h \<in> {0, 1, 2, 3, 4, 5, 6, 7}" by auto
  then show ?thesis unfolding hue_kernel_sector hue_line_def using kernels_are_lines by auto
qed

subsection \<open>Filtering along lines\<close>

lemma line_kernel_ok: "line_kernel ab kern \<Longrightarrow> kernel_ok kern 9"
  by (simp add: line_kernel_def kernel_ok_def INT_MAX_def)

lemma conv_range_9 [simp]: "conv_range 9 = 4"
  by (simp add: conv_range_def)

lemma masked_window:
  assumes "line_kernel ab kern" and "wf_image P" and "inner 4 P r c"
  shows "masked_single_pixel kern 9 P r c =
    Inr (P\<lparr>new_map := (new_map P)[nat (r * width P + c) := px_min (window_px P 9 r c ` {k \<in> set (window 9). kern_at kern 9 k \<noteq> 0})]\<rparr>)"
proof -
  define g where "g = (\<lambda>k p. if kern ! nat k \<noteq> 0 then erode_px p else id)"
  let ?ks = "filter (\<lambda>k. kern_at kern 9 k \<noteq> 0) (window 9)"
  let ?ps = "map (window_px P 9 r c) ?ks"
  obtain x y z where acc: "fold erode_px ?ps (255, 255, 255) = (x, y, z)" by (cases "fold erode_px ?ps (255, 255, 255)")
  have step: "masked_step kern (i * 9 + j) (Inr p) acc = Inr (g (i * 9 + j) p acc)" if "(i, j) \<in> set (window 9)" for i j p acc
    using that assms(1) idx_bounds [of i 9 j] by (simp add: masked_step_def g_def arr_get_def line_kernel_def window_set erode_step_Inr)
  have "fold (\<lambda>k. g (fst k * 9 + snd k) (window_px P 9 r c k)) ks a =
      fold erode_px (map (window_px P 9 r c) (filter (\<lambda>k. kern_at kern 9 k \<noteq> 0) ks)) a" for ks a
    by (induction ks arbitrary: a) (simp_all add: g_def kern_at_def)
  then have loop: "window_loop (masked_step kern) P 9 (r - 4) (c - 4) (window 9) (255, 255, 255) = Inr (x, y, z)"
    using acc window_in [of 9 P r c] assms(2,3)
    by (subst window_loop_fold [where g = g, OF _ _ step]) (auto simp: window_px_def)
  have "(4, 4) \<in> set ?ks" using line_kernel_at [OF assms(1), of 4 4] by (simp add: window_set)
  then have "?ps \<noteq> []" by (metis empty_iff empty_set map_is_Nil_conv)
  from fold_erode_px_min [OF this acc] have
    "\<lparr>red = word_of_int x, green = word_of_int y, blue = word_of_int z\<rparr> = px_min (window_px P 9 r c ` {k \<in> set (window 9). kern_at kern 9 k \<noteq> 0})"
    by simp
  moreover have "on_image P r c" using inner_on_image [OF _ assms(3)] by simp
  ultimately show ?thesis using assms(2) loop by (simp add: masked_single_pixel_def set_px_ok)
qed

text \<open>The pixels on the line through a pixel, at most four rows and columns away.\<close>

definition line_px :: "myppm \<Rightarrow> int \<times> int \<Rightarrow> int \<Rightarrow> int \<Rightarrow> RGB set" where
  "line_px P ab r c = {px_at P (pixel_map P) r' c' | r' c'.
     \<bar>r' - r\<bar> \<le> 4 \<and> \<bar>c' - c\<bar> \<le> 4 \<and> fst ab * (r' - r) = snd ab * (c' - c)}"

lemma window_line:
  assumes "line_kernel ab kern"
  shows "window_px P 9 r c ` {k \<in> set (window 9). kern_at kern 9 k \<noteq> 0} = line_px P ab r c" (is "?A = ?B")
proof
  show "?A \<subseteq> ?B"
  proof
    fix p
    assume "p \<in> ?A"
    then obtain i j where k: "(i, j) \<in> set (window 9)" "kern_at kern 9 (i, j) \<noteq> 0" "p = window_px P 9 r c (i, j)" by auto
    then have "fst ab * (i - 4) = snd ab * (j - 4)" using line_kernel_at [OF assms] by blast
    then have "\<bar>r - 4 + i - r\<bar> \<le> 4 \<and> \<bar>c - 4 + j - c\<bar> \<le> 4 \<and> fst ab * (r - 4 + i - r) = snd ab * (c - 4 + j - c)"
      using k(1) by (auto simp: window_set abs_le_iff)
    then show "p \<in> ?B" unfolding line_px_def k(3) window_px_def fst_conv snd_conv conv_range_9 by blast
  qed
  show "?B \<subseteq> ?A"
  proof
    fix p
    assume "p \<in> ?B"
    then obtain r' c' where p: "p = px_at P (pixel_map P) r' c'" "\<bar>r' - r\<bar> \<le> 4" "\<bar>c' - c\<bar> \<le> 4"
      "fst ab * (r' - r) = snd ab * (c' - c)" by (auto simp: line_px_def)
    let ?k = "(r' - r + 4, c' - c + 4)"
    have w: "?k \<in> set (window 9)" using p by (auto simp: window_set)
    then have "kern_at kern 9 ?k \<noteq> 0" "p = window_px P 9 r c ?k"
      using p line_kernel_at [OF assms w] by (simp_all add: window_px_def)
    with w show "p \<in> ?A" by blast
  qed
qed

text \<open>The hue at a pixel, and the suitability of a hue map.\<close>

definition hue_at :: "rat list \<Rightarrow> myppm \<Rightarrow> int \<Rightarrow> int \<Rightarrow> rat" where
  "hue_at hs P r c = hs ! nat (r * width P + c)"

definition hue_ok :: "rat list \<Rightarrow> int \<Rightarrow> myppm \<Rightarrow> bool" where
  "hue_ok hs sz P \<longleftrightarrow> sz = 9 \<and> nat (width P * height P) \<le> length hs"

lemma arr_get_hue:
  "hue_ok hs sz P \<Longrightarrow> wf_image P \<Longrightarrow> on_image P r c \<Longrightarrow> arr_get hs (r * width P + c) = Inr (hue_at hs P r c)"
  using index_bounds [of P r c] by (auto simp: arr_get_def hue_ok_def hue_at_def)

interpretation hue_erosion: pixel_filter hue_ok hue_single_pixel "\<lambda>hs sz P r c. px_min (line_px P (hue_line (hue_at hs P r c)) r c)"
proof
  fix sz P r c and hs :: "rat list"
  assume a: "0 < sz" "odd sz" "wf_image P" "hue_ok hs sz P" "inner (conv_range sz) P r c"
  have sz: "sz = 9" using a(4) by (simp add: hue_ok_def)
  have "on_image P r c" using inner_on_image [OF odd_range(2) [OF a(1,2)] a(5)] .
  then show "hue_single_pixel hs sz P r c =
      Inr (P\<lparr>new_map := (new_map P)[nat (r * width P + c) := px_min (line_px P (hue_line (hue_at hs P r c)) r c)]\<rparr>)"
    using a masked_window [OF hue_kernel_line] by (simp add: hue_single_pixel_def arr_get_hue sz window_line [OF hue_kernel_line])
qed (simp_all add: line_px_def px_at_def hue_at_def hue_ok_def)

definition hue_convolved :: "(int \<Rightarrow> int) \<times> rat list \<Rightarrow> int \<Rightarrow> myppm \<Rightarrow> int \<Rightarrow> int \<Rightarrow> RGB" where
  "hue_convolved k sz P r c = convolved (fst k, hue_kernel (hue_at (snd k) P r c)) sz P r c"

definition hue_conv_filter :: "(int \<Rightarrow> int) \<times> rat list \<Rightarrow> int \<Rightarrow> myppm \<Rightarrow> int \<Rightarrow> int \<Rightarrow> myppm c_result" where
  "hue_conv_filter k sz P r c = c_bind (arr_get (snd k) (r * width P + c)) (\<lambda>h. conv_filter (fst k, hue_kernel h) sz P r c)"

interpretation hue_convolution: pixel_filter "\<lambda>k. hue_ok (snd k)" hue_conv_filter hue_convolved
proof
  fix sz P r c and k :: "(int \<Rightarrow> int) \<times> rat list"
  assume a: "0 < sz" "odd sz" "wf_image P" "hue_ok (snd k) sz P" "inner (conv_range sz) P r c"
  have sz: "sz = 9" using a(4) by (simp add: hue_ok_def)
  have "on_image P r c" using inner_on_image [OF odd_range(2) [OF a(1,2)] a(5)] .
  then show "hue_conv_filter k sz P r c = Inr (P\<lparr>new_map := (new_map P)[nat (r * width P + c) := hue_convolved k sz P r c]\<rparr>)"
    using a convolution.single [of 9 P "(fst k, hue_kernel (hue_at (snd k) P r c))"] line_kernel_ok [OF hue_kernel_line]
    by (simp add: hue_conv_filter_def hue_convolved_def arr_get_hue sz)
qed (simp_all add: hue_convolved_def convolution.val_frame hue_at_def hue_ok_def)

subsection \<open>Properties\<close>

text \<open>The erosion of pr05, with a hue map that covers the image, computes an erosion along lines: no access is out
  of bounds, \<open>pixel_map\<close> and the pixels within four of the border stay as they are, and every other pixel gets, channel by channel,
  the minimum of the original pixels on a line through it. The line has one of eight directions, in steps of 22.5 degrees of
  the hue at the pixel.\<close>

lemma hue_erosion_image:
  assumes "wf_image P" and "nat (width P * height P) \<le> length hs"
  shows "\<exists>q. hue_dilation 9 hs P = Inr (P\<lparr>new_map := q\<rparr>) \<and> length q = length (new_map P) \<and>
    (\<forall>r c. on_image P r c \<longrightarrow> px_at P q r c =
      (if inner 4 P r c then px_min (line_px P (hue_line (hue_at hs P r c)) r c) else px_at P (new_map P) r c))"
  using hue_erosion.whole_image [of 9 P hs 4] assms by (simp add: hue_dilation_def hue_ok_def)

definition demo9 :: myppm where
  "demo9 = \<lparr>width = 9, height = 9, RGB_range = 255, pixel_map = map (demo_px \<circ> of_nat) [0..<81], new_map = map (demo_px \<circ> of_nat) [0..<81]\<rparr>"

lemma mac_double_agrees:
  assumes "exact_ints rnd" and "mac acc p k = Inr v" shows "mac_double rnd acc p (of_int k) = Inr v"
proof -
  have v: "v = acc + uint p * k" "in_int (uint p * k)" "in_int v" using assms(2) by (auto simp: mac_def split: if_splits)
  have ex: "rnd (of_int n) = of_int n" if "in_int n" for n
  proof -
    have "\<bar>n\<bar> \<le> 2 ^ 53" using that by (auto simp: in_int_def INT_MAX_def)
    then show ?thesis using assms(1) by (simp add: exact_ints_def)
  qed
  have "rnd (of_int (uint p) * of_int k) = of_int (uint p * k)" using ex [OF v(2)] by simp
  then have "rnd (of_int acc + rnd (of_int (uint p) * of_int k)) = of_int v" using ex [OF v(3)] v(1) by simp
  then show ?thesis using v(3) by (simp add: mac_double_def to_int_def trunc_def)
qed

lemma window_loop_mono:
  assumes "\<And>k px acc v. f k px acc = Inr v \<Longrightarrow> g k px acc = Inr v" and "window_loop f P sz x0 y0 ks acc = Inr v"
  shows "window_loop g P sz x0 y0 ks acc = Inr v"
  using assms(2)
proof (induction ks arbitrary: acc)
  case (Cons k ks)
  obtain xk yk where k: "k = (xk, yk)" by (cases k)
  with Cons.prems obtain a where "f (xk * sz + yk) (arr_get (pixel_map P) ((x0 + xk) * width P + (y0 + yk))) acc = Inr a"
      "window_loop f P sz x0 y0 ks a = Inr v" by (auto simp: c_bind_Inr_iff)
  with assms(1) [OF this(1)] Cons.IH k show ?case by simp
qed simp

lemma each_pixel_mono:
  assumes "\<And>P y x Q. f P y x = Inr Q \<Longrightarrow> g P y x = Inr Q" and "each_pixel f ps P = Inr Q"
  shows "each_pixel g ps P = Inr Q"
  using assms(2)
proof (induction ps arbitrary: P)
  case (Cons p ps)
  obtain y x where p: "p = (y, x)" by (cases p)
  with Cons.prems obtain P' where "f P y x = Inr P'" "each_pixel f ps P' = Inr Q" by (auto simp: c_bind_Inr_iff)
  with assms(1) [OF this(1)] Cons.IH p show ?case by simp
qed simp

text \<open>The kernels as arrays of \<open>double\<close> give what whole numbers would, whenever those do not overflow.\<close>

lemma double_kernel_agrees:
  assumes "exact_ints rnd" and "window_loop (conv_step kern) P sz x0 y0 ks acc = Inr v"
  shows "window_loop (conv_step_double rnd (map of_int kern)) P sz x0 y0 ks acc = Inr v"
proof (rule window_loop_mono [OF _ assms(2)])
  fix k px acc v
  assume "conv_step kern k px acc = Inr v"
  then show "conv_step_double rnd (map of_int kern) k px acc = Inr v"
    using mac_double_agrees [OF assms(1)]
    by (auto simp: conv_step_def conv_step_double_def c_bind_Inr_iff arr_get_def split: prod.splits if_splits)
qed

text \<open>The motion blur of pr05, with a hue map that covers the image, computes the convolution with the line of the hue at each
  pixel, without access out of bounds or overflow. The pixels within seven of the border stay as they are.\<close>

theorem hue_conv_blur_spec:
  assumes "wf_image P" and "nat (width P * height P) \<le> length hs" and "exact_ints rnd"
  shows "\<exists>q. hue_conv_blur rnd 9 factor bias hs P = Inr (P\<lparr>new_map := q\<rparr>) \<and> length q = length (new_map P) \<and>
    (\<forall>r c. on_image P r c \<longrightarrow> px_at P q r c =
      (if inner 7 P r c then convolved (scale rnd factor bias, hue_kernel (hue_at hs P r c)) 9 P r c else px_at P (new_map P) r c))"
proof -
  have "hue_conv_single_pixel rnd hs 9 factor bias P y x = Inr Q"
    if "hue_conv_filter (scale rnd factor bias, hs) 9 P y x = Inr Q" for P y x Q
    using that double_kernel_agrees [OF assms(3)]
    by (auto simp: hue_conv_filter_def hue_conv_single_pixel_def pr05_conv_single_pixel_def conv_filter_def c_bind_Inr_iff)
  then have step: "each_pixel (hue_conv_single_pixel rnd hs 9 factor bias) ps P = Inr Q"
    if "each_pixel (hue_conv_filter (scale rnd factor bias, hs) 9) ps P = Inr Q" for ps P Q
    using that by (rule each_pixel_mono)
  from hue_convolution.whole_image [of 9 P "(scale rnd factor bias, hs)" 7] assms(1,2) obtain q where
    q: "each_pixel (hue_conv_filter (scale rnd factor bias, hs) 9) (visited 7 P) P = Inr (P\<lparr>new_map := q\<rparr>)" "length q = length (new_map P)"
      "\<forall>r c. on_image P r c \<longrightarrow> px_at P q r c =
        (if inner 7 P r c then convolved (scale rnd factor bias, hue_kernel (hue_at hs P r c)) 9 P r c else px_at P (new_map P) r c)"
    by (auto simp: hue_ok_def hue_convolved_def cong: if_cong)
  have "hue_conv_blur rnd 9 factor bias hs P = Inr (P\<lparr>new_map := q\<rparr>)" using step [OF q(1)] by (simp add: hue_conv_blur_def)
  with q(2,3) show ?thesis by blast
qed

theorem hue_conv_blur_spec_witness:
  "\<exists>q. hue_conv_blur (\<lambda>x. x) 9 (1 / 9) 0 (replicate 225 90)
      \<lparr>width = 15, height = 15, RGB_range = 255, pixel_map = replicate 225 (demo_px 9), new_map = replicate 225 (demo_px 9)\<rparr> =
    Inr \<lparr>width = 15, height = 15, RGB_range = 255, pixel_map = replicate 225 (demo_px 9), new_map = q\<rparr> \<and> length q = 225"
  using hue_conv_blur_spec [of "\<lparr>width = 15, height = 15, RGB_range = 255, pixel_map = replicate 225 (demo_px 9),
      new_map = replicate 225 (demo_px 9)\<rparr>" "replicate 225 90" "\<lambda>x. x" "1 / 9" 0]
  by (auto simp: wf_image_def exact_ints_def)

text \<open>A correctly rounding machine: monotone, symmetric, and exact on the integers a \<open>double\<close> holds.\<close>

definition rounding :: "(rat \<Rightarrow> rat) \<Rightarrow> bool" where
  "rounding rnd \<longleftrightarrow> mono rnd \<and> (\<forall>x. rnd (- x) = - rnd x) \<and> exact_ints rnd"

lemma rounding_between:
  assumes "rounding rnd" and "of_int a \<le> x" and "x \<le> of_int b" and "\<bar>a\<bar> \<le> 2 ^ 53" and "\<bar>b\<bar> \<le> 2 ^ 53"
  shows "of_int a \<le> rnd x \<and> rnd x \<le> of_int b"
proof -
  have m: "mono rnd" and ex: "rnd (of_int a) = of_int a" "rnd (of_int b) = of_int b"
    using assms by (simp_all add: rounding_def exact_ints_def)
  show ?thesis using monoD [OF m assms(2)] monoD [OF m assms(3)] by (simp only: ex)
qed

lemma rounded_ratio:
  assumes "rounding rnd" and "lo \<le> x" and "x \<le> hi" and "lo \<le> y" and "y \<le> hi" and "rnd (hi - lo) \<noteq> 0"
  shows "- 1 \<le> rnd (rnd (x - y) / rnd (hi - lo)) \<and> rnd (rnd (x - y) / rnd (hi - lo)) \<le> 1"
proof -
  have m: "mono rnd" and s: "\<And>x. rnd (- x) = - rnd x" using assms(1) by (auto simp: rounding_def)
  have "rnd (x - y) \<le> rnd (hi - lo)" using assms(2-5) by (intro monoD [OF m]) simp
  moreover have "- rnd (hi - lo) \<le> rnd (x - y)" unfolding s [symmetric] using assms(2-5) by (intro monoD [OF m]) simp
  moreover have "0 \<le> rnd (hi - lo)"
    using monoD [OF m, of 0 "hi - lo"] assms(2,3) rounding_between [OF assms(1), of 0 0 0] by simp
  ultimately have "- 1 \<le> rnd (x - y) / rnd (hi - lo)" "rnd (x - y) / rnd (hi - lo) \<le> 1"
    using assms(6) by (simp_all add: field_simps)
  then show ?thesis using rounding_between [OF assms(1), of "- 1" _ 1] by simp
qed

text \<open>On a machine that rounds correctly, a hue lies between 0 and 360 degrees.\<close>

theorem get_hue_range:
  assumes "rounding rnd"
  shows "0 \<le> get_hue rnd r g b \<and> get_hue rnd r g b \<le> 360"
proof -
  define R G B where "R = rnd (of_int r / 255)" and "G = rnd (of_int g / 255)" and "B = rnd (of_int b / 255)"
  define hi lo where "hi = max R (max G B)" and "lo = min R (min G B)"
  define q where "q = (\<lambda>x y. rnd (rnd (x - y) / rnd (hi - lo)))"
  define h1 where "h1 = (if R = hi then q G B else if G = hi then rnd (2 + q B R) else rnd (4 + q R G))"
  have eq: "get_hue rnd r g b = (if hi = 0 \<or> rnd (hi - lo) = 0 then 0 else if rnd (h1 * 60) < 0 then rnd (rnd (h1 * 60) + 360) else rnd (h1 * 60))"
    unfolding get_hue_def Let_def R_def [symmetric] G_def [symmetric] B_def [symmetric] hi_def [symmetric] lo_def [symmetric] h1_def q_def by simp
  show ?thesis
  proof (cases "rnd (hi - lo) = 0")
    case False
    have q: "- 1 \<le> q x y \<and> q x y \<le> 1" if "x \<in> {R, G, B}" "y \<in> {R, G, B}" for x y
      unfolding q_def using that False by (intro rounded_ratio [OF assms]) (auto simp: hi_def lo_def)
    have "- 1 \<le> h1 \<and> h1 \<le> 5"
      using q [of G B] q [of B R] q [of R G] rounding_between [OF assms, of 1 "2 + q B R" 3] rounding_between [OF assms, of 3 "4 + q R G" 5]
      by (auto simp: h1_def)
    then have h: "- 60 \<le> rnd (h1 * 60) \<and> rnd (h1 * 60) \<le> 300" using rounding_between [OF assms, of "- 60" "h1 * 60" 300] by simp
    then show ?thesis using rounding_between [OF assms, of 300 "rnd (h1 * 60) + 360" 360] by (auto simp: eq)
  qed (simp add: eq)
qed

theorem get_hue_range_witness: "0 \<le> get_hue (\<lambda>x. x) 10 20 30 \<and> get_hue (\<lambda>x. x) 10 20 30 \<le> 360"
  by (rule get_hue_range) (simp add: rounding_def exact_ints_def mono_def)

lemma bright_negative:
  assumes "c = 0 \<or> 128 \<le> c"
  shows "sint (c :: byte) \<le> 0"
proof -
  have "c = 0 \<or> uint (128 :: byte) \<le> uint c" using assms unfolding word_le_def .
  then have "uint c = 0 \<or> 128 \<le> uint c" by (elim disjE) simp_all
  moreover have "uint c < 256" using uint_lt2p [of c] by simp
  moreover have "(k + 128) mod 256 = k - 128" if "128 \<le> k" "k < 256" for k :: int
    using that mod_add_self2 [of "k - 128" 256] by (simp add: add.commute)
  ultimately have "(uint c + 128) mod 256 \<le> 128" by (elim disjE) simp_all
  then show ?thesis by (simp add: sint_uint signed_take_bit_eq_take_bit_shift take_bit_eq_mod)
qed

lemma max3_zero: "a \<le> 0 \<Longrightarrow> b \<le> 0 \<Longrightarrow> c \<le> 0 \<Longrightarrow> a = 0 \<or> b = 0 \<or> c = 0 \<Longrightarrow> max a (max b c) = (0 :: rat)"
  by (auto simp: max_def)

lemma rounded_sign:
  assumes "rounding rnd"
  shows "z \<le> 0 \<Longrightarrow> rnd (of_int z / 255) \<le> 0" and "rnd 0 = 0"
proof -
  show z: "rnd 0 = 0" using rounding_between [OF assms, of 0 0 0] by simp
  show "z \<le> 0 \<Longrightarrow> rnd (of_int z / 255) \<le> 0"
    using monoD [of rnd "of_int z / 255" 0] assms z by (simp add: rounding_def divide_nonpos_pos)
qed

text \<open>The hues of bright colours are lost. \<open>ppm_init_hsv\<close> passes the bytes as signed characters, so that a channel of at least 128
  counts as negative: a pixel with a channel of zero whose other channels are zero or at least 128, a saturated green for example,
  gets the hue zero.\<close>

theorem hue_of_bright_is_zero:
  assumes "rounding rnd" and "0 \<in> {red p, green p, blue p}" and "\<forall>c\<in>{red p, green p, blue p}. c = 0 \<or> 128 \<le> c"
  shows "hue_of rnd p = 0"
proof -
  let ?f = "\<lambda>c :: byte. rnd (of_int (sint c) / 255)"
  have neg: "?f c \<le> 0" if "c \<in> {red p, green p, blue p}" for c
    using that assms(3) by (intro rounded_sign(1) [OF assms(1)] bright_negative) (rule bspec)
  have "?f 0 = 0" using rounded_sign(2) [OF assms(1)] by simp
  moreover have "red p = 0 \<or> green p = 0 \<or> blue p = 0" using assms(2) by auto
  ultimately have "?f (red p) = 0 \<or> ?f (green p) = 0 \<or> ?f (blue p) = 0" by metis
  with neg have "max (?f (red p)) (max (?f (green p)) (?f (blue p))) = 0" by (intro max3_zero) simp_all
  then show ?thesis by (simp add: hue_of_def get_hue_def Let_def)
qed

theorem hue_of_bright_is_zero_witness:
  "hue_of (\<lambda>x. x) \<lparr>red = 0, green = 200, blue = 0\<rparr> = 0 \<and> get_hue (\<lambda>x. x) 0 200 0 = 120"
proof
  show "hue_of (\<lambda>x. x) \<lparr>red = 0, green = 200, blue = 0\<rparr> = 0"
    by (rule hue_of_bright_is_zero) (simp_all add: rounding_def exact_ints_def mono_def)
  show "get_hue (\<lambda>x. x) 0 200 0 = 120" by (simp add: get_hue_def)
qed

lemma each_pixel_oob:
  assumes "wf_image P" and "\<forall>(y, x)\<in>set ps. inner 4 P y x" and "(y0, x0) \<in> set ps" and "int (length hs) \<le> y0 * width P + x0"
  shows "each_pixel (hue_single_pixel hs 9) ps P = Inl Out_of_bounds"
  using assms
proof (induction ps arbitrary: P)
  case Nil
  then show ?case by simp
next
  case (Cons p ps)
  obtain y x where p: "p = (y, x)" by (cases p)
  have i: "inner 4 P y x" and o: "on_image P y x" using Cons.prems(2) inner_on_image [of 4 P y x] by (auto simp: p)
  show ?case
  proof (cases "int (length hs) \<le> y * width P + x")
    case True
    then show ?thesis by (simp add: p hue_single_pixel_def arr_get_def)
  next
    case False
    then have get: "arr_get hs (y * width P + x) = Inr (hue_at hs P y x)"
      using index_bounds [OF o] by (simp add: arr_get_def hue_at_def)
    let ?m = "(new_map P)[nat (y * width P + x) := px_min (line_px P (hue_line (hue_at hs P y x)) y x)]"
    have "hue_single_pixel hs 9 P y x = Inr (P\<lparr>new_map := ?m\<rparr>)"
      using masked_window [OF hue_kernel_line Cons.prems(1) i] by (simp add: hue_single_pixel_def get window_line [OF hue_kernel_line])
    moreover have "each_pixel (hue_single_pixel hs 9) ps (P\<lparr>new_map := ?m\<rparr>) = Inl Out_of_bounds"
      using Cons.prems False by (intro Cons.IH) (auto simp: wf_image_def inner_def p)
    ultimately show ?thesis by (simp add: p)
  qed
qed

text \<open>The sizes of the two images are never compared. If the control image has too few pixels for the last pixel that is
  filtered, the erosion of pr05 reads outside of the hue map.\<close>

theorem hue_map_too_small:
  assumes "wf_image P" and "9 \<le> width P" and "9 \<le> height P" and "int (length hs) \<le> (height P - 5) * width P + (width P - 5)"
  shows "hue_dilation 9 hs P = Inl Out_of_bounds"
  unfolding hue_dilation_def conv_range_9
  by (rule each_pixel_oob [OF assms(1) _ _ assms(4)]) (use assms(2,3) in \<open>auto simp: visited_set inner_def\<close>)

theorem hue_map_too_small_witness: "hue_dilation 9 [0, 0] demo9 = Inl Out_of_bounds"
  by (rule hue_map_too_small) (simp_all add: demo9_def wf_image_def)

lemma ppm_init_hsv_plain:
  assumes "rows_ok n rng rows"
  shows "ppm_init_hsv rnd junk_hue h0 (Some (ppm_file [] [] [] n rng rows)) =
    Inr \<lparr>hsv_width = int n, hsv_height = int (length rows), hsv_range = int rng, hue_map = map (hue_of rnd) (concat (rev rows))\<rparr>"
  using assms unfolding ppm_init_hsv_def rows_ok_def by (subst file_read; auto)

text \<open>Claim C22: pr05 end to end. Called with \<open>erosion\<close> and two well-formed files of the same size, the program shows the first image, from
  bottom to top, eroded along the lines given by the hues of the second.\<close>

theorem pr05_erosion:
  assumes "rows_ok n rng rows" and "rows_ok n rng' hues" and "length hues = length rows"
    and "fs name = Some (ppm_file [] [] [] n rng rows)" and "fs control = Some (ppm_file [] [] [] n rng' hues)"
  shows "\<exists>P. pr05_main rnd junk junk_hue fs [prog, lit ''erosion'', name, control] = Inr P \<and>
    width P = int n \<and> height P = int (length rows) \<and> pixel_map P = concat (rev rows) \<and>
    (\<forall>r c. on_image P r c \<longrightarrow> px_at P (new_map P) r c =
      (if inner 4 P r c then px_min (line_px P (hue_line (hue_of rnd (px_at P (concat (rev hues)) r c))) r c)
       else px_at P (pixel_map P) r c))"
proof -
  let ?P = "\<lparr>width = int n, height = int (length rows), RGB_range = int rng, pixel_map = concat (rev rows), new_map = concat (rev rows)\<rparr>"
  let ?hs = "map (hue_of rnd) (concat (rev hues))"
  have len: "length (concat (rev rows)) = n * length rows" "length (concat (rev hues)) = n * length rows"
    using rows_ok_length [OF assms(1)] rows_ok_length [OF assms(2)] assms(3) by simp_all
  have wf: "wf_image ?P" and hs: "nat (width ?P * height ?P) \<le> length ?hs"
    using len by (simp_all add: wf_image_def nat_mult_distrib)
  obtain q where q: "hue_dilation 9 ?hs ?P = Inr (?P\<lparr>new_map := q\<rparr>)"
    "\<And>r c. on_image ?P r c \<Longrightarrow> px_at ?P q r c =
      (if inner 4 ?P r c then px_min (line_px ?P (hue_line (hue_at ?hs ?P r c)) r c) else px_at ?P (new_map ?P) r c)"
    using hue_erosion_image [OF wf hs] by blast
  have hue: "hue_at ?hs ?P r c = hue_of rnd (px_at ?P (concat (rev hues)) r c)" if "on_image ?P r c" for r c
    using index_bounds [OF that] len(2) unfolding hue_at_def px_at_def by (subst nth_map) (simp_all add: nat_less_iff)
  have main: "pr05_main rnd junk junk_hue fs [prog, lit ''erosion'', name, control] = Inr (?P\<lparr>new_map := q\<rparr>)"
    using q(1) ppm_init_plain [OF assms(1)] ppm_init_hsv_plain [OF assms(2)] assms(3-5)
    by (simp add: pr05_main_def lit_def byte_of_char_def)
  have "on_image (?P\<lparr>new_map := q\<rparr>) = on_image ?P" "inner 4 (?P\<lparr>new_map := q\<rparr>) = inner 4 ?P"
    "line_px (?P\<lparr>new_map := q\<rparr>) = line_px ?P" "px_at (?P\<lparr>new_map := q\<rparr>) = px_at ?P"
    by (simp_all add: on_image_def inner_def line_px_def px_at_def fun_eq_iff)
  then show ?thesis using main q(2) hue by (intro exI [of _ "?P\<lparr>new_map := q\<rparr>"]) simp
qed

theorem pr05_erosion_witness:
  "\<exists>P. pr05_main (\<lambda>x. x) (\<lambda>_. demo_px 0) (\<lambda>_. 0) (\<lambda>_. Some (ppm_file [] [] [] 9 255 (replicate 9 (replicate 9 (demo_px 7)))))
     [lit ''pr05'', lit ''erosion'', lit ''a'', lit ''b''] = Inr P \<and> width P = 9 \<and> height P = 9 \<and>
     px_at P (new_map P) 4 4 = px_min (line_px P (hue_line (hue_of (\<lambda>x. x) (demo_px 7))) 4 4)"
proof -
  let ?rows = "replicate 9 (replicate 9 (demo_px 7))"
  have ok: "rows_ok 9 255 ?rows" by (simp add: rows_ok_def INT_MAX_def demo_px_def)
  obtain P where P: "pr05_main (\<lambda>x. x) (\<lambda>_. demo_px 0) (\<lambda>_. 0) (\<lambda>_. Some (ppm_file [] [] [] 9 255 ?rows))
     [lit ''pr05'', lit ''erosion'', lit ''a'', lit ''b''] = Inr P" "width P = 9" "height P = 9"
    "\<And>r c. on_image P r c \<Longrightarrow> px_at P (new_map P) r c =
      (if inner 4 P r c then px_min (line_px P (hue_line (hue_of (\<lambda>x. x) (px_at P (concat (rev ?rows)) r c))) r c)
       else px_at P (pixel_map P) r c)"
    using pr05_erosion [OF ok ok refl, of "\<lambda>_. Some (ppm_file [] [] [] 9 255 ?rows)" "lit ''a''" "lit ''b''" "\<lambda>x. x" "\<lambda>_. demo_px 0"
        "\<lambda>_. 0" "lit ''pr05''"] by auto
  have "concat (rev ?rows) = replicate 81 (demo_px 7)" by (simp add: replicate_eqI numeral_eq_Suc)
  then have "px_at P (concat (rev ?rows)) 4 4 = demo_px 7" using P(2) by (simp add: px_at_def)
  with P P(4) [of 4 4] show ?thesis by (auto simp: on_image_def inner_def)
qed

end
