(* ===== verification/Ppm_Color.thy ===== *)
theory Ppm_Color
  imports Ppm_Hue
begin

section \<open>Colour maps (CSCE646/pr03)\<close>

text \<open>
  pr03 changes the colours of an image: through a table for each channel, filled with a piecewise linear or a
  cubic curve, or by taking the hue of every pixel from a second image. A conversion of a number outside of
  the range of \<open>int\<close>, or of a quotient by zero, is undefined.
\<close>

subsection \<open>Tables\<close>

record manipulation_map =
  r_map :: "int list"
  g_map :: "int list"
  b_map :: "int list"

text \<open>The inner loop of \<open>piecewise_linear_single\<close>, for the segment between the boundaries \<open>l\<close> and \<open>r\<close> with the slope \<open>k\<close> and the
  left end \<open>(x, y)\<close>.\<close>

definition segment_value :: "(rat \<Rightarrow> rat) \<Rightarrow> rat \<Rightarrow> rat \<Rightarrow> rat \<Rightarrow> int \<Rightarrow> rat" where
  "segment_value rnd k x y rgb_index = rnd (rnd (rnd (k * rnd (rnd (of_int rgb_index / 255) - x)) + y) * 255)"

function segment_loop :: "(int \<Rightarrow> rat) \<Rightarrow> rat \<Rightarrow> rat \<Rightarrow> int \<Rightarrow> int list \<Rightarrow> (int \<times> int list) c_result" where
  "segment_loop v l r rgb_index m =
     (if l \<le> of_int rgb_index \<and> of_int rgb_index < r
      then c_bind (to_int (v rgb_index)) (\<lambda>a. c_bind (arr_set m rgb_index a) (segment_loop v l r (rgb_index + 1)))
      else Inr (rgb_index, m))"
  by pat_completeness auto

termination segment_loop
  by (relation "measure (\<lambda>(v, l, r, i, m). nat (\<lceil>r\<rceil> - i))") (auto simp: less_ceiling_iff zless_nat_conj)

declare segment_loop.simps [simp del]

text \<open>\<open>dot[i].x\<close> and \<open>linear_slope[i]\<close>.\<close>

definition dot_x :: "(rat \<Rightarrow> rat) \<Rightarrow> int \<Rightarrow> int \<Rightarrow> rat" where
  "dot_x rnd n i = (if i = n then 1 else rnd (of_int i / of_int n))"

definition linear_slope :: "(rat \<Rightarrow> rat) \<Rightarrow> int \<Rightarrow> rat list \<Rightarrow> int \<Rightarrow> rat" where
  "linear_slope rnd n rn i = rnd (rnd (rn ! nat (i + 1) - rn ! nat i) * of_int n)"

fun segments :: "(rat \<Rightarrow> rat) \<Rightarrow> int \<Rightarrow> rat list \<Rightarrow> int list \<Rightarrow> int \<Rightarrow> int list \<Rightarrow> (int \<times> int list) c_result" where
  "segments rnd n rn [] rgb_index m = Inr (rgb_index, m)"
| "segments rnd n rn (i # is) rgb_index m =
     c_bind (segment_loop (segment_value rnd (linear_slope rnd n rn i) (dot_x rnd n i) (rn ! nat i))
              (rnd (dot_x rnd n i * 255)) (rnd (dot_x rnd n (i + 1) * 255)) rgb_index m)
       (\<lambda>(rgb_index, m). segments rnd n rn is rgb_index m)"

text \<open>A negative \<open>n\<close> makes \<open>new\<close> throw; the first loop reads \<open>rn[0]\<close> to \<open>rn[n]\<close> before anything is stored.\<close>

definition piecewise_linear_single :: "(rat \<Rightarrow> rat) \<Rightarrow> int \<Rightarrow> rat list \<Rightarrow> int list \<Rightarrow> int list c_result" where
  "piecewise_linear_single rnd n rn color_map =
     (if n < 0 then Inl Exit_called
      else if int (length rn) \<le> n then Inl Out_of_bounds
      else c_bind (segments rnd n rn [0..n - 1] 0 color_map) (\<lambda>(rgb_index, m).
           c_bind (to_int (rnd (255 * rn ! nat n))) (arr_set m rgb_index)))"

definition piecewise_linear_RGB :: "(rat \<Rightarrow> rat) \<Rightarrow> int \<Rightarrow> rat list \<Rightarrow> int \<Rightarrow> rat list \<Rightarrow> int \<Rightarrow> rat list \<Rightarrow> manipulation_map \<Rightarrow> manipulation_map c_result" where
  "piecewise_linear_RGB rnd n1 rn1 n2 rn2 n3 rn3 M =
     c_bind (piecewise_linear_single rnd n1 rn1 (r_map M)) (\<lambda>r.
     c_bind (piecewise_linear_single rnd n2 rn3 (g_map M)) (\<lambda>g.
     c_bind (piecewise_linear_single rnd n3 rn3 (b_map M)) (\<lambda>b.
     Inr \<lparr>r_map = r, g_map = g, b_map = b\<rparr>)))"

text \<open>The loops over \<open>j\<close> and \<open>k\<close> of \<open>cubic_curve_single\<close>. With two points at the same place there is a quotient by zero, and the
  sum is infinite or no number.\<close>

definition fraction :: "(rat \<Rightarrow> rat) \<Rightarrow> (rat \<times> rat) list \<Rightarrow> rat \<Rightarrow> nat \<Rightarrow> rat" where
  "fraction rnd point t j =
     fold (\<lambda>k f. if k \<noteq> j then rnd (rnd (f * rnd (t - fst (point ! k))) / rnd (fst (point ! j) - fst (point ! k))) else f) [0..<4] (snd (point ! j))"

definition cubic_value :: "(rat \<Rightarrow> rat) \<Rightarrow> (rat \<times> rat) list \<Rightarrow> int \<Rightarrow> rat" where
  "cubic_value rnd point i = fold (\<lambda>j result. rnd (result + fraction rnd point (rnd (of_int i / 255)) j)) [0..<4] 0"

fun cubic_loop :: "(rat \<Rightarrow> rat) \<Rightarrow> (rat \<times> rat) list \<Rightarrow> int list \<Rightarrow> int list \<Rightarrow> int list c_result" where
  "cubic_loop rnd point [] m = Inr m"
| "cubic_loop rnd point (i # is) m =
     (if \<not> distinct (map fst point) then Inl Signed_overflow
      else c_bind (to_int (rnd (cubic_value rnd point i * 255))) (\<lambda>v. c_bind (arr_set m i v) (cubic_loop rnd point is)))"

definition cubic_curve_single :: "(rat \<Rightarrow> rat) \<Rightarrow> (rat \<times> rat) list \<Rightarrow> int list \<Rightarrow> int list c_result" where
  "cubic_curve_single rnd point color_map = cubic_loop rnd point [0..255] color_map"

definition cubic_curve_RGB :: "(rat \<Rightarrow> rat) \<Rightarrow> (rat \<times> rat) list \<Rightarrow> (rat \<times> rat) list \<Rightarrow> (rat \<times> rat) list \<Rightarrow> manipulation_map \<Rightarrow> manipulation_map c_result" where
  "cubic_curve_RGB rnd R_point G_point B_point M =
     c_bind (cubic_curve_single rnd R_point (r_map M)) (\<lambda>r.
     c_bind (cubic_curve_single rnd G_point (g_map M)) (\<lambda>g.
     c_bind (cubic_curve_single rnd B_point (b_map M)) (\<lambda>b.
     Inr \<lparr>r_map = r, g_map = g, b_map = b\<rparr>)))"

fun color_loop :: "manipulation_map \<Rightarrow> int list \<Rightarrow> RGB list \<Rightarrow> RGB list c_result" where
  "color_loop M [] m = Inr m"
| "color_loop M (i # is) m =
     c_bind (arr_get m i) (\<lambda>p.
     c_bind (arr_get (r_map M) (uint (red p))) (\<lambda>r.
     c_bind (arr_get (g_map M) (uint (green p))) (\<lambda>g.
     c_bind (arr_get (b_map M) (uint (blue p))) (\<lambda>b.
     c_bind (arr_set m i \<lparr>red = word_of_int r, green = word_of_int g, blue = word_of_int b\<rparr>) (color_loop M is)))))"

text \<open>The indices \<open>y * width + x\<close> in the order of the loops over \<open>y\<close> and \<open>x\<close>.\<close>

definition raster :: "int \<Rightarrow> int \<Rightarrow> int list" where
  "raster w h = concat (map (\<lambda>y. map (\<lambda>x. y * w + x) [0..w - 1]) [0..h - 1])"

definition color_manipulation :: "manipulation_map \<Rightarrow> myppm \<Rightarrow> myppm c_result" where
  "color_manipulation M P =
     c_bind (color_loop M (raster (width P) (height P)) (pixel_map P)) (\<lambda>m. Inr (P\<lparr>pixel_map := m\<rparr>))"

subsection \<open>Hue, saturation and value (pr03.cpp)\<close>

definition RGBtoHSV :: "(rat \<Rightarrow> rat) \<Rightarrow> int \<Rightarrow> int \<Rightarrow> int \<Rightarrow> rat \<times> rat \<times> rat" where
  "RGBtoHSV rnd r g b =
     (let RED = rnd (of_int r / 255); GREEN = rnd (of_int g / 255); BLUE = rnd (of_int b / 255);
          mx = max RED (max GREEN BLUE);
          mn = min RED (min GREEN BLUE);
          v = mx
      in if mx = 0 then (0, 0, v)
         else
           let s = rnd (rnd (mx - mn) / mx);
               delta = rnd (mx - mn)
           in if delta = 0 then (0, s, v)
              else
                let h1 = (if RED = mx then rnd (rnd (GREEN - BLUE) / delta)
                          else if GREEN = mx then rnd (2 + rnd (rnd (BLUE - RED) / delta))
                          else rnd (4 + rnd (rnd (RED - GREEN) / delta)));
                    h2 = rnd (h1 * 60)
                in (if h2 < 0 then rnd (h2 + 360) else h2, s, v))"

text \<open>\<open>fmod\<close> is exact.\<close>

definition fmod :: "rat \<Rightarrow> rat \<Rightarrow> rat" where
  "fmod x y = x - of_int (trunc (x / y)) * y"

text \<open>For a hue of exactly 240 none of the branches is taken and the three variables are never set.\<close>

definition HSVtoRGB :: "(rat \<Rightarrow> rat) \<Rightarrow> rat \<Rightarrow> rat \<Rightarrow> rat \<Rightarrow> (int \<times> int \<times> int) c_result" where
  "HSVtoRGB rnd h s v =
     (let intermediate1 = rnd (s * v);
          intermediate2 = rnd (intermediate1 * rnd (1 - \<bar>rnd (fmod (rnd (h / 60)) 2 - 1)\<bar>));
          n = rnd (v - intermediate1);
          channels =
            (if h < 120 then Some (if h < 60 then 1 else intermediate2, if h < 60 then intermediate2 else 1, 0)
             else if h < 240 then Some (0, if h < 180 then 1 else intermediate2, if h < 180 then intermediate2 else 1)
             else if h > 240 then Some (if h < 300 then intermediate2 else 1, 0, if h < 300 then 1 else intermediate2)
             else None)
      in case channels of None \<Rightarrow> Inl Uninitialised
         | Some (R, G, B) \<Rightarrow>
             c_bind (to_int (rnd (rnd (R + n) * 255))) (\<lambda>r.
             c_bind (to_int (rnd (rnd (G + n) * 255))) (\<lambda>g.
             c_bind (to_int (rnd (rnd (B + n) * 255))) (\<lambda>b. Inr (r, g, b)))))"

definition change_pixel :: "(rat \<Rightarrow> rat) \<Rightarrow> RGB \<Rightarrow> RGB \<Rightarrow> RGB c_result" where
  "change_pixel rnd control output =
     (case RGBtoHSV rnd (uint (red control)) (uint (green control)) (uint (blue control)) of (Hue, _, _) \<Rightarrow>
      case RGBtoHSV rnd (uint (red output)) (uint (green output)) (uint (blue output)) of (_, SaturationFinal, ValueFinal) \<Rightarrow>
      c_bind (HSVtoRGB rnd Hue SaturationFinal ValueFinal) (\<lambda>(r, g, b).
      Inr \<lparr>red = word_of_int r, green = word_of_int g, blue = word_of_int b\<rparr>))"

fun change_loop :: "(rat \<Rightarrow> rat) \<Rightarrow> int list \<Rightarrow> RGB list \<Rightarrow> RGB list \<Rightarrow> RGB list c_result" where
  "change_loop rnd [] ctl m = Inr m"
| "change_loop rnd (i # is) ctl m =
     c_bind (arr_get ctl i) (\<lambda>c. c_bind (arr_get m i) (\<lambda>q. c_bind (change_pixel rnd c q) (\<lambda>p.
     c_bind (arr_set m i p) (change_loop rnd is ctl))))"

definition change_hue :: "(rat \<Rightarrow> rat) \<Rightarrow> myppm \<Rightarrow> myppm \<Rightarrow> myppm c_result" where
  "change_hue rnd control output =
     c_bind (change_loop rnd (raster (width control) (height control)) (pixel_map control) (pixel_map output))
       (\<lambda>m. Inr (output\<lparr>pixel_map := m\<rparr>))"

subsection \<open>The program\<close>

text \<open>\<open>main\<close> up to the display of \<open>pixel_map\<close>. The object \<open>ppm\<close> is global and starts with zeros; the local \<open>control\<close> starts with an
  indeterminate height \<open>h0\<close>. The constants are rounded to doubles. With an unknown mode nothing is read.\<close>

definition ppm0 :: myppm where
  "ppm0 = \<lparr>width = 0, height = 0, RGB_range = 0, pixel_map = [], new_map = []\<rparr>"

definition RGB_map0 :: manipulation_map where
  "RGB_map0 = \<lparr>r_map = replicate 256 0, g_map = replicate 256 0, b_map = replicate 256 0\<rparr>"

definition pr03_main :: "(rat \<Rightarrow> rat) \<Rightarrow> (nat \<Rightarrow> RGB) \<Rightarrow> int \<Rightarrow> (byte list \<Rightarrow> byte list option) \<Rightarrow> byte list list \<Rightarrow> myppm c_result" where
  "pr03_main rnd junk h0 fs argv =
     (if length argv \<le> 2 then Inl Exit_called
      else if argv ! 1 = lit ''linear''
      then c_bind (ppm_init junk 0 (fs (argv ! 2))) (\<lambda>ppm.
           c_bind (piecewise_linear_RGB rnd 5 (map rnd [0, 1 / 2, 3 / 5, 4 / 5, 9 / 10, 1]) 5 (map rnd [0, 1 / 5, 2 / 5, 3 / 5, 4 / 5, 1])
             5 (map rnd [0, 1 / 5, 2 / 5, 3 / 5, 4 / 5, 1]) RGB_map0) (\<lambda>M. color_manipulation M ppm))
      else if argv ! 1 = lit ''cubic''
      then let point = [(0, 1 / 2), (1 / 4, 3 / 4), (3 / 4, 1 / 4), (1, 1 / 2)] in
           c_bind (ppm_init junk 0 (fs (argv ! 2))) (\<lambda>ppm.
           c_bind (cubic_curve_RGB rnd point point point RGB_map0) (\<lambda>M. color_manipulation M ppm))
      else if argv ! 1 = lit ''hue''
      then c_bind (ppm_init junk h0 (fs (argv ! 2))) (\<lambda>control.
           if length argv = 3 then Inl Null_deref
           else c_bind (ppm_init junk 0 (fs (argv ! 3))) (\<lambda>ppm. change_hue rnd control ppm))
      else Inr ppm0)"

subsection \<open>Applying a table\<close>

lemma raster_upt:
  assumes "0 \<le> w" and "0 \<le> h"
  shows "raster w h = map int [0..<nat (w * h)]"
proof -
  have "raster (int n) (int k) = map int [0..<k * n]" for n k
  proof (induction k)
    case 0
    then show ?case by (simp add: raster_def)
  next
    case (Suc k)
    have "[0..int (Suc k) - 1] = [0..int k - 1] @ [int k]" by (simp add: upto_rec2)
    then have "raster (int n) (int (Suc k)) = raster (int n) (int k) @ map int [k * n..<k * n + n]"
      by (simp add: raster_def row_indices)
    with Suc upt_add_eq_append [of 0 "k * n" n] show ?case by (simp add: add.commute del: of_nat_Suc)
  qed
  from this [of "nat w" "nat h"] assms show ?thesis by (simp add: nat_mult_distrib mult.commute)
qed

definition tables_ok :: "manipulation_map \<Rightarrow> bool" where
  "tables_ok M \<longleftrightarrow> length (r_map M) = 256 \<and> length (g_map M) = 256 \<and> length (b_map M) = 256"

definition mapped_px :: "manipulation_map \<Rightarrow> RGB \<Rightarrow> RGB" where
  "mapped_px M p = \<lparr>red = word_of_int (r_map M ! unat (red p)), green = word_of_int (g_map M ! unat (green p)),
     blue = word_of_int (b_map M ! unat (blue p))\<rparr>"

lemma byte_lt: "uint (b :: byte) < 256"
  using uint_lt2p [of b] by simp

lemma arr_get_byte: "length t = 256 \<Longrightarrow> arr_get t (uint (b :: byte)) = Inr (t ! unat b)"
  using byte_lt [of b] by (simp add: arr_get_def)

lemma color_loop_map:
  assumes "tables_ok M"
  shows "color_loop M (map int [length a..<length a + length ps]) (a @ ps) = Inr (a @ map (mapped_px M) ps)"
proof (induction ps arbitrary: a)
  case Nil
  then show ?case by simp
next
  case (Cons p ps)
  have up: "[length a..<length a + length (p # ps)] = length a # [length (a @ [mapped_px M p])..<length (a @ [mapped_px M p]) + length ps]"
    by (simp add: upt_conv_Cons del: upt_Suc)
  have "arr_get (a @ p # ps) (int (length a)) = Inr p" by (simp add: arr_get_def)
  moreover have "arr_set (a @ p # ps) (int (length a)) v = Inr ((a @ [v]) @ ps)" for v by (simp add: arr_set_def)
  ultimately show ?case unfolding up using assms Cons.IH [of "a @ [mapped_px M p]"]
    by (simp add: arr_get_byte tables_ok_def mapped_px_def del: upt_Suc)
qed

text \<open>\<open>color_manipulation\<close> replaces every channel of every pixel by its entry in the table, taken modulo 256. With tables of 256 entries
  no lookup is out of bounds.\<close>

lemma color_manipulation_eq:
  assumes "wf_image P" and "tables_ok M"
  shows "color_manipulation M P = Inr (P\<lparr>pixel_map := map (mapped_px M) (pixel_map P)\<rparr>)"
  using assms(1) color_loop_map [OF assms(2), of "[]" "pixel_map P"]
  by (simp add: color_manipulation_def wf_image_def raster_upt)

subsection \<open>Piecewise linear tables\<close>

lemma segment_loop_spec:
  assumes "l \<le> of_int i" and "0 \<le> i" and "i \<le> e" and "e = \<lceil>r\<rceil>" and "e \<le> int (length m)"
    and "\<And>k. i \<le> k \<Longrightarrow> k < e \<Longrightarrow> in_int (trunc (v k))"
  shows "\<exists>m'. segment_loop v l r i m = Inr (e, m') \<and> length m' = length m \<and>
    (\<forall>k. 0 \<le> k \<longrightarrow> k < int (length m) \<longrightarrow> m' ! nat k = (if i \<le> k \<and> k < e then trunc (v k) else m ! nat k))"
  using assms
proof (induction "nat (e - i)" arbitrary: i m)
  case 0
  then have "i = e" by simp
  then have "segment_loop v l r i m = Inr (e, m)" using 0 by (subst segment_loop.simps) (simp add: less_ceiling_iff [symmetric])
  then show ?case by (intro exI [of _ m]) (use \<open>i = e\<close> in simp)
next
  case (Suc d)
  then have lt: "i < e" by simp
  then have r: "of_int i < r" using Suc.prems(4) by (simp add: less_ceiling_iff)
  let ?m = "m[nat i := trunc (v i)]"
  have step: "segment_loop v l r i m = segment_loop v l r (i + 1) ?m"
    using Suc.prems lt r by (subst segment_loop.simps) (simp add: to_int_def arr_set_def)
  have "d = nat (e - (i + 1))" using Suc.hyps(2) by simp
  moreover have "l \<le> of_int (i + 1)" using Suc.prems(1) by simp
  ultimately obtain m' where m': "segment_loop v l r (i + 1) ?m = Inr (e, m')" "length m' = length m"
    "\<And>k. 0 \<le> k \<Longrightarrow> k < int (length m) \<Longrightarrow> m' ! nat k = (if i + 1 \<le> k \<and> k < e then trunc (v k) else ?m ! nat k)"
    using Suc.hyps(1) [of "i + 1" ?m] Suc.prems lt by auto
  have "m' ! nat k = (if i \<le> k \<and> k < e then trunc (v k) else m ! nat k)" if "0 \<le> k" "k < int (length m)" for k
    using m'(3) [OF that] that Suc.prems(2) lt by (cases "k = i") (auto simp: nth_list_update eq_nat_nat_iff)
  with step m' show ?case by auto
qed

definition boundary :: "(rat \<Rightarrow> rat) \<Rightarrow> int \<Rightarrow> int \<Rightarrow> rat" where
  "boundary rnd n i = rnd (dot_x rnd n i * 255)"

definition curve_value :: "(rat \<Rightarrow> rat) \<Rightarrow> int \<Rightarrow> rat list \<Rightarrow> int \<Rightarrow> int \<Rightarrow> rat" where
  "curve_value rnd n rn i = segment_value rnd (linear_slope rnd n rn i) (dot_x rnd n i) (rn ! nat i)"

lemma rounding_facts:
  assumes "rounding rnd"
  shows "x \<le> y \<Longrightarrow> rnd x \<le> rnd y" and "rnd 0 = 0" and "rnd 1 = 1" and "rnd 255 = 255"
  using assms rounding_between [OF assms, of 0 0 0] rounding_between [OF assms, of 1 1 1] rounding_between [OF assms, of 255 255 255]
  by (auto simp: rounding_def mono_def)

lemma dot_x_mono:
  assumes "rounding rnd" and "0 \<le> i" and "i < n"
  shows "0 \<le> dot_x rnd n i" "dot_x rnd n i \<le> dot_x rnd n (i + 1)" "dot_x rnd n (i + 1) \<le> 1"
proof -
  note rf = rounding_facts [OF assms(1)]
  have q: "0 \<le> of_int j / (of_int n :: rat)" "of_int j / (of_int n :: rat) \<le> 1" if "0 \<le> j" "j \<le> n" for j
    using that assms(2,3) by (simp_all add: field_simps)
  show "0 \<le> dot_x rnd n i" using rf(1) [OF q(1) [of i]] rf(2) assms by (simp add: dot_x_def)
  show "dot_x rnd n (i + 1) \<le> 1" using rf(1) [OF q(2) [of "i + 1"]] rf(3) assms by (simp add: dot_x_def)
  have "of_int i / (of_int n :: rat) \<le> of_int (i + 1) / of_int n" using assms by (simp add: field_simps)
  with rf(1) [OF this] rf(1) [OF q(2) [of i]] rf(3) assms show "dot_x rnd n i \<le> dot_x rnd n (i + 1)" by (auto simp: dot_x_def)
qed

lemma boundary_mono:
  assumes "rounding rnd" and "0 \<le> i" and "i < n"
  shows "0 \<le> boundary rnd n i" "boundary rnd n i \<le> boundary rnd n (i + 1)" "boundary rnd n (i + 1) \<le> 255"
proof -
  note rf = rounding_facts [OF assms(1)] and d = dot_x_mono [OF assms]
  show "0 \<le> boundary rnd n i" using rf(1) [of 0 "dot_x rnd n i * 255"] rf(2) d(1) by (simp add: boundary_def)
  show "boundary rnd n i \<le> boundary rnd n (i + 1)" unfolding boundary_def using d(2) by (intro rf(1)) simp
  show "boundary rnd n (i + 1) \<le> 255" using rf(1) [of "dot_x rnd n (i + 1) * 255" 255] rf(4) d(3) by (simp add: boundary_def)
qed

lemma boundary_ends: "rounding rnd \<Longrightarrow> 0 < n \<Longrightarrow> boundary rnd n 0 = 0" "rounding rnd \<Longrightarrow> boundary rnd n n = 255"
  by (simp_all add: boundary_def dot_x_def rounding_facts)

lemma segments_spec:
  assumes "rounding rnd" and "0 \<le> i" and "i \<le> n" and "length m = 256"
    and "\<And>j k. 0 \<le> j \<Longrightarrow> j < n \<Longrightarrow> 0 \<le> k \<Longrightarrow> k < 255 \<Longrightarrow> in_int (trunc (curve_value rnd n rn j k))"
  shows "\<exists>m'. segments rnd n rn [i..n - 1] \<lceil>boundary rnd n i\<rceil> m = Inr (\<lceil>boundary rnd n n\<rceil>, m') \<and> length m' = 256 \<and>
    (\<forall>k. 0 \<le> k \<and> of_int k < boundary rnd n i \<longrightarrow> m' ! nat k = m ! nat k) \<and>
    (\<forall>k. boundary rnd n i \<le> of_int k \<and> k < 255 \<longrightarrow>
      (\<exists>j. i \<le> j \<and> j < n \<and> boundary rnd n j \<le> of_int k \<and> of_int k < boundary rnd n (j + 1) \<and> m' ! nat k = trunc (curve_value rnd n rn j k)))"
  using assms(2-4)
proof (induction "nat (n - i)" arbitrary: i m)
  case 0
  then have "i = n" by simp
  then show ?case using boundary_ends(2) [OF assms(1), of n] 0 by (intro exI [of _ m]) auto
next
  case (Suc d)
  then have lt: "i < n" by simp
  let ?l = "boundary rnd n i" and ?r = "boundary rnd n (i + 1)"
  note b = boundary_mono [OF assms(1) Suc.prems(1) lt]
  have c: "0 \<le> \<lceil>?l\<rceil>" "\<lceil>?l\<rceil> \<le> \<lceil>?r\<rceil>" "\<lceil>?r\<rceil> \<le> 255" using b(1,3) ceiling_mono [OF b(2)] by (auto simp: ceiling_le_iff)
  obtain m1 where m1: "segment_loop (curve_value rnd n rn i) ?l ?r \<lceil>?l\<rceil> m = Inr (\<lceil>?r\<rceil>, m1)" "length m1 = 256"
    "\<And>k. 0 \<le> k \<Longrightarrow> k < 256 \<Longrightarrow> m1 ! nat k = (if \<lceil>?l\<rceil> \<le> k \<and> k < \<lceil>?r\<rceil> then trunc (curve_value rnd n rn i k) else m ! nat k)"
    using segment_loop_spec [of ?l "\<lceil>?l\<rceil>" "\<lceil>?r\<rceil>" ?r m "curve_value rnd n rn i"] c Suc.prems(1,3) lt assms(5) by auto
  have "d = nat (n - (i + 1))" "0 \<le> i + 1" "i + 1 \<le> n" using Suc.hyps(2) Suc.prems(1) lt by simp_all
  from Suc.hyps(1) [OF this m1(2)] obtain m' where m':
    "segments rnd n rn [i + 1..n - 1] \<lceil>?r\<rceil> m1 = Inr (\<lceil>boundary rnd n n\<rceil>, m')" "length m' = 256"
    "\<And>k. 0 \<le> k \<Longrightarrow> of_int k < ?r \<Longrightarrow> m' ! nat k = m1 ! nat k"
    "\<And>k. ?r \<le> of_int k \<Longrightarrow> k < 255 \<Longrightarrow>
      \<exists>j. i + 1 \<le> j \<and> j < n \<and> boundary rnd n j \<le> of_int k \<and> of_int k < boundary rnd n (j + 1) \<and> m' ! nat k = trunc (curve_value rnd n rn j k)"
    by blast
  have "[i..n - 1] = i # [i + 1..n - 1]" using lt by (simp add: upto_rec1)
  then have run: "segments rnd n rn [i..n - 1] \<lceil>?l\<rceil> m = Inr (\<lceil>boundary rnd n n\<rceil>, m')"
    using m1(1) m'(1) by (simp add: boundary_def curve_value_def)
  have low: "m' ! nat k = m ! nat k" if "0 \<le> k" "of_int k < ?l" for k
  proof -
    have "of_int k < ?r" "k < 256" "\<not> \<lceil>?l\<rceil> \<le> k" using that b by (auto simp: ceiling_le_iff)
    then show ?thesis using m'(3) m1(3) that by simp
  qed
  have high: "\<exists>j. i \<le> j \<and> j < n \<and> boundary rnd n j \<le> of_int k \<and> of_int k < boundary rnd n (j + 1) \<and> m' ! nat k = trunc (curve_value rnd n rn j k)"
    if kb: "?l \<le> of_int k" "k < 255" for k
  proof (cases "of_int k < ?r")
    case True
    have "0 \<le> k" using that(1) b(1) by (metis of_int_0_le_iff order_trans)
    then have "m' ! nat k = trunc (curve_value rnd n rn i k)"
      using m'(3) m1(3) True that by (simp add: ceiling_le_iff less_ceiling_iff)
    with True that lt show ?thesis by (intro exI [of _ i]) simp
  next
    case False
    then obtain j where "i + 1 \<le> j" "j < n" "boundary rnd n j \<le> of_int k" "of_int k < boundary rnd n (j + 1)"
      "m' ! nat k = trunc (curve_value rnd n rn j k)" using m'(4) [of k] kb(2) by auto
    then show ?thesis by (intro exI [of _ j]) simp
  qed
  show ?case using run m'(2) low high by blast
qed

lemma trunc_between: "of_int a \<le> x \<Longrightarrow> x \<le> of_int b \<Longrightarrow> a \<le> trunc x \<and> trunc x \<le> b"
proof -
  assume "of_int a \<le> x" "x \<le> of_int b"
  moreover from this have "of_int a \<le> (of_int \<lceil>x\<rceil> :: rat)" "of_int \<lfloor>x\<rfloor> \<le> (of_int b :: rat)"
    using le_of_int_ceiling [of x] of_int_floor_le [of x] by linarith+
  ultimately show ?thesis by (simp add: trunc_def ceiling_le_iff le_floor_iff)
qed

lemma curve_value_int:
  assumes "rounding rnd" and "\<forall>v\<in>set rn. 0 \<le> v \<and> v \<le> 1" and "n < int (length rn)" and "255 * (n + 1) \<le> INT_MAX"
    and "0 \<le> j" and "j < n" and "0 \<le> k" and "k < 255"
  shows "in_int (trunc (curve_value rnd n rn j k))"
proof -
  note rb = rounding_between [OF assms(1)] and d = dot_x_mono [OF assms(1,5,6)]
  have n: "0 < n" "n \<le> 2 ^ 53 - 1" "255 * (n + 1) \<le> 2 ^ 53" using assms(4-6) by (auto simp: INT_MAX_def)
  have y: "0 \<le> rn ! nat i" "rn ! nat i \<le> 1" if "0 \<le> i" "i \<le> n" for i using assms(2,3) that by (auto simp: nat_less_iff)
  let ?d = "rnd (rn ! nat (j + 1) - rn ! nat j)" and ?x = "rnd (rnd (of_int k / 255) - dot_x rnd n j)"
  have "- 1 \<le> ?d \<and> ?d \<le> 1" using rb [of "- 1" _ 1] y [of j] y [of "j + 1"] assms(5,6) by simp
  then have "\<bar>?d * of_int n\<bar> \<le> of_int n" using n by (simp add: abs_mult abs_le_iff mult_left_le_one_le)
  then have k: "\<bar>linear_slope rnd n rn j\<bar> \<le> of_int n"
    using rb [of "- n" "?d * of_int n" n] n by (simp add: linear_slope_def abs_le_iff)
  have "0 \<le> rnd (of_int k / 255) \<and> rnd (of_int k / 255) \<le> 1" using rb [of 0 "of_int k / 255" 1] assms(7,8) by simp
  then have "- 1 \<le> ?x \<and> ?x \<le> 1" using rb [of "- 1" "rnd (of_int k / 255) - dot_x rnd n j" 1] d by simp
  then have "\<bar>linear_slope rnd n rn j * ?x\<bar> \<le> of_int n * 1" unfolding abs_mult using k by (intro mult_mono) auto
  then have p: "\<bar>rnd (linear_slope rnd n rn j * ?x)\<bar> \<le> of_int n"
    using rb [of "- n" "linear_slope rnd n rn j * ?x" n] n by (simp add: abs_le_iff)
  let ?s = "rnd (linear_slope rnd n rn j * ?x) + rn ! nat j"
  have "of_int (- n - 1) \<le> ?s" "?s \<le> of_int (n + 1)" using p y [of j] assms(5,6) by (auto simp: abs_le_iff)
  then have s: "of_int (- n - 1) \<le> rnd ?s \<and> rnd ?s \<le> of_int (n + 1)" using rb [of "- n - 1" ?s "n + 1"] n by simp
  then have "of_int (- 255 * (n + 1)) \<le> rnd ?s * 255" "rnd ?s * 255 \<le> of_int (255 * (n + 1))" by auto
  then have "of_int (- 255 * (n + 1)) \<le> curve_value rnd n rn j k \<and> curve_value rnd n rn j k \<le> of_int (255 * (n + 1))"
    unfolding curve_value_def segment_value_def using n by (intro rb) simp_all
  from trunc_between [OF conjunct1 [OF this] conjunct2 [OF this]] assms(4) show ?thesis by (auto simp: in_int_def)
qed

lemma piecewise_linear_table:
  assumes "rounding rnd" and "0 < n" and "n < int (length rn)" and "255 * (n + 1) \<le> INT_MAX" and "\<forall>v\<in>set rn. 0 \<le> v \<and> v \<le> 1"
    and "length color_map = 256"
  shows "\<exists>m. piecewise_linear_single rnd n rn color_map = Inr m \<and> length m = 256 \<and> m ! 255 = trunc (rnd (255 * rn ! nat n)) \<and>
    (\<forall>k. 0 \<le> k \<and> k < 255 \<longrightarrow> (\<exists>j. 0 \<le> j \<and> j < n \<and> boundary rnd n j \<le> of_int k \<and> of_int k < boundary rnd n (j + 1) \<and>
       m ! nat k = trunc (curve_value rnd n rn j k)))"
proof -
  have "in_int (trunc (curve_value rnd n rn j k))" if "0 \<le> j" "j < n" "0 \<le> k" "k < 255" for j k
    using curve_value_int [OF assms(1,5,3,4) that] .
  from segments_spec [OF assms(1) order_refl _ assms(6) this] obtain m where m:
    "segments rnd n rn [0..n - 1] 0 color_map = Inr (255, m)" "length m = 256"
    "\<And>k. 0 \<le> k \<Longrightarrow> k < 255 \<Longrightarrow> \<exists>j. 0 \<le> j \<and> j < n \<and> boundary rnd n j \<le> of_int k \<and> of_int k < boundary rnd n (j + 1) \<and>
       m ! nat k = trunc (curve_value rnd n rn j k)"
    using assms(2) boundary_ends [OF assms(1)] by auto
  have "rn ! nat n \<in> set rn" using assms(2,3) by (simp add: nat_less_iff)
  then have "0 \<le> rn ! nat n" "rn ! nat n \<le> 1" using assms(5) by auto
  then have v: "in_int (trunc (rnd (255 * rn ! nat n)))"
    using rounding_between [OF assms(1), of 0 "255 * rn ! nat n" 255] trunc_between [of 0 "rnd (255 * rn ! nat n)" 255]
    by (simp add: in_int_def INT_MAX_def)
  let ?m = "m[255 := trunc (rnd (255 * rn ! nat n))]"
  have "piecewise_linear_single rnd n rn color_map = Inr ?m"
    using assms(2,3) m(1,2) v by (simp add: piecewise_linear_single_def to_int_def arr_set_def)
  moreover have "?m ! nat k = m ! nat k" if "0 \<le> k" "k < 255" for k using that by (simp add: nth_list_update_neq)
  ultimately show ?thesis using m by (intro exI [of _ ?m]) auto
qed

text \<open>Claim C24: \<open>piecewise_linear_single\<close> fills its table. For points of the unit interval and a machine that rounds correctly it
  terminates without access out of bounds, although the end of the loop is found by comparing floating-point boundaries: every index below
  255 lies in exactly the segment whose boundaries enclose it and gets the value of the curve there, and index 255 gets the last point.\<close>

theorem piecewise_linear_fills:
  assumes "rounding rnd" and "0 < n" and "n < int (length rn)" and "255 * (n + 1) \<le> INT_MAX" and "\<forall>v\<in>set rn. 0 \<le> v \<and> v \<le> 1"
    and "length color_map = 256"
  shows "\<exists>m. piecewise_linear_single rnd n rn color_map = Inr m \<and> length m = 256 \<and> m ! 255 = trunc (rnd (255 * rn ! nat n)) \<and>
    (\<forall>k. 0 \<le> k \<and> k < 255 \<longrightarrow> (\<exists>j. 0 \<le> j \<and> j < n \<and> boundary rnd n j \<le> of_int k \<and> of_int k < boundary rnd n (j + 1) \<and>
       m ! nat k = trunc (curve_value rnd n rn j k)))"
  by (rule piecewise_linear_table [OF assms])

theorem piecewise_linear_fills_witness:
  "\<exists>m. piecewise_linear_single (\<lambda>x. x) 5 [0, 1 / 2, 3 / 5, 4 / 5, 9 / 10, 1] (replicate 256 0) = Inr m \<and> length m = 256 \<and> m ! 255 = 255"
proof -
  have "rounding (\<lambda>x. x)" by (simp add: rounding_def exact_ints_def mono_def)
  from piecewise_linear_fills [OF this, of 5 "[0, 1 / 2, 3 / 5, 4 / 5, 9 / 10, 1]" "replicate 256 0"] show ?thesis
    by (auto simp: INT_MAX_def trunc_def)
qed

subsection \<open>Cubic tables\<close>

lemma cubic_loop_spec:
  assumes "distinct (map fst point)" and "\<forall>i\<in>set is. in_int (trunc (rnd (cubic_value rnd point i * 255))) \<and> 0 \<le> i \<and> i < int (length m)"
    and "distinct is"
  shows "\<exists>m'. cubic_loop rnd point is m = Inr m' \<and> length m' = length m \<and>
    (\<forall>i\<in>set is. m' ! nat i = trunc (rnd (cubic_value rnd point i * 255))) \<and> (\<forall>k. int k \<notin> set is \<longrightarrow> m' ! k = m ! k)"
  using assms(2,3)
proof (induction "is" arbitrary: m)
  case Nil
  then show ?case by simp
next
  case (Cons i "is")
  let ?v = "trunc (rnd (cubic_value rnd point i * 255))"
  have step: "cubic_loop rnd point (i # is) m = cubic_loop rnd point is (m[nat i := ?v])"
    using Cons.prems assms(1) by (simp add: to_int_def arr_set_def)
  obtain m' where m': "cubic_loop rnd point is (m[nat i := ?v]) = Inr m'" "length m' = length m"
    "\<forall>i\<in>set is. m' ! nat i = trunc (rnd (cubic_value rnd point i * 255))"
    "\<And>k. int k \<notin> set is \<Longrightarrow> m' ! k = (m[nat i := ?v]) ! k"
    using Cons.IH [of "m[nat i := ?v]"] Cons.prems by auto
  have "m' ! nat i = ?v" using m'(4) [of "nat i"] Cons.prems by (simp add: nat_less_iff)
  moreover have "m' ! k = m ! k" if "int k \<notin> set (i # is)" for k
    using m'(4) [of k] that Cons.prems(1) by (cases "k = nat i") auto
  ultimately show ?case using step m' by (intro exI [of _ m']) simp
qed

lemma fraction_prod:
  "fraction (\<lambda>x. x) point t i =
     snd (point ! i) * (\<Prod>k\<leftarrow>filter (\<lambda>k. k \<noteq> i) [0..<4]. (t - fst (point ! k)) / (fst (point ! i) - fst (point ! k)))"
proof -
  have "fold (\<lambda>k f. if k \<noteq> i then f * (t - fst (point ! k)) / (fst (point ! i) - fst (point ! k)) else f) ks y =
      y * (\<Prod>k\<leftarrow>filter (\<lambda>k. k \<noteq> i) ks. (t - fst (point ! k)) / (fst (point ! i) - fst (point ! k)))" for ks y
    by (induction ks arbitrary: y) (simp_all add: mult.assoc)
  then show ?thesis by (simp add: fraction_def)
qed

lemma fraction_node:
  assumes "distinct (map fst point)" and "length point = 4" and "i < 4" and "j < 4" and "t = fst (point ! j)"
  shows "fraction (\<lambda>x. x) point t i = (if i = j then snd (point ! j) else 0)"
proof (cases "i = j")
  case True
  have "fst (point ! i) \<noteq> fst (point ! k)" if "k < 4" "k \<noteq> i" for k
    using nth_eq_iff_index_eq [OF assms(1), of i k] that assms(2,3) by simp
  then have "map (\<lambda>k. (t - fst (point ! k)) / (fst (point ! i) - fst (point ! k))) (filter (\<lambda>k. k \<noteq> i) [0..<4]) =
      map (\<lambda>k. 1) (filter (\<lambda>k. k \<noteq> i) [0..<4])" using assms(5) True by (intro map_cong) auto
  then show ?thesis using True by (simp add: fraction_prod map_replicate_const prod_list_replicate)
next
  case False
  have "(0 :: rat) \<in> set (map (\<lambda>k. (t - fst (point ! k)) / (fst (point ! i) - fst (point ! k))) (filter (\<lambda>k. k \<noteq> i) [0..<4]))"
    using assms(4,5) False by (auto intro!: image_eqI [of _ _ j])
  then show ?thesis using False by (simp add: fraction_prod prod_list_zero_iff)
qed

text \<open>Four points of the unit square whose places are at least a hundredth apart.\<close>

definition points_ok :: "(rat \<times> rat) list \<Rightarrow> bool" where
  "points_ok point \<longleftrightarrow> length point = 4 \<and> (\<forall>p\<in>set point. 0 \<le> fst p \<and> fst p \<le> 1 \<and> 0 \<le> snd p \<and> snd p \<le> 1) \<and>
     (\<forall>i<4. \<forall>k<4. i \<noteq> k \<longrightarrow> 1 / 100 \<le> \<bar>fst (point ! i) - fst (point ! k)\<bar>)"

lemma prod_list_bound: "\<forall>x\<in>set xs. \<bar>x\<bar> \<le> c \<Longrightarrow> \<bar>prod_list xs\<bar> \<le> (c :: rat) ^ length xs"
proof (induction xs)
  case (Cons x xs)
  then have "\<bar>x\<bar> * \<bar>prod_list xs\<bar> \<le> c * c ^ length xs" by (intro mult_mono) auto
  then show ?case by (simp add: abs_mult)
qed simp

lemma fraction_bound:
  assumes "points_ok point" and "i < 4" and "0 \<le> t" and "t \<le> 1"
  shows "\<bar>fraction (\<lambda>x. x) point t i\<bar> \<le> 1000000"
proof -
  let ?ks = "filter (\<lambda>k. k \<noteq> i) [0..<4]"
  have p: "0 \<le> fst (point ! k)" "fst (point ! k) \<le> 1" "0 \<le> snd (point ! k)" "snd (point ! k) \<le> 1" if "k < 4" for k
    using assms(1) that unfolding points_ok_def by (metis nth_mem)+
  have "\<bar>(t - fst (point ! k)) / (fst (point ! i) - fst (point ! k))\<bar> \<le> 100" if "k < 4" "k \<noteq> i" for k
  proof -
    have d: "1 / 100 \<le> \<bar>fst (point ! i) - fst (point ! k)\<bar>" using assms(1,2) that unfolding points_ok_def by blast
    have "\<bar>t - fst (point ! k)\<bar> \<le> 1" using assms(3,4) p [OF that(1)] by (simp add: abs_le_iff)
    with d show ?thesis by (simp add: abs_divide divide_le_eq)
  qed
  then have "\<bar>\<Prod>k\<leftarrow>?ks. (t - fst (point ! k)) / (fst (point ! i) - fst (point ! k))\<bar> \<le> 100 ^ length ?ks"
    using prod_list_bound [of "map (\<lambda>k. (t - fst (point ! k)) / (fst (point ! i) - fst (point ! k))) ?ks" 100] by simp
  also have "length ?ks = 3" using assms(2) by (auto simp: numeral_eq_Suc less_Suc_eq)
  finally have "\<bar>snd (point ! i)\<bar> * \<bar>\<Prod>k\<leftarrow>?ks. (t - fst (point ! k)) / (fst (point ! i) - fst (point ! k))\<bar> \<le> 1 * 100 ^ 3"
    using p(3,4) [OF assms(2)] by (intro mult_mono) simp_all
  then show ?thesis by (simp add: fraction_prod abs_mult)
qed

lemma upt_4: "[0..<4] = [0, 1, 2, 3 :: nat]"
  by code_simp

lemma cubic_value_int:
  assumes "points_ok point" and "0 \<le> i" and "i \<le> 255"
  shows "in_int (trunc (cubic_value (\<lambda>x. x) point i * 255))"
proof -
  let ?f = "fraction (\<lambda>x. x) point (of_int i / 255)"
  have "\<bar>?f j\<bar> \<le> 1000000" if "j < 4" for j using assms(2,3) by (intro fraction_bound [OF assms(1) that]) simp_all
  from this [of 0] this [of 1] this [of 2] this [of 3]
  have "\<bar>?f 0 + ?f 1 + ?f 2 + ?f 3\<bar> \<le> 4000000" by simp
  then have "of_int (- 1020000000) \<le> cubic_value (\<lambda>x. x) point i * 255" "cubic_value (\<lambda>x. x) point i * 255 \<le> of_int 1020000000"
    unfolding cubic_value_def upt_4 by (auto simp: abs_le_iff)
  from trunc_between [OF this] show ?thesis by (simp add: in_int_def INT_MAX_def)
qed

lemma points_ok_distinct: "points_ok point \<Longrightarrow> distinct (map fst point) \<and> length point = 4"
  by (auto simp: points_ok_def distinct_conv_nth) fastforce

text \<open>In exact arithmetic the table of \<open>cubic_curve_single\<close> passes through its four points, if they lie in the unit square at least a
  hundredth apart; no conversion overflows.\<close>

theorem cubic_interpolates:
  assumes "points_ok point" and "length color_map = 256"
  shows "\<exists>m. cubic_curve_single (\<lambda>x. x) point color_map = Inr m \<and> length m = 256 \<and>
    (\<forall>i j. 0 \<le> i \<and> i < 256 \<and> j < 4 \<and> fst (point ! j) = of_int i / 255 \<longrightarrow> m ! nat i = trunc (snd (point ! j) * 255))"
proof -
  have pt: "distinct (map fst point)" "length point = 4" using points_ok_distinct [OF assms(1)] by simp_all
  have "\<exists>m. cubic_loop (\<lambda>x. x) point [0..255] color_map = Inr m \<and> length m = length color_map \<and>
    (\<forall>i\<in>set [0..255]. m ! nat i = trunc (cubic_value (\<lambda>x. x) point i * 255)) \<and> (\<forall>k. int k \<notin> set [0..255] \<longrightarrow> m ! k = color_map ! k)"
    using cubic_value_int [OF assms(1)] by (intro cubic_loop_spec [OF pt(1)]) (simp_all add: assms(2))
  then obtain m where m: "cubic_loop (\<lambda>x. x) point [0..255] color_map = Inr m" "length m = 256"
    "\<And>i. 0 \<le> i \<Longrightarrow> i < 256 \<Longrightarrow> m ! nat i = trunc (cubic_value (\<lambda>x. x) point i * 255)" using assms(2) by auto
  have "cubic_value (\<lambda>x. x) point i = snd (point ! j)" if "j < 4" "fst (point ! j) = of_int i / 255" for i j
  proof -
    have "j \<in> {0, 1, 2, 3}" using that(1) by auto
    then show ?thesis unfolding cubic_value_def upt_4 using that by (auto simp: fraction_node [OF pt])
  qed
  with m show ?thesis by (auto simp: cubic_curve_single_def)
qed

theorem cubic_interpolates_witness:
  "\<exists>m. cubic_curve_single (\<lambda>x. x) [(0, 1 / 2), (1 / 4, 3 / 4), (3 / 4, 1 / 4), (1, 1 / 2)] (replicate 256 0) = Inr m \<and> m ! 0 = 127 \<and> m ! 255 = 127"
proof -
  let ?p = "[(0, 1 / 2), (1 / 4, 3 / 4), (3 / 4, 1 / 4), (1, 1 / 2)] :: (rat \<times> rat) list"
  have "points_ok ?p" by (auto simp: points_ok_def numeral_eq_Suc less_Suc_eq)
  then obtain m where m: "cubic_curve_single (\<lambda>x. x) ?p (replicate 256 0) = Inr m"
    "\<And>i j. 0 \<le> i \<and> i < 256 \<and> j < 4 \<and> fst (?p ! j) = of_int i / 255 \<Longrightarrow> m ! nat i = trunc (snd (?p ! j) * 255)"
    using cubic_interpolates [of ?p "replicate 256 0"] by auto
  have "\<lfloor>255 / 2 :: rat\<rfloor> = 127" by (simp add: floor_eq_iff)
  with m(2) [of 0 0] m(2) [of 255 3] m(1) show ?thesis by (simp add: trunc_def)
qed

subsection \<open>Changing the hue\<close>

lemma RGBtoHSV_get_hue_eq: "fst (RGBtoHSV rnd r g b) = get_hue rnd r g b"
  by (simp add: RGBtoHSV_def get_hue_def Let_def)

text \<open>The relative error of a rounded result of moderate size.\<close>

definition precise :: "(rat \<Rightarrow> rat) \<Rightarrow> bool" where
  "precise rnd \<longleftrightarrow> rounding rnd \<and> (\<forall>x. 1 / 1000 \<le> \<bar>x\<bar> \<and> \<bar>x\<bar> \<le> 1000 \<longrightarrow> \<bar>rnd x - x\<bar> \<le> \<bar>x\<bar> / 2 ^ 53)"

lemma precise_near:
  assumes "precise rnd" and "1 / 1000 \<le> x" and "x \<le> 1"
  shows "\<bar>rnd x - x\<bar> \<le> 1 / 10000"
proof -
  have x: "1 / 1000 \<le> \<bar>x\<bar> \<and> \<bar>x\<bar> \<le> 1000" "\<bar>x\<bar> \<le> 1" using assms(2,3) by auto
  then have "\<bar>rnd x - x\<bar> \<le> \<bar>x\<bar> / 2 ^ 53" using assms(1) unfolding precise_def by blast
  also have "\<dots> \<le> 1 / 2 ^ 53" using x(2) by (intro divide_right_mono) simp_all
  also have "\<dots> \<le> 1 / 10000" by simp
  finally show ?thesis .
qed

lemma precise_channel:
  assumes "precise rnd" and "0 \<le> a" and "a < b" and "b \<le> 255"
  shows "rnd (of_int a / 255) + 1 / 1000 \<le> rnd (of_int b / 255)" and "rnd (of_int b / 255) \<le> 1"
proof -
  have r: "rounding rnd" using assms(1) by (simp add: precise_def)
  have b: "1 / 255 \<le> (of_int b / 255 :: rat)" "of_int b / 255 \<le> (1 :: rat)" using assms by simp_all
  show "rnd (of_int b / 255) \<le> 1" using rounding_facts(1,3) [OF r] b(2) by metis
  have nb: "\<bar>rnd (of_int b / 255) - of_int b / 255\<bar> \<le> 1 / 10000" using b by (intro precise_near [OF assms(1)]) simp_all
  have na: "\<bar>rnd (of_int a / 255) - of_int a / 255\<bar> \<le> 1 / 10000"
  proof (cases "a = 0")
    case False
    with assms have "1 / 255 \<le> (of_int a / 255 :: rat)" "of_int a / 255 \<le> (1 :: rat)" by simp_all
    then show ?thesis by (intro precise_near [OF assms(1)]) simp_all
  qed (simp add: rounding_facts(2) [OF r])
  have "of_int a / 255 + 1 / 255 \<le> (of_int b / 255 :: rat)" using assms(3) by (simp add: add_divide_distrib [symmetric] divide_right_mono)
  with na nb show "rnd (of_int a / 255) + 1 / 1000 \<le> rnd (of_int b / 255)" unfolding abs_le_iff by linarith
qed

lemma hue_blue:
  assumes "precise rnd" and "0 \<le> a" and "a < b" and "b \<le> 255"
  shows "get_hue rnd a a b = 240"
proof -
  define A B where "A = rnd (of_int a / 255)" and "B = rnd (of_int b / 255)"
  have r: "rounding rnd" using assms(1) by (simp add: precise_def)
  note rf = rounding_facts [OF r]
  have A: "0 \<le> A" using rf(1) [of 0 "of_int a / 255"] rf(2) assms(2) by (simp add: A_def)
  have d: "A + 1 / 1000 \<le> B" "B \<le> 1" using precise_channel [OF assms] by (simp_all add: A_def B_def)
  then have "\<bar>rnd (B - A) - (B - A)\<bar> \<le> 1 / 10000" using A by (intro precise_near [OF assms(1)]) simp_all
  then have "rnd (B - A) \<noteq> 0" using d by auto
  moreover have "max A (max A B) = B" "min A (min A B) = A" "A \<noteq> B" "B \<noteq> 0" using A d by simp_all
  moreover have "rnd 4 = 4" "rnd 240 = 240" using rounding_between [OF r, of 4 4 4] rounding_between [OF r, of 240 240 240] by simp_all
  ultimately show ?thesis by (simp add: get_hue_def Let_def A_def [symmetric] B_def [symmetric] rf(2))
qed

text \<open>A control image that starts with a pure or whitened blue makes \<open>change_hue\<close> undefined. Its hue is exactly 240, rounding
  included, and \<open>HSVtoRGB\<close> treats hues below and above 240 only, leaving its channels uninitialised.\<close>

theorem change_hue_blue_undefined:
  assumes "precise rnd" and "0 < width control" and "0 < height control" and "pixel_map control = c # ctl" and "pixel_map output \<noteq> []"
    and "red c = green c" and "green c < blue c"
  shows "change_hue rnd control output = Inl Uninitialised"
proof -
  have "get_hue rnd (uint (red c)) (uint (green c)) (uint (blue c)) = 240"
    unfolding assms(6) using assms(7) byte_lt [of "blue c"] by (intro hue_blue [OF assms(1)]) (simp_all add: word_less_def)
  then have "fst (RGBtoHSV rnd (uint (red c)) (uint (green c)) (uint (blue c))) = 240" by (simp only: RGBtoHSV_get_hue_eq)
  moreover have "HSVtoRGB rnd 240 s v = Inl Uninitialised" for s v by (simp add: HSVtoRGB_def Let_def)
  ultimately have px: "change_pixel rnd c q = Inl Uninitialised" for q by (auto simp: change_pixel_def split: prod.splits)
  have "0 < nat (width control * height control)" using assms(2,3) by simp
  then obtain ix where "raster (width control) (height control) = 0 # ix"
    using assms(2,3) by (auto simp: raster_upt gr0_conv_Suc upt_conv_Cons simp del: upt_Suc)
  then show ?thesis using assms(4,5) px by (simp add: change_hue_def arr_get_def)
qed

theorem change_hue_blue_undefined_witness:
  "change_hue (\<lambda>x. x) \<lparr>width = 1, height = 1, RGB_range = 255, pixel_map = [\<lparr>red = 0, green = 0, blue = 255\<rparr>], new_map = []\<rparr> demo_img = Inl Uninitialised"
proof -
  have "precise (\<lambda>x. x)" by (simp add: precise_def rounding_def exact_ints_def mono_def)
  then show ?thesis
    using change_hue_blue_undefined [of "\<lambda>x. x" "\<lparr>width = 1, height = 1, RGB_range = 255, pixel_map = [\<lparr>red = 0, green = 0, blue = 255\<rparr>], new_map = []\<rparr>"
        "\<lparr>red = 0, green = 0, blue = 255\<rparr>" "[]" demo_img] by (simp add: demo_img_def)
qed

lemma change_loop_map2:
  assumes "length ctl = length a + length ps"
    and "\<And>i. i < length ps \<Longrightarrow> change_pixel rnd (ctl ! (length a + i)) (ps ! i) = Inr (g (ps ! i))"
  shows "change_loop rnd (map int [length a..<length a + length ps]) ctl (a @ ps) = Inr (a @ map g ps)"
  using assms
proof (induction ps arbitrary: a)
  case Nil
  then show ?case by simp
next
  case (Cons p ps)
  have up: "[length a..<length a + length (p # ps)] = length a # [length (a @ [g p])..<length (a @ [g p]) + length ps]"
    by (simp add: upt_conv_Cons del: upt_Suc)
  have "change_pixel rnd (ctl ! length a) p = Inr (g p)" using Cons.prems(2) [of 0] by simp
  moreover have "change_pixel rnd (ctl ! (length (a @ [g p]) + i)) (ps ! i) = Inr (g (ps ! i))" if "i < length ps" for i
    using Cons.prems(2) [of "Suc i"] that by simp
  ultimately show ?case unfolding up using Cons.IH [of "a @ [g p]"] Cons.prems(1)
    by (simp add: arr_get_def arr_set_def del: upt_Suc)
qed

definition grey :: "byte \<Rightarrow> RGB" where
  "grey b = \<lparr>red = b, green = b, blue = b\<rparr>"

lemma to_int_of_int: "in_int k \<Longrightarrow> to_int (of_int k) = Inr k"
  by (simp add: to_int_def trunc_def)

lemma change_grey: "change_pixel (\<lambda>x. x) (grey u) (grey v) = Inr \<lparr>red = v - 1, green = v, blue = v\<rparr>"
proof -
  have hsv: "RGBtoHSV (\<lambda>x. x) k k k = (0, 0, of_int k / 255)" for k
    by (auto simp: RGBtoHSV_def Let_def)
  have rgb: "HSVtoRGB (\<lambda>x. x) 0 0 (of_int k / 255) = Inr (255 + k, k, k)" if "0 \<le> k" "k < 256" for k
  proof -
    have "in_int (255 + k)" "in_int k" using that by (simp_all add: in_int_def INT_MAX_def)
    moreover have "(1 + of_int k / 255) * 255 = (of_int (255 + k) :: rat)" "of_int k / 255 * 255 = (of_int k :: rat)" by (simp_all add: field_simps)
    ultimately show ?thesis by (simp only: HSVtoRGB_def Let_def to_int_of_int mult_zero_left diff_zero add_0_left
      zero_less_numeral if_True option.case prod.case c_bind_simps)
  qed
  have "(word_of_int (255 + uint v) :: byte) = v - 1" by (simp add: eq_diff_eq)
  with rgb [of "uint v"] byte_lt [of v] show ?thesis by (simp add: change_pixel_def grey_def hsv)
qed

text \<open>Changing the hue of a grey image to that of a grey image does not keep it. \<open>HSVtoRGB\<close> adds one to the dominant channel where
  the product of saturation and value belongs, so that in exact arithmetic the red channel overflows to the value before, and black
  turns to full red.\<close>

theorem change_hue_tints_grey:
  assumes "wf_image control" and "width control = width P" and "height control = height P" and "wf_image P"
    and "pixel_map control = map grey us" and "pixel_map P = map grey vs"
  shows "change_hue (\<lambda>x. x) control P = Inr (P\<lparr>pixel_map := map (\<lambda>v. \<lparr>red = v - 1, green = v, blue = v\<rparr>) vs\<rparr>)"
proof -
  have len: "length us = nat (width P * height P)" "length vs = nat (width P * height P)"
    using assms by (auto simp: wf_image_def)
  let ?g = "\<lambda>p. p\<lparr>red := red p - 1\<rparr>"
  have grey_red: "\<lparr>red = v - 1, green = v, blue = v\<rparr> = ?g (grey v)" for v by (simp add: grey_def)
  have "change_loop (\<lambda>x. x) (map int [0..<length vs]) (map grey us) (map grey vs) = Inr (map ?g (map grey vs))"
    using len change_loop_map2 [of "map grey us" "[]" "map grey vs" "\<lambda>x. x" ?g] by (simp add: change_grey grey_red)
  moreover have "map ?g (map grey vs) = map (\<lambda>v. \<lparr>red = v - 1, green = v, blue = v\<rparr>) vs" by (simp add: grey_def)
  ultimately show ?thesis using assms len by (simp add: change_hue_def raster_upt wf_image_def)
qed

theorem change_hue_tints_grey_witness:
  "change_hue (\<lambda>x. x) \<lparr>width = 1, height = 1, RGB_range = 255, pixel_map = map grey [7], new_map = map grey [7]\<rparr>
      \<lparr>width = 1, height = 1, RGB_range = 255, pixel_map = map grey [0], new_map = map grey [0]\<rparr> =
    Inr \<lparr>width = 1, height = 1, RGB_range = 255, pixel_map = [\<lparr>red = 255, green = 0, blue = 0\<rparr>], new_map = map grey [0]\<rparr>"
  by (subst change_hue_tints_grey [where us = "[7]" and vs = "[0]"]) (simp_all add: wf_image_def)

subsection \<open>The program in linear mode\<close>

text \<open>The polygon through equidistant points over the unit interval, and the table that holds its values.\<close>

definition polyline :: "rat list \<Rightarrow> rat \<Rightarrow> rat" where
  "polyline vs x =
     (let n = length vs - 1; j = nat \<lfloor>x * of_nat n\<rfloor>
      in if j < n then vs ! j + (x * of_nat n - of_nat j) * (vs ! Suc j - vs ! j) else vs ! n)"

definition polyline_table :: "rat list \<Rightarrow> int list" where
  "polyline_table vs = map (\<lambda>k. \<lfloor>255 * polyline vs (of_nat k / 255)\<rfloor>) [0..<256]"

text \<open>With rounding: every index has the value of the segment whose boundaries enclose it.\<close>

definition segment_table :: "(rat \<Rightarrow> rat) \<Rightarrow> rat list \<Rightarrow> int list \<Rightarrow> bool" where
  "segment_table rnd rn m \<longleftrightarrow> length m = 256 \<and> m ! 255 = trunc (rnd (255 * rn ! 5)) \<and>
     (\<forall>k. 0 \<le> k \<and> k < 255 \<longrightarrow> (\<exists>j. 0 \<le> j \<and> j < 5 \<and> boundary rnd 5 j \<le> of_int k \<and> of_int k < boundary rnd 5 (j + 1) \<and>
        m ! nat k = trunc (curve_value rnd 5 rn j k)))"

lemma piecewise_linear_ok:
  assumes "rounding rnd" and "length m = 256" and "\<forall>v\<in>set rn. 0 \<le> v \<and> v \<le> 1" and "length rn = 6"
  shows "\<exists>m'. piecewise_linear_single rnd 5 (map rnd rn) m = Inr m' \<and> segment_table rnd (map rnd rn) m'"
proof -
  have "\<forall>v\<in>set (map rnd rn). 0 \<le> v \<and> v \<le> 1" using assms(3) rounding_between [OF assms(1), of 0 _ 1] by auto
  from piecewise_linear_table [OF assms(1) _ _ _ this assms(2), of 5] assms(4) show ?thesis by (auto simp: INT_MAX_def segment_table_def)
qed

lemma polyline_bounds:
  assumes "\<forall>v\<in>set vs. 0 \<le> v \<and> v \<le> 1" and "vs \<noteq> []" and "0 \<le> x"
  shows "0 \<le> polyline vs x"
proof -
  let ?n = "length vs - 1" and ?j = "nat \<lfloor>x * of_nat (length vs - 1)\<rfloor>"
  let ?t = "x * of_nat ?n - of_nat ?j"
  have t: "0 \<le> ?t" "?t \<le> 1" using assms(3) by (auto simp: of_nat_nat) linarith+
  have "0 \<le> vs ! ?j + ?t * (vs ! Suc ?j - vs ! ?j)" if "?j < ?n"
  proof -
    have "?j < length vs" "Suc ?j < length vs" using that by linarith+
    then have "0 \<le> vs ! ?j" "0 \<le> vs ! Suc ?j" using assms(1) nth_mem by blast+
    then have "0 \<le> (1 - ?t) * vs ! ?j + ?t * vs ! Suc ?j" using t by simp
    then show ?thesis by (simp add: algebra_simps)
  qed
  moreover have "0 \<le> vs ! ?n" using assms(1,2) by simp
  ultimately show ?thesis unfolding polyline_def Let_def by (cases "?j < ?n") (simp_all only: if_True if_False)
qed

text \<open>In exact arithmetic the table is that of the polygon.\<close>

lemma segment_table_exact:
  assumes "segment_table (\<lambda>x. x) rn m" and "\<forall>v\<in>set rn. 0 \<le> v \<and> v \<le> 1" and "length rn = 6"
  shows "m = polyline_table rn"
proof (rule nth_equalityI)
  show "length m = length (polyline_table rn)" using assms(1) by (simp add: segment_table_def polyline_table_def)
  fix k assume "k < length m"
  then have k: "k < 256" using assms(1) by (simp add: segment_table_def)
  have pos: "trunc (255 * polyline rn x) = \<lfloor>255 * polyline rn x\<rfloor>" if "0 \<le> x" for x
    using polyline_bounds [OF assms(2) _ that] assms(3) by (cases rn) (auto simp: trunc_def)
  show "m ! k = polyline_table rn ! k"
  proof (cases "k = 255")
    case True
    have "polyline rn 1 = rn ! 5" using assms(3) by (simp add: polyline_def)
    with True assms(1) pos [of 1] show ?thesis by (simp add: segment_table_def polyline_table_def)
  next
    case False
    with k have "k < 255" by simp
    then obtain j where j: "0 \<le> j" "j < 5" "boundary (\<lambda>x. x) 5 j \<le> of_nat k" "of_nat k < boundary (\<lambda>x. x) 5 (j + 1)"
        "m ! k = trunc (curve_value (\<lambda>x. x) 5 rn j (int k))"
      using assms(1) unfolding segment_table_def by (metis nat_int of_int_of_nat_eq of_nat_0_le_iff of_nat_less_numeral_iff)
    define i where "i = nat j"
    have i: "j = int i" "i < 5" using j(1,2) by (simp_all add: i_def)
    have b: "of_nat i * 51 \<le> (of_nat k :: rat)" "(of_nat k :: rat) < (of_nat i + 1) * 51"
      using j(3,4) i by (auto simp: boundary_def dot_x_def split: if_splits)
    have "\<lfloor>of_nat k / 255 * (of_nat (length rn - 1) :: rat)\<rfloor> = int i"
      using b by (intro floor_unique) (simp_all add: assms(3))
    then have "polyline rn (of_nat k / 255) = rn ! i + (of_nat k / 51 - of_nat i) * (rn ! Suc i - rn ! i)"
      using i(2) by (simp add: polyline_def assms(3))
    moreover have "curve_value (\<lambda>x. x) 5 rn j (int k) = 255 * (rn ! i + (of_nat k / 51 - of_nat i) * (rn ! Suc i - rn ! i))"
      using i by (simp add: curve_value_def segment_value_def linear_slope_def dot_x_def nat_add_distrib field_simps)
    ultimately show ?thesis using j(5) k pos [of "of_nat k / 255"] by (simp add: polyline_table_def)
  qed
qed

lemma polyline_diagonal:
  assumes "0 \<le> x" and "x \<le> 1"
  shows "polyline [0, 1 / 5, 2 / 5, 3 / 5, 4 / 5, 1] x = x"
proof -
  define vs where "vs = [0, 1 / 5, 2 / 5, 3 / 5, 4 / 5, 1 :: rat]"
  have vs: "length vs = 6" "vs ! i = of_nat i / 5" if "i \<le> 5" for i
    using that by (auto simp: vs_def le_Suc_eq numeral_eq_Suc)
  let ?j = "nat \<lfloor>x * 5\<rfloor>"
  have "polyline vs x = x"
  proof (cases "?j < 5")
    case True
    with vs(1) [of 0] have "polyline vs x = of_nat ?j / 5 + (x * 5 - of_nat ?j) * (of_nat (Suc ?j) / 5 - of_nat ?j / 5)"
      by (simp add: polyline_def Let_def vs(2))
    then show ?thesis by (simp add: field_simps)
  next
    case False
    then have "5 \<le> \<lfloor>x * 5\<rfloor>" by linarith
    then have "5 \<le> x * 5" by (simp add: le_floor_iff)
    then have "x = 1" using assms(2) by simp
    then show ?thesis by (simp add: polyline_def vs_def)
  qed
  then show ?thesis by (simp only: vs_def)
qed

definition linear_red :: "rat list" where
  "linear_red = [0, 1 / 2, 3 / 5, 4 / 5, 9 / 10, 1]"

definition linear_green_blue :: "rat list" where
  "linear_green_blue = [0, 1 / 5, 2 / 5, 3 / 5, 4 / 5, 1]"

lemma linear_points: "\<forall>v\<in>set linear_red. 0 \<le> v \<and> v \<le> 1" "length linear_red = 6" "\<forall>v\<in>set linear_green_blue. 0 \<le> v \<and> v \<le> 1" "length linear_green_blue = 6"
  by (simp_all add: linear_red_def linear_green_blue_def)

lemma linear_tables:
  assumes "rounding rnd" and "rows_ok n rng rows" and "fs name = Some (ppm_file [] [] [] n rng rows)"
  shows "\<exists>M. segment_table rnd (map rnd linear_red) (r_map M) \<and>
    segment_table rnd (map rnd linear_green_blue) (g_map M) \<and> segment_table rnd (map rnd linear_green_blue) (b_map M) \<and>
    pr03_main rnd junk h0 fs [prog, lit ''linear'', name] =
    Inr \<lparr>width = int n, height = int (length rows), RGB_range = int rng, pixel_map = map (mapped_px M) (concat (rev rows)), new_map = concat (rev rows)\<rparr>"
proof -
  have m: "length (r_map RGB_map0) = 256" "length (g_map RGB_map0) = 256" "length (b_map RGB_map0) = 256" by (simp_all add: RGB_map0_def)
  obtain r where r: "piecewise_linear_single rnd 5 (map rnd linear_red) (r_map RGB_map0) = Inr r" "segment_table rnd (map rnd linear_red) r"
    using piecewise_linear_ok [OF assms(1) m(1) linear_points(1,2)] by auto
  obtain g where g: "piecewise_linear_single rnd 5 (map rnd linear_green_blue) (g_map RGB_map0) = Inr g" "segment_table rnd (map rnd linear_green_blue) g"
    using piecewise_linear_ok [OF assms(1) m(2) linear_points(3,4)] by auto
  obtain b where b: "piecewise_linear_single rnd 5 (map rnd linear_green_blue) (b_map RGB_map0) = Inr b" "segment_table rnd (map rnd linear_green_blue) b"
    using piecewise_linear_ok [OF assms(1) m(3) linear_points(3,4)] by auto
  let ?M = "\<lparr>r_map = r, g_map = g, b_map = b\<rparr>"
  have M: "tables_ok ?M" using r g b by (simp add: tables_ok_def segment_table_def)
  let ?P = "\<lparr>width = int n, height = int (length rows), RGB_range = int rng, pixel_map = concat (rev rows), new_map = concat (rev rows)\<rparr>"
  have "wf_image ?P" using rows_ok_length [OF assms(2)] by (simp add: wf_image_def nat_mult_distrib)
  from color_manipulation_eq [OF this M] have "color_manipulation ?M ?P = Inr (?P\<lparr>pixel_map := map (mapped_px ?M) (concat (rev rows))\<rparr>)" by simp
  then have "pr03_main rnd junk h0 fs [prog, lit ''linear'', name] = Inr (?P\<lparr>pixel_map := map (mapped_px ?M) (concat (rev rows))\<rparr>)"
    using r(1) g(1) b(1) assms(3) ppm_init_plain [OF assms(2)]
    by (simp add: pr03_main_def piecewise_linear_RGB_def linear_red_def linear_green_blue_def del: list.map)
  with r(2) g(2) b(2) show ?thesis by (intro exI [of _ ?M]) simp
qed

lemma mapped_exact:
  assumes "r_map M = polyline_table linear_red" and "g_map M = polyline_table linear_green_blue" and "b_map M = polyline_table linear_green_blue"
  shows "mapped_px M p = p\<lparr>red := word_of_int \<lfloor>255 * polyline linear_red (of_nat (unat (red p)) / 255)\<rfloor>\<rparr>"
proof -
  have lt: "unat (c :: byte) < 256" for c using unsigned_less [of c, where ?'a = nat] by simp
  have "polyline_table linear_green_blue ! k = int k" if "k < 256" for k
    using that by (simp add: polyline_table_def linear_green_blue_def polyline_diagonal del: upt_Suc)
  then have "polyline_table linear_green_blue ! unat c = int (unat c)" for c :: byte using lt [of c] by blast
  then show ?thesis using assms lt [of "red p"] by (simp add: mapped_px_def polyline_table_def del: upt_Suc)
qed

text \<open>Claim C29: pr03 end to end in linear mode, for a well-formed file and any size of the image. For any correct rounding the program shows the image, from
  bottom to top, with every channel replaced through its table, whose entries are, segment by segment, the rounded values of the lines between
  the points of the program. In exact arithmetic this leaves green and blue as they are and replaces the red of each pixel by 255 times
  the value, rounded down, of the polygon through the points 0, 0.5, 0.6, 0.8, 0.9 and 1.\<close>

theorem pr03_linear:
  assumes "rounding rnd" and "rows_ok n rng rows" and "fs name = Some (ppm_file [] [] [] n rng rows)"
  shows "(\<exists>M. segment_table rnd (map rnd [0, 1 / 2, 3 / 5, 4 / 5, 9 / 10, 1]) (r_map M) \<and>
      segment_table rnd (map rnd [0, 1 / 5, 2 / 5, 3 / 5, 4 / 5, 1]) (g_map M) \<and> segment_table rnd (map rnd [0, 1 / 5, 2 / 5, 3 / 5, 4 / 5, 1]) (b_map M) \<and>
      pr03_main rnd junk h0 fs [prog, lit ''linear'', name] =
      Inr \<lparr>width = int n, height = int (length rows), RGB_range = int rng, pixel_map = map (mapped_px M) (concat (rev rows)), new_map = concat (rev rows)\<rparr>) \<and>
    pr03_main (\<lambda>x. x) junk h0 fs [prog, lit ''linear'', name] =
      Inr \<lparr>width = int n, height = int (length rows), RGB_range = int rng,
        pixel_map = map (\<lambda>p. p\<lparr>red := word_of_int \<lfloor>255 * polyline [0, 1 / 2, 3 / 5, 4 / 5, 9 / 10, 1] (of_nat (unat (red p)) / 255)\<rfloor>\<rparr>) (concat (rev rows)),
        new_map = concat (rev rows)\<rparr>"
proof
  show "\<exists>M. segment_table rnd (map rnd [0, 1 / 2, 3 / 5, 4 / 5, 9 / 10, 1]) (r_map M) \<and>
      segment_table rnd (map rnd [0, 1 / 5, 2 / 5, 3 / 5, 4 / 5, 1]) (g_map M) \<and> segment_table rnd (map rnd [0, 1 / 5, 2 / 5, 3 / 5, 4 / 5, 1]) (b_map M) \<and>
      pr03_main rnd junk h0 fs [prog, lit ''linear'', name] =
      Inr \<lparr>width = int n, height = int (length rows), RGB_range = int rng, pixel_map = map (mapped_px M) (concat (rev rows)), new_map = concat (rev rows)\<rparr>"
    using linear_tables [of rnd n rng rows fs name junk h0 prog, OF assms] unfolding linear_red_def linear_green_blue_def .
  have "rounding (\<lambda>x. x)" by (simp add: rounding_def exact_ints_def mono_def)
  from linear_tables [of "\<lambda>x. x" n rng rows fs name junk h0 prog, OF this assms(2,3)] obtain M where
    M: "segment_table (\<lambda>x. x) linear_red (r_map M)" "segment_table (\<lambda>x. x) linear_green_blue (g_map M)" "segment_table (\<lambda>x. x) linear_green_blue (b_map M)"
      "pr03_main (\<lambda>x. x) junk h0 fs [prog, lit ''linear'', name] =
      Inr \<lparr>width = int n, height = int (length rows), RGB_range = int rng, pixel_map = map (mapped_px M) (concat (rev rows)), new_map = concat (rev rows)\<rparr>"
    by (auto simp: map_idI)
  note t = segment_table_exact [OF M(1) linear_points(1,2)] segment_table_exact [OF M(2) linear_points(3,4)] segment_table_exact [OF M(3) linear_points(3,4)]
  show "pr03_main (\<lambda>x. x) junk h0 fs [prog, lit ''linear'', name] =
      Inr \<lparr>width = int n, height = int (length rows), RGB_range = int rng,
        pixel_map = map (\<lambda>p. p\<lparr>red := word_of_int \<lfloor>255 * polyline [0, 1 / 2, 3 / 5, 4 / 5, 9 / 10, 1] (of_nat (unat (red p)) / 255)\<rfloor>\<rparr>) (concat (rev rows)),
        new_map = concat (rev rows)\<rparr>"
    unfolding M(4) mapped_exact [OF t] linear_red_def by simp
qed

theorem pr03_linear_witness:
  "pr03_main (\<lambda>x. x) (\<lambda>_. demo_px 0) 0 (\<lambda>_. Some (ppm_file [] [] [] 1 255 [[demo_px 51]])) [lit ''pr03'', lit ''linear'', lit ''a''] =
    Inr \<lparr>width = 1, height = 1, RGB_range = 255, pixel_map = [(demo_px 51)\<lparr>red := 127\<rparr>], new_map = [demo_px 51]\<rparr>"
proof -
  have "rounding (\<lambda>x. x)" "rows_ok 1 255 [[demo_px 51]]" by (simp_all add: rounding_def exact_ints_def mono_def rows_ok_def INT_MAX_def demo_px_def)
  note pr03_linear [OF this, of "\<lambda>_. Some (ppm_file [] [] [] 1 255 [[demo_px 51]])" "lit ''a''" "\<lambda>_. demo_px 0" 0 "lit ''pr03''", THEN conjunct2]
  moreover have "\<lfloor>255 * polyline [0, 1 / 2, 3 / 5, 4 / 5, 9 / 10, 1] (of_nat (unat (red (demo_px 51))) / 255)\<rfloor> = 127"
    by (simp add: demo_px_def polyline_def floor_eq_iff)
  ultimately show ?thesis by simp
qed

end
