(* ===== verification/Ppm_Transform.thy ===== *)
theory Ppm_Transform
  imports Ppm_Color
begin

section \<open>Transformations of an image (CSCE646/pr06, pr07)\<close>

text \<open>
  pr07 moves the pixels of an image: a forward pass sends every pixel to its new place, an inverse pass fills
  the pixels that are still black by interpolation at the place they come from. The class has the members of
  the model of pr04, with \<open>output_map\<close> for \<open>new_map\<close>; \<open>size\<close> and \<open>center\<close> follow from the dimensions, and \<open>translation\<close> is never
  read. The array \<open>output_map\<close> is not set when it is allocated; its content is the argument \<open>junk\<close>. The sine of the C
  library is an argument. Messages are left out.

  A quotient by zero is infinite or no number: a comparison with it fails, its conversion to \<open>int\<close> is undefined.
\<close>

subsection \<open>Interpolation\<close>

definition getpixel :: "myppm \<Rightarrow> rat \<times> rat \<Rightarrow> RGB c_result" where
  "getpixel P point =
     c_bind (to_int (snd point)) (\<lambda>y. c_bind (to_int (fst point)) (\<lambda>x.
       let index = y * width P + x
       in if index \<ge> 0 \<and> index \<le> width P * height P then arr_get (pixel_map P) index else Inl Exit_called))"

text \<open>The conversion of a \<open>double\<close> to \<open>unsigned char\<close> is undefined outside of the range.\<close>

definition to_uchar :: "rat \<Rightarrow> byte c_result" where
  "to_uchar x = (if 0 \<le> trunc x \<and> trunc x \<le> 255 then Inr (word_of_int (trunc x)) else Inl Signed_overflow)"

definition to_pixel :: "((RGB \<Rightarrow> byte) \<Rightarrow> rat) \<Rightarrow> RGB c_result" where
  "to_pixel f =
     c_bind (to_uchar (f red)) (\<lambda>r. c_bind (to_uchar (f green)) (\<lambda>g. c_bind (to_uchar (f blue)) (\<lambda>b.
     Inr \<lparr>red = r, green = g, blue = b\<rparr>)))"

text \<open>\<open>a * (x2-x)/(x2-x1) + b * (x-x1)/(x2-x1)\<close> and \<open>(y2-y)/(y2-y1) * a + (y-y1)/(y2-y1) * b\<close>.\<close>

definition along_x :: "(rat \<Rightarrow> rat) \<Rightarrow> rat \<Rightarrow> rat \<Rightarrow> rat \<Rightarrow> byte \<Rightarrow> byte \<Rightarrow> rat" where
  "along_x rnd x x1 x2 a b =
     rnd (rnd (rnd (of_int (uint a) * rnd (x2 - x)) / rnd (x2 - x1)) + rnd (rnd (of_int (uint b) * rnd (x - x1)) / rnd (x2 - x1)))"

definition along_y :: "(rat \<Rightarrow> rat) \<Rightarrow> rat \<Rightarrow> rat \<Rightarrow> rat \<Rightarrow> rat \<Rightarrow> rat \<Rightarrow> rat" where
  "along_y rnd y y1 y2 a b = rnd (rnd (rnd (rnd (y2 - y) / rnd (y2 - y1)) * a) + rnd (rnd (rnd (y - y1) / rnd (y2 - y1)) * b))"

text \<open>Only the first branch returns its pixel; at the end of the others control leaves the function without a value.\<close>

definition bilinear :: "(rat \<Rightarrow> rat) \<Rightarrow> myppm \<Rightarrow> rat \<times> rat \<Rightarrow> RGB c_result" where
  "bilinear rnd P point =
     (let x = fst point; y = snd point;
          x1 = of_int \<lfloor>x\<rfloor>; x2 = rnd (x1 + 1);
          y1 = of_int \<lfloor>y\<rfloor>; y2 = rnd (y1 + 1);
          Q11 = getpixel P (x1, y1); Q12 = getpixel P (x1, y2); Q21 = getpixel P (x2, y1); Q22 = getpixel P (x2, y2)
      in if x2 < of_int (width P) \<and> y2 < of_int (height P)
         then c_bind Q11 (\<lambda>q11. c_bind Q21 (\<lambda>q21. c_bind Q12 (\<lambda>q12. c_bind Q22 (\<lambda>q22.
              to_pixel (\<lambda>ch. rnd (along_y rnd y y1 y2 (along_x rnd x x1 x2 (ch q11) (ch q21)) (along_x rnd x x1 x2 (ch q12) (ch q22)) + 1 / 2))))))
         else if x2 = of_int (width P) \<and> y2 < of_int (height P)
         then c_bind Q11 (\<lambda>q11. c_bind Q12 (\<lambda>q12.
              c_bind (to_pixel (\<lambda>ch. rnd (along_y rnd y y1 y2 (of_int (uint (ch q11))) (of_int (uint (ch q12))) + 1 / 2))) (\<lambda>_.
              Inl Uninitialised)))
         else if x2 < of_int (width P) \<and> y2 = of_int (width P)
         then c_bind Q11 (\<lambda>q11. c_bind Q21 (\<lambda>q21.
              c_bind (to_pixel (\<lambda>ch. rnd (along_x rnd x x1 x2 (ch q11) (ch q21) + 1 / 2))) (\<lambda>_.
              Inl Uninitialised)))
         else c_bind (arr_get (new_map P) (width P * width P - 1)) (\<lambda>_. Inl Uninitialised))"

subsection \<open>Matrices\<close>

definition det_2x2 :: "(rat \<Rightarrow> rat) \<Rightarrow> rat \<Rightarrow> rat \<Rightarrow> rat \<Rightarrow> rat \<Rightarrow> rat" where
  "det_2x2 rnd a b c d = rnd (rnd (a * d) - rnd (b * c))"

definition det_3x3 :: "(rat \<Rightarrow> rat) \<Rightarrow> rat list \<Rightarrow> rat" where
  "det_3x3 rnd m =
     rnd (rnd (rnd (m!0 * rnd (rnd (m!4 * m!8) - rnd (m!5 * m!7))) - rnd (m!1 * rnd (rnd (m!3 * m!8) - rnd (m!5 * m!6)))) +
          rnd (m!2 * rnd (rnd (m!3 * m!7) - rnd (m!4 * m!6))))"

text \<open>The nine entries of the inverse; nothing when the determinant is zero, for then none of them is a number.\<close>

definition inv_mtrx_3x3 :: "(rat \<Rightarrow> rat) \<Rightarrow> rat list \<Rightarrow> rat list option" where
  "inv_mtrx_3x3 rnd m =
     (let a11 = m!0; a12 = m!1; a13 = m!2; a21 = m!3; a22 = m!4; a23 = m!5; a31 = m!6; a32 = m!7; a33 = m!8;
          det = det_3x3 rnd m
      in if det = 0 then None
         else Some (map (\<lambda>v. rnd (v / det))
           [det_2x2 rnd a22 a23 a32 a33, det_2x2 rnd a13 a12 a33 a32, det_2x2 rnd a12 a13 a22 a23,
            det_2x2 rnd a23 a21 a33 a31, det_2x2 rnd a11 a13 a31 a33, det_2x2 rnd a13 a11 a23 a21,
            det_2x2 rnd a21 a22 a31 a32, det_2x2 rnd a12 a11 a32 a31, det_2x2 rnd a11 a12 a21 a22]))"

subsection \<open>The passes\<close>

text \<open>The loops over \<open>i\<close> below the width and \<open>j\<close> below the height.\<close>

definition columns :: "int \<Rightarrow> int \<Rightarrow> (int \<times> int) list" where
  "columns w h = concat (map (\<lambda>i. map (\<lambda>j. (i, j)) [0..h - 1]) [0..w - 1])"

text \<open>The forward pass: \<open>t i j\<close> is the index to which the pixel goes, if any.\<close>

fun forward :: "(int \<Rightarrow> int \<Rightarrow> int option c_result) \<Rightarrow> (int \<times> int) list \<Rightarrow> myppm \<Rightarrow> myppm c_result" where
  "forward t [] P = Inr P"
| "forward t ((i, j) # ks) P =
     c_bind (t i j) (\<lambda>new_index.
       case new_index of None \<Rightarrow> forward t ks P
       | Some k \<Rightarrow> c_bind (arr_get (pixel_map P) (j * width P + i)) (\<lambda>p.
           c_bind (arr_set (new_map P) k p) (\<lambda>m. forward t ks (P\<lparr>new_map := m\<rparr>))))"

text \<open>The inverse pass: a black pixel gets the interpolation at \<open>s i j\<close>, the place it comes from, if there is one.\<close>

definition black :: "RGB \<Rightarrow> bool" where
  "black p \<longleftrightarrow> red p = 0 \<and> green p = 0 \<and> blue p = 0"

fun inverse_pass :: "(rat \<Rightarrow> rat) \<Rightarrow> (int \<Rightarrow> int \<Rightarrow> (rat \<times> rat) option c_result) \<Rightarrow> (int \<times> int) list \<Rightarrow> myppm \<Rightarrow> myppm c_result" where
  "inverse_pass rnd s [] P = Inr P"
| "inverse_pass rnd s ((i, j) # ks) P =
     c_bind (arr_get (new_map P) (j * width P + i)) (\<lambda>p.
       if black p
       then c_bind (s i j) (\<lambda>origin. case origin of None \<Rightarrow> inverse_pass rnd s ks P
            | Some xy \<Rightarrow> c_bind (bilinear rnd P xy) (\<lambda>q.
                c_bind (arr_set (new_map P) (j * width P + i) q) (\<lambda>m. inverse_pass rnd s ks (P\<lparr>new_map := m\<rparr>))))
       else inverse_pass rnd s ks P)"

definition center :: "myppm \<Rightarrow> rat \<times> rat" where
  "center P = (of_int (width P sdiv 2), of_int (height P sdiv 2))"

definition on_map :: "myppm \<Rightarrow> rat \<Rightarrow> rat \<Rightarrow> bool" where
  "on_map P x y \<longleftrightarrow> x \<ge> 0 \<and> x < of_int (width P) \<and> y \<ge> 0 \<and> y < of_int (height P)"

definition near_map :: "myppm \<Rightarrow> rat \<Rightarrow> rat \<Rightarrow> bool" where
  "near_map P x y \<longleftrightarrow> x \<ge> 0 \<and> y \<ge> 0 \<and> x \<le> of_int (width P) \<and> y \<le> of_int (height P)"

text \<open>\<open>new_index\<close> and \<open>index_origin\<close> with the tests on them; \<open>size\<close> is \<open>width * height\<close>, which the reader has checked to be an \<open>int\<close>. Behind the first
  test \<open>new_index\<close> is below it (\<open>new_index_fits\<close> below); \<open>index_origin\<close> may exceed it by one row, and the model does not have the overflow that
  this means for an image within one row of \<open>INT_MAX\<close> pixels.\<close>

definition new_index :: "myppm \<Rightarrow> rat \<Rightarrow> rat \<Rightarrow> int option" where
  "new_index P x y =
     (if on_map P x y
      then let k = trunc y * width P + trunc x in if k < width P * height P \<and> k \<ge> 0 then Some k else None
      else None)"

definition index_origin :: "myppm \<Rightarrow> rat \<Rightarrow> rat \<Rightarrow> (rat \<times> rat) option" where
  "index_origin P x y =
     (if near_map P x y
      then let k = trunc y * width P + trunc x in if k \<ge> 0 \<and> k < width P * height P then Some (x, y) else None
      else None)"

lemma new_index_fits:
  assumes "on_map P x y"
  shows "0 \<le> trunc y * width P + trunc x" and "trunc y * width P + trunc x < width P * height P"
proof -
  have x: "0 \<le> trunc x" "trunc x < width P" and y: "0 \<le> trunc y" "trunc y < height P"
    using assms by (simp_all add: on_map_def trunc_def floor_less_iff)
  then show "0 \<le> trunc y * width P + trunc x" by simp
  have "(trunc y + 1) * width P \<le> height P * width P" using x y by (intro mult_right_mono) simp_all
  with x(2) show "trunc y * width P + trunc x < width P * height P" by (simp add: algebra_simps)
qed

subsection \<open>The sine wave\<close>

definition wave_forward :: "(rat \<Rightarrow> rat) \<Rightarrow> (rat \<Rightarrow> rat) \<Rightarrow> myppm \<Rightarrow> int \<Rightarrow> int \<Rightarrow> int option c_result" where
  "wave_forward rnd sine P i j =
     c_bind (to_int (rnd (rnd (5 * sine (of_int i)) + rnd (rnd (11 / 10) * of_int j)))) (\<lambda>y.
     Inr (new_index P (rnd (rnd (11 / 10) * of_int i)) (of_int y)))"

definition wave_origin :: "(rat \<Rightarrow> rat) \<Rightarrow> (rat \<Rightarrow> rat) \<Rightarrow> myppm \<Rightarrow> int \<Rightarrow> int \<Rightarrow> (rat \<times> rat) option c_result" where
  "wave_origin rnd sine P i j =
     (let x_origin = rnd (of_int i / rnd (11 / 10)) in
      c_bind (to_int (rnd (rnd (of_int j - rnd (5 * sine x_origin)) / rnd (11 / 10)))) (\<lambda>y.
      Inr (if near_map P x_origin (of_int y) then Some (x_origin, of_int y) else None)))"

subsection \<open>Linear maps around the centre\<close>

definition linear_xy :: "(rat \<Rightarrow> rat) \<Rightarrow> rat list \<Rightarrow> rat \<times> rat \<Rightarrow> rat \<Rightarrow> rat \<Rightarrow> rat \<times> rat" where
  "linear_xy rnd m c i j =
     (rnd (rnd (rnd (m!0 * rnd (i - fst c)) + rnd (m!1 * rnd (j - snd c))) + fst c),
      rnd (rnd (rnd (m!2 * rnd (i - fst c)) + rnd (m!3 * rnd (j - snd c))) + snd c))"

definition linear_origin :: "(rat \<Rightarrow> rat) \<Rightarrow> rat list \<Rightarrow> rat \<times> rat \<Rightarrow> rat \<Rightarrow> rat \<Rightarrow> (rat \<times> rat) option" where
  "linear_origin rnd m c i j =
     (let det = rnd (rnd (m!0 * m!3) - rnd (m!1 * m!2))
      in if det = 0 then None
         else Some (rnd (rnd (rnd (rnd (m!3 * rnd (i - fst c)) - rnd (m!1 * rnd (j - snd c))) / det) + fst c),
                    rnd (rnd (rnd (rnd (- m!2 * rnd (i - fst c)) + rnd (m!0 * rnd (j - snd c))) / det) + snd c)))"

definition linear_forward :: "(rat \<Rightarrow> rat) \<Rightarrow> rat list \<Rightarrow> myppm \<Rightarrow> int \<Rightarrow> int \<Rightarrow> int option c_result" where
  "linear_forward rnd m P i j = (case linear_xy rnd m (center P) (of_int i) (of_int j) of (x, y) \<Rightarrow> Inr (new_index P x y))"

definition linear_inverse :: "(rat \<Rightarrow> rat) \<Rightarrow> rat list \<Rightarrow> myppm \<Rightarrow> int \<Rightarrow> int \<Rightarrow> (rat \<times> rat) option c_result" where
  "linear_inverse rnd m P i j =
     Inr (case linear_origin rnd m (center P) (of_int i) (of_int j) of None \<Rightarrow> None | Some (x, y) \<Rightarrow> index_origin P x y)"

subsection \<open>Projective maps\<close>

definition projective_xyz :: "(rat \<Rightarrow> rat) \<Rightarrow> rat list \<Rightarrow> rat \<Rightarrow> rat \<Rightarrow> rat \<times> rat \<times> rat" where
  "projective_xyz rnd m i j =
     (rnd (rnd (rnd (m!0 * i) + rnd (m!1 * j)) + m!2),
      rnd (rnd (rnd (m!3 * i) + rnd (m!4 * j)) + m!5),
      rnd (rnd (rnd (m!6 * i) + rnd (m!7 * j)) + m!8))"

text \<open>The quotients are converted before they are compared.\<close>

definition place_index :: "(rat \<Rightarrow> rat) \<Rightarrow> myppm \<Rightarrow> rat \<times> rat \<times> rat \<Rightarrow> int option c_result" where
  "place_index rnd P xyz =
     (case xyz of (x, y, z) \<Rightarrow>
        if z = 0 then Inl Signed_overflow
        else c_bind (to_int (rnd (y / z))) (\<lambda>yi. c_bind (to_int (rnd (x / z))) (\<lambda>xi.
             let k = yi * width P + xi
             in if \<not> in_int (yi * width P) \<or> \<not> in_int k then Inl Signed_overflow
                else Inr (if k < width P * height P \<and> rnd (x / z) > 0 \<and> rnd (y / z) > 0 \<and> rnd (y / z) < of_int (height P) \<and> rnd (x / z) < of_int (width P)
                          then Some k else None))))"

definition projective_forward :: "(rat \<Rightarrow> rat) \<Rightarrow> rat list \<Rightarrow> myppm \<Rightarrow> int \<Rightarrow> int \<Rightarrow> int option c_result" where
  "projective_forward rnd m P i j = place_index rnd P (projective_xyz rnd m (of_int i) (of_int j))"

definition projective_inverse :: "(rat \<Rightarrow> rat) \<Rightarrow> rat list option \<Rightarrow> myppm \<Rightarrow> int \<Rightarrow> int \<Rightarrow> (rat \<times> rat) option c_result" where
  "projective_inverse rnd inv_mtrx P i j =
     Inr (case inv_mtrx of None \<Rightarrow> None
          | Some m \<Rightarrow> (case projective_xyz rnd m (of_int i) (of_int j) of (x, y, z) \<Rightarrow>
              if z = 0 then None else index_origin P (rnd (x / z)) (rnd (y / z))))"

subsection \<open>transformation\<close>

text \<open>The last branch is taken for every \<open>argv\<close>: no string is equal to both \<open>s\<close> and \<open>special\<close>.\<close>

definition transformation :: "(rat \<Rightarrow> rat) \<Rightarrow> (rat \<Rightarrow> rat) \<Rightarrow> (nat \<Rightarrow> RGB) \<Rightarrow> rat list \<Rightarrow> int \<Rightarrow> byte list \<Rightarrow> myppm \<Rightarrow> myppm c_result" where
  "transformation rnd sine junk mtrx dimension argv P0 =
     (if dimension \<noteq> 2 \<and> dimension \<noteq> 3 \<and> dimension \<noteq> 0 then Inl Exit_called
      else
        let P = P0\<lparr>new_map := map junk [0..<nat (width P0 * height P0)]\<rparr>;
            ks = columns (width P) (height P)
        in if dimension = 0
           then c_bind (forward (wave_forward rnd sine P) ks P) (inverse_pass rnd (wave_origin rnd sine P) ks)
           else if dimension = 2
           then if length mtrx < 4 then Inl Out_of_bounds
                else c_bind (forward (linear_forward rnd mtrx P) ks P) (inverse_pass rnd (linear_inverse rnd mtrx P) ks)
           else if (dimension = 3 \<and> argv \<noteq> lit ''s'') \<or> argv \<noteq> lit ''special''
           then if length mtrx < 9 then Inl Out_of_bounds
                else c_bind (forward (projective_forward rnd mtrx P) ks P) (inverse_pass rnd (projective_inverse rnd (inv_mtrx_3x3 rnd mtrx) P) ks)
           else Inr P)"

subsection \<open>The program\<close>

text \<open>\<open>main\<close> up to the display of \<open>output_map\<close>. Each mode sets the dimension and the first entries of the matrix; an unknown mode leaves the
  dimension uninitialised.\<close>

definition mode_matrix :: "(rat \<Rightarrow> rat) \<Rightarrow> (rat \<Rightarrow> rat) \<Rightarrow> (rat \<Rightarrow> rat) \<Rightarrow> byte list \<Rightarrow> (int \<times> rat list) option" where
  "mode_matrix rnd sine cosine mode =
     (if mode = lit ''rotation'' \<or> mode = lit ''r''
      then let theta = rnd (rnd (31415926 / 10000000) / 12) in Some (2, [cosine theta, - sine theta, sine theta, cosine theta])
      else if mode = lit ''scaling'' then Some (2, [2, 0, 0, 2])
      else if mode = lit ''shear'' then Some (2, map rnd [7 / 10, 1 / 10, 1 / 10, 7 / 10])
      else if mode = lit ''mirror'' \<or> mode = lit ''m'' then Some (2, [1, 0, 0, -1])
      else if mode = lit ''translation'' \<or> mode = lit ''t'' then Some (3, [1, 0, -225, 0, 1, -170, 0, 0, 1])
      else if mode = lit ''perspective'' \<or> mode = lit ''p''
      then Some (3, map rnd [1255 / 1000, 255 / 1000, -108375 / 1000, 17 / 100, 117 / 100, -7225 / 100, 1 / 1000, 1 / 1000, 575 / 1000])
      else if mode = lit ''bilinear'' \<or> mode = lit ''b''
      then Some (3, map rnd [526549 / 1000000, -156458 / 1000000, 187085 / 1000, 26632 / 100000, 44932 / 100000, 3264 / 100,
                             5 / 10000, 5 / 10000, 1])
      else if mode = lit ''special'' \<or> mode = lit ''s'' then Some (0, [1, 0, 0, 0, 1, 0, 0, 0, 1])
      else None)"

definition pr07_main :: "(rat \<Rightarrow> rat) \<Rightarrow> (rat \<Rightarrow> rat) \<Rightarrow> (rat \<Rightarrow> rat) \<Rightarrow> (nat \<Rightarrow> RGB) \<Rightarrow> (byte list \<Rightarrow> byte list option) \<Rightarrow> byte list list \<Rightarrow> myppm c_result" where
  "pr07_main rnd sine cosine junk fs argv =
     (if length argv \<le> 1 then Inl Exit_called
      else if length argv = 2 then Inl Null_deref
      else c_bind (ppm_init junk 0 (fs (argv ! 2))) (\<lambda>ppm.
           case mode_matrix rnd sine cosine (argv ! 1) of None \<Rightarrow> Inl Uninitialised
           | Some (dem, mtrx) \<Rightarrow> transformation rnd sine junk mtrx dem (argv ! 1) ppm))"

subsection \<open>The earlier program (CSCE646/pr06)\<close>

text \<open>pr06 has the passes of pr07 for linear maps; its projective maps are taken around the centre and have no inverse pass.\<close>

definition pr06_xyz :: "(rat \<Rightarrow> rat) \<Rightarrow> rat list \<Rightarrow> rat \<times> rat \<Rightarrow> rat \<Rightarrow> rat \<Rightarrow> rat \<times> rat \<times> rat" where
  "pr06_xyz rnd m c i j =
     (rnd (rnd (rnd (rnd (m!0 * rnd (i - fst c)) + rnd (m!1 * rnd (j - snd c))) + m!2) + fst c),
      rnd (rnd (rnd (rnd (m!3 * rnd (i - fst c)) + rnd (m!4 * rnd (j - snd c))) + m!5) + snd c),
      rnd (rnd (rnd (m!6 * rnd (i - fst c)) + rnd (m!7 * rnd (j - snd c))) + m!8))"

definition pr06_transformation :: "(rat \<Rightarrow> rat) \<Rightarrow> (nat \<Rightarrow> RGB) \<Rightarrow> rat list \<Rightarrow> int \<Rightarrow> myppm \<Rightarrow> myppm c_result" where
  "pr06_transformation rnd junk mtrx dimension P0 =
     (if dimension \<noteq> 2 \<and> dimension \<noteq> 3 then Inl Exit_called
      else
        let P = P0\<lparr>new_map := map junk [0..<nat (width P0 * height P0)]\<rparr>;
            ks = columns (width P) (height P)
        in if dimension = 2
           then if length mtrx < 4 then Inl Out_of_bounds
                else c_bind (forward (linear_forward rnd mtrx P) ks P) (inverse_pass rnd (linear_inverse rnd mtrx P) ks)
           else if length mtrx < 9 then Inl Out_of_bounds
           else forward (\<lambda>i j. place_index rnd P (pr06_xyz rnd mtrx (center P) (of_int i) (of_int j))) ks P)"

definition pr06_matrix :: "(rat \<Rightarrow> rat) \<Rightarrow> (rat \<Rightarrow> rat) \<Rightarrow> (rat \<Rightarrow> rat) \<Rightarrow> byte list \<Rightarrow> (int \<times> rat list) option" where
  "pr06_matrix rnd sine cosine mode =
     (if mode = lit ''rotation''
      then let theta = rnd (rnd (31415926 / 10000000) / 12) in Some (2, [cosine theta, - sine theta, sine theta, cosine theta])
      else if mode = lit ''scaling'' then Some (2, map rnd [13 / 10, 0, 0, 13 / 10])
      else if mode = lit ''shear'' then Some (2, map rnd [7 / 10, 1 / 10, 1 / 10, 7 / 10])
      else if mode = lit ''mirror'' then Some (2, [1, 0, 0, -1])
      else if mode = lit ''translation'' then Some (3, [1, 0, 100, 0, 1, 100, 0, 0, 1])
      else if mode = lit ''perspective'' then Some (3, map rnd [1, 0, 5, 1, 10, 5, 1 / 100, 1 / 100, 1])
      else None)"

definition pr06_main :: "(rat \<Rightarrow> rat) \<Rightarrow> (rat \<Rightarrow> rat) \<Rightarrow> (rat \<Rightarrow> rat) \<Rightarrow> (nat \<Rightarrow> RGB) \<Rightarrow> (byte list \<Rightarrow> byte list option) \<Rightarrow> byte list list \<Rightarrow> myppm c_result" where
  "pr06_main rnd sine cosine junk fs argv =
     (if length argv \<le> 1 then Inl Exit_called
      else if length argv = 2 then Inl Null_deref
      else c_bind (ppm_init junk 0 (fs (argv ! 2))) (\<lambda>ppm.
           case pr06_matrix rnd sine cosine (argv ! 1) of None \<Rightarrow> Inl Uninitialised
           | Some (dem, mtrx) \<Rightarrow> pr06_transformation rnd junk mtrx dem ppm))"

subsection \<open>Inverse matrices\<close>

definition mat_mul :: "rat list \<Rightarrow> rat list \<Rightarrow> rat list" where
  "mat_mul a b = [a!0*b!0 + a!1*b!3 + a!2*b!6, a!0*b!1 + a!1*b!4 + a!2*b!7, a!0*b!2 + a!1*b!5 + a!2*b!8,
     a!3*b!0 + a!4*b!3 + a!5*b!6, a!3*b!1 + a!4*b!4 + a!5*b!7, a!3*b!2 + a!4*b!5 + a!5*b!8,
     a!6*b!0 + a!7*b!3 + a!8*b!6, a!6*b!1 + a!7*b!4 + a!8*b!7, a!6*b!2 + a!7*b!5 + a!8*b!8]"

lemma sum3_div:
  fixes d :: rat
  assumes "d \<noteq> 0"
  shows "x * a + y * b + z * c = d \<Longrightarrow> x * (a / d) + y * (b / d) + z * (c / d) = 1"
    and "x * a + y * b + z * c = 0 \<Longrightarrow> x * (a / d) + y * (b / d) + z * (c / d) = 0"
    and "a * x + b * y + c * z = d \<Longrightarrow> a / d * x + b / d * y + c / d * z = 1"
    and "a * x + b * y + c * z = 0 \<Longrightarrow> a / d * x + b / d * y + c / d * z = 0"
  using assms by (simp_all add: add_divide_distrib [symmetric])

text \<open>Claim C30: \<open>inv_mtrx_3x3\<close> inverts. In exact arithmetic the matrix it computes is a left and right inverse of every matrix whose
  determinant by \<open>det_3x3\<close> is not zero.\<close>

theorem inv_mtrx_3x3_correct:
  assumes "det_3x3 (\<lambda>x. x) m \<noteq> 0"
  shows "\<exists>v. inv_mtrx_3x3 (\<lambda>x. x) m = Some v \<and> mat_mul m v = [1, 0, 0, 0, 1, 0, 0, 0, 1] \<and> mat_mul v m = [1, 0, 0, 0, 1, 0, 0, 0, 1]"
proof -
  define D where "D = det_3x3 (\<lambda>x. x) m"
  have D: "D \<noteq> 0" "D = m!0 * (m!4 * m!8 - m!5 * m!7) - m!1 * (m!3 * m!8 - m!5 * m!6) + m!2 * (m!3 * m!7 - m!4 * m!6)"
    using assms by (simp_all add: D_def det_3x3_def)
  obtain v where v: "inv_mtrx_3x3 (\<lambda>x. x) m = Some v"
    "v = map (\<lambda>v. v / D) [m!4 * m!8 - m!5 * m!7, m!2 * m!7 - m!1 * m!8, m!1 * m!5 - m!2 * m!4,
       m!5 * m!6 - m!3 * m!8, m!0 * m!8 - m!2 * m!6, m!2 * m!3 - m!0 * m!5,
       m!3 * m!7 - m!4 * m!6, m!1 * m!6 - m!0 * m!7, m!0 * m!4 - m!1 * m!3]"
    using assms by (simp add: inv_mtrx_3x3_def Let_def D_def [symmetric] det_2x2_def)
  have n: "v!0 = (m!4 * m!8 - m!5 * m!7) / D" "v!1 = (m!2 * m!7 - m!1 * m!8) / D" "v!2 = (m!1 * m!5 - m!2 * m!4) / D"
    "v!3 = (m!5 * m!6 - m!3 * m!8) / D" "v!4 = (m!0 * m!8 - m!2 * m!6) / D" "v!5 = (m!2 * m!3 - m!0 * m!5) / D"
    "v!6 = (m!3 * m!7 - m!4 * m!6) / D" "v!7 = (m!1 * m!6 - m!0 * m!7) / D" "v!8 = (m!0 * m!4 - m!1 * m!3) / D"
    by (simp_all add: v(2))
  have "mat_mul m v = [1, 0, 0, 0, 1, 0, 0, 0, 1]" "mat_mul v m = [1, 0, 0, 0, 1, 0, 0, 0, 1]"
    unfolding mat_mul_def n list.inject by (intro conjI refl sum3_div [OF D(1)]; simp add: D(2) algebra_simps)+
  with v(1) show ?thesis by blast
qed

theorem inv_mtrx_3x3_correct_witness:
  "\<exists>v. inv_mtrx_3x3 (\<lambda>x. x) [1, 0, -225, 0, 1, -170, 0, 0, 1] = Some v \<and> mat_mul [1, 0, -225, 0, 1, -170, 0, 0, 1] v = [1, 0, 0, 0, 1, 0, 0, 0, 1]"
  using inv_mtrx_3x3_correct [of "[1, 0, -225, 0, 1, -170, 0, 0, 1]"] by (auto simp: det_3x3_def)

text \<open>The inverse pass looks where the forward pass came from. In exact arithmetic, for an invertible 2 by 2 matrix, the origin
  computed for the place to which a point goes is that point.\<close>

theorem linear_origin_inverts:
  assumes "m!0 * m!3 - m!1 * m!2 \<noteq> 0" and "linear_xy (\<lambda>x. x) m c i j = (x, y)"
  shows "linear_origin (\<lambda>x. x) m c x y = Some (i, j)"
proof -
  define u v D where "u = i - fst c" and "v = j - snd c" and "D = m!0 * m!3 - m!1 * m!2"
  have xy: "x - fst c = m!0 * u + m!1 * v" "y - snd c = m!2 * u + m!3 * v"
    using assms(2) by (auto simp: linear_xy_def u_def v_def)
  have "m!3 * (m!0 * u + m!1 * v) - m!1 * (m!2 * u + m!3 * v) = u * D"
    "- m!2 * (m!0 * u + m!1 * v) + m!0 * (m!2 * u + m!3 * v) = v * D" by (simp_all add: D_def algebra_simps)
  then have "(m!3 * (x - fst c) - m!1 * (y - snd c)) / D = u" "(- m!2 * (x - fst c) + m!0 * (y - snd c)) / D = v"
    using assms(1) unfolding xy by (simp_all add: D_def)
  then show ?thesis using assms(1) by (simp add: linear_origin_def Let_def D_def u_def v_def)
qed

theorem linear_origin_inverts_witness:
  "linear_xy (\<lambda>x. x) [7 / 10, 1 / 10, 1 / 10, 7 / 10] (2, 2) 5 4 = (43 / 10, 37 / 10) \<and>
   linear_origin (\<lambda>x. x) [7 / 10, 1 / 10, 1 / 10, 7 / 10] (2, 2) (43 / 10) (37 / 10) = Some (5, 4)"
proof
  show xy: "linear_xy (\<lambda>x. x) [7 / 10, 1 / 10, 1 / 10, 7 / 10] (2, 2) 5 4 = (43 / 10, 37 / 10)" by (simp add: linear_xy_def)
  show "linear_origin (\<lambda>x. x) [7 / 10, 1 / 10, 1 / 10, 7 / 10] (2, 2) (43 / 10) (37 / 10) = Some (5, 4)"
    by (rule linear_origin_inverts [OF _ xy]) simp
qed

subsection \<open>Interpolated values\<close>

definition small :: "myppm \<Rightarrow> bool" where
  "small P \<longleftrightarrow> wf_image P \<and> width P \<le> INT_MAX \<and> height P \<le> INT_MAX"

lemma getpixel_int:
  assumes "small P" and "on_image P r c"
  shows "getpixel P (of_int c, of_int r) = Inr (px_at P (pixel_map P) r c)"
proof -
  have "in_int r" "in_int c" using assms by (auto simp: small_def on_image_def in_int_def INT_MAX_def)
  moreover have "arr_get (pixel_map P) (r * width P + c) = Inr (px_at P (pixel_map P) r c)" using assms by (simp add: arr_get_px small_def)
  ultimately show ?thesis using index_bounds [OF assms(2)] by (simp add: getpixel_def to_int_of_int Let_def)
qed

lemma lerp_between:
  fixes a b t lo hi :: rat
  assumes "0 \<le> t" and "t \<le> 1" and "lo \<le> a" and "lo \<le> b" and "a \<le> hi" and "b \<le> hi"
  shows "lo \<le> a * (1 - t) + b * t \<and> a * (1 - t) + b * t \<le> hi"
proof -
  have "lo * (1 - t) + lo * t \<le> a * (1 - t) + b * t" using assms by (intro add_mono mult_right_mono) simp_all
  moreover have "a * (1 - t) + b * t \<le> hi * (1 - t) + hi * t" using assms by (intro add_mono mult_right_mono) simp_all
  ultimately show ?thesis by (simp add: algebra_simps)
qed

definition blend :: "rat \<Rightarrow> rat \<Rightarrow> byte \<Rightarrow> byte \<Rightarrow> byte \<Rightarrow> byte \<Rightarrow> rat" where
  "blend s t a b c d = (of_int (uint a) * (1 - s) + of_int (uint b) * s) * (1 - t) + (of_int (uint c) * (1 - s) + of_int (uint d) * s) * t"

lemma blend_uchar:
  assumes "0 \<le> s" and "s \<le> 1" and "0 \<le> t" and "t \<le> 1"
  shows "\<exists>v. to_uchar (blend s t a b c d + 1 / 2) = Inr v \<and> Min {a, b, c, d} \<le> v \<and> v \<le> Max {a, b, c, d}"
proof -
  define lo hi where "lo = uint (Min {a, b, c, d})" and "hi = uint (Max {a, b, c, d})"
  have b: "of_int lo \<le> (of_int (uint q) :: rat)" "(of_int (uint q) :: rat) \<le> of_int hi" if "q \<in> {a, b, c, d}" for q
  proof -
    have "Min {a, b, c, d} \<le> q" by (rule Min_le [OF _ that]) simp
    moreover have "q \<le> Max {a, b, c, d}" by (rule Max_ge [OF _ that]) simp
    ultimately have "lo \<le> uint q" "uint q \<le> hi" by (simp_all only: lo_def hi_def word_le_def)
    then show "of_int lo \<le> (of_int (uint q) :: rat)" "(of_int (uint q) :: rat) \<le> of_int hi" by (simp_all only: of_int_le_iff)
  qed
  let ?x = "\<lambda>a b :: byte. of_int (uint a) * (1 - s) + of_int (uint b) * s"
  have x: "of_int lo \<le> ?x a b \<and> ?x a b \<le> of_int hi" "of_int lo \<le> ?x c d \<and> ?x c d \<le> of_int hi"
    using b by (intro lerp_between assms; simp only: insert_iff simp_thms)+
  have bl: "of_int lo \<le> blend s t a b c d" "blend s t a b c d \<le> of_int hi"
    unfolding blend_def using lerp_between [OF assms(3,4), of "of_int lo" "?x a b" "?x c d" "of_int hi"] x by simp_all
  have r: "0 \<le> lo" "hi \<le> 255" using byte_lt [of "Max {a, b, c, d}"] by (simp_all add: lo_def hi_def)
  let ?z = "blend s t a b c d + 1 / 2"
  define k where "k = \<lfloor>?z\<rfloor>"
  have z: "trunc ?z = k" "lo \<le> k" "k \<le> hi"
    using bl r by (auto simp: k_def trunc_def le_floor_iff floor_le_iff)
  then have k: "0 \<le> k" "k \<le> 255" using r by simp_all
  then have "to_uchar ?z = Inr (word_of_int k)" "uint (word_of_int k :: byte) = k"
    using z(1) by (simp_all add: to_uchar_def uint_word_of_int)
  with z show ?thesis by (auto simp: word_le_def lo_def hi_def)
qed

text \<open>The four pixels around a point.\<close>

definition corners :: "myppm \<Rightarrow> rat \<times> rat \<Rightarrow> RGB set" where
  "corners P point = (let c = \<lfloor>fst point\<rfloor>; r = \<lfloor>snd point\<rfloor> in
     {px_at P (pixel_map P) r c, px_at P (pixel_map P) r (c + 1), px_at P (pixel_map P) (r + 1) c, px_at P (pixel_map P) (r + 1) (c + 1)})"

text \<open>Claim C31: \<open>bilinear\<close> interpolates. At a point whose four neighbours lie in the image it reads only pixels of the image and returns, in exact
  arithmetic, a pixel each of whose channels lies between the least and the greatest of the four; no conversion overflows.\<close>

theorem bilinear_between:
  assumes "small P" and "0 \<le> fst point" and "0 \<le> snd point" and "\<lfloor>fst point\<rfloor> + 1 < width P" and "\<lfloor>snd point\<rfloor> + 1 < height P"
  shows "\<exists>p. bilinear (\<lambda>x. x) P point = Inr p \<and>
    (\<forall>ch\<in>{red, green, blue}. Min (ch ` corners P point) \<le> ch p \<and> ch p \<le> Max (ch ` corners P point))"
proof -
  define c r where "c = \<lfloor>fst point\<rfloor>" and "r = \<lfloor>snd point\<rfloor>"
  define s t where "s = fst point - of_int c" and "t = snd point - of_int r"
  have st: "0 \<le> s" "s \<le> 1" "0 \<le> t" "t \<le> 1" unfolding s_def t_def c_def r_def by linarith+
  have on: "on_image P r c" "on_image P r (c + 1)" "on_image P (r + 1) c" "on_image P (r + 1) (c + 1)"
    using assms(2-5) by (auto simp: on_image_def c_def r_def)
  have le: "of_int c + 1 < (of_int (width P) :: rat)" "of_int r + 1 < (of_int (height P) :: rat)"
    using assms(4,5) of_int_less_iff [of "c + 1" "width P"] of_int_less_iff [of "r + 1" "height P"] by (simp_all add: c_def r_def)
  let ?q = "\<lambda>r c. px_at P (pixel_map P) r c"
  note gp = getpixel_int [OF assms(1) on(1)] getpixel_int [OF assms(1) on(2)] getpixel_int [OF assms(1) on(3)] getpixel_int [OF assms(1) on(4)]
  have val: "along_y (\<lambda>x. x) (snd point) (of_int r) (of_int r + 1) (along_x (\<lambda>x. x) (fst point) (of_int c) (of_int c + 1) a1 a2)
      (along_x (\<lambda>x. x) (fst point) (of_int c) (of_int c + 1) a3 a4) = blend s t a1 a2 a3 a4" for a1 a2 a3 a4
    by (simp add: along_x_def along_y_def blend_def s_def t_def algebra_simps)
  have "bilinear (\<lambda>x. x) P point = to_pixel (\<lambda>ch. blend s t (ch (?q r c)) (ch (?q r (c + 1))) (ch (?q (r + 1) c)) (ch (?q (r + 1) (c + 1))) + 1 / 2)"
    using le gp by (simp add: bilinear_def Let_def c_def [symmetric] r_def [symmetric] val)
  moreover obtain v where v: "\<And>ch :: RGB \<Rightarrow> byte. to_uchar (blend s t (ch (?q r c)) (ch (?q r (c + 1))) (ch (?q (r + 1) c)) (ch (?q (r + 1) (c + 1))) + 1 / 2) = Inr (v ch)"
    "\<And>ch. Min (ch ` corners P point) \<le> v ch \<and> v ch \<le> Max (ch ` corners P point)"
  proof -
    have "\<exists>w. to_uchar (blend s t (ch (?q r c)) (ch (?q r (c + 1))) (ch (?q (r + 1) c)) (ch (?q (r + 1) (c + 1))) + 1 / 2) = Inr w \<and>
        Min (ch ` corners P point) \<le> w \<and> w \<le> Max (ch ` corners P point)" for ch :: "RGB \<Rightarrow> byte"
      using blend_uchar [OF st] by (simp only: corners_def Let_def c_def [symmetric] r_def [symmetric] image_insert image_empty)
    then show ?thesis using that by metis
  qed
  ultimately have "bilinear (\<lambda>x. x) P point = Inr \<lparr>red = v red, green = v green, blue = v blue\<rparr>" by (simp add: to_pixel_def)
  with v(2) show ?thesis by auto
qed

theorem bilinear_between_witness:
  "\<exists>p. bilinear (\<lambda>x. x) demo_img (1 / 2, 3 / 2) = Inr p \<and> red p \<le> Max (red ` corners demo_img (1 / 2, 3 / 2))"
proof -
  have "small demo_img" using demo_img_wf by (simp add: small_def demo_img_def INT_MAX_def)
  moreover have "\<lfloor>1 / 2 :: rat\<rfloor> = 0" "\<lfloor>3 / 2 :: rat\<rfloor> = 1" by (simp_all add: floor_eq_iff)
  ultimately show ?thesis using bilinear_between [of demo_img "(1 / 2, 3 / 2)"] by (auto simp: demo_img_def)
qed

lemma c_bind_fails: "(\<And>a. \<exists>e. f a = Inl e) \<Longrightarrow> \<exists>e. c_bind r f = Inl e"
  by (cases r) auto

lemma bilinear_undefined_at:
  assumes "rounding rnd" and "\<bar>x\<bar> \<le> 2 ^ 52" and "\<bar>y\<bar> \<le> 2 ^ 52" and "width P \<le> \<lfloor>x\<rfloor> + 1 \<or> height P \<le> \<lfloor>y\<rfloor> + 1"
  shows "\<exists>e. bilinear rnd P (x, y) = Inl e"
proof -
  have ex: "rnd (of_int \<lfloor>z\<rfloor> + 1) = of_int (\<lfloor>z\<rfloor> + 1)" if "\<bar>z\<bar> \<le> 2 ^ 52" for z :: rat
  proof -
    define k where "k = \<lfloor>z\<rfloor>"
    have "- (2 ^ 52) \<le> k" "k \<le> 2 ^ 52" using that unfolding k_def abs_le_iff by (simp_all add: le_floor_iff floor_le_iff)
    then have "\<bar>k + 1\<bar> \<le> 2 ^ 53" by simp
    with assms(1) have "rnd (of_int (k + 1)) = of_int (k + 1)" unfolding rounding_def exact_ints_def by blast
    then show ?thesis by (simp add: k_def)
  qed
  have "\<not> (rnd (of_int \<lfloor>x\<rfloor> + 1) < of_int (width P) \<and> rnd (of_int \<lfloor>y\<rfloor> + 1) < of_int (height P))"
    unfolding ex [OF assms(2)] ex [OF assms(3)] of_int_less_iff using assms(4) by linarith
  then show ?thesis unfolding bilinear_def Let_def fst_conv snd_conv by (auto intro!: c_bind_fails)
qed

subsection \<open>The identity\<close>

lemma columns_set: "(i, j) \<in> set (columns w h) \<longleftrightarrow> 0 \<le> i \<and> i < w \<and> 0 \<le> j \<and> j < h"
  by (auto simp: columns_def image_iff Bex_def)

lemma forward_all:
  assumes "wf_image P" and "\<forall>(i, j)\<in>set ks. on_image P j i \<and> t i j = Inr (Some (j * width P + i))"
  shows "\<exists>m. forward t ks P = Inr (P\<lparr>new_map := m\<rparr>) \<and> length m = length (new_map P) \<and>
    (\<forall>r c. on_image P r c \<longrightarrow> px_at P m r c = (if (c, r) \<in> set ks then px_at P (pixel_map P) r c else px_at P (new_map P) r c))"
  using assms
proof (induction ks arbitrary: P)
  case Nil
  then show ?case by (intro exI [of _ "new_map P"]) simp
next
  case (Cons k ks)
  obtain i j where k: "k = (i, j)" by (cases k)
  have ij: "on_image P j i" "t i j = Inr (Some (j * width P + i))" using Cons.prems(2) by (auto simp: k)
  let ?m = "(new_map P)[nat (j * width P + i) := px_at P (pixel_map P) j i]"
  have step: "forward t (k # ks) P = forward t ks (P\<lparr>new_map := ?m\<rparr>)"
    using ij Cons.prems(1) index_bounds [OF ij(1)] by (simp add: k arr_get_px arr_set_def wf_image_def)
  have "wf_image (P\<lparr>new_map := ?m\<rparr>)" "\<forall>(i, j)\<in>set ks. on_image (P\<lparr>new_map := ?m\<rparr>) j i \<and> t i j = Inr (Some (j * width (P\<lparr>new_map := ?m\<rparr>) + i))"
    using Cons.prems by (auto simp: wf_image_def on_image_def)
  from Cons.IH [OF this] obtain m where m: "forward t ks (P\<lparr>new_map := ?m\<rparr>) = Inr (P\<lparr>new_map := m\<rparr>)" "length m = length (new_map P)"
    "\<And>r c. on_image P r c \<Longrightarrow> px_at P m r c = (if (c, r) \<in> set ks then px_at P (pixel_map P) r c else px_at P ?m r c)"
    by (auto simp: on_image_def px_at_def)
  have "px_at P m r c = (if (c, r) \<in> set (k # ks) then px_at P (pixel_map P) r c else px_at P (new_map P) r c)" if "on_image P r c" for r c
    using m(3) [OF that] px_at_update [OF Cons.prems(1) that ij(1)] by (auto simp: k)
  with step m show ?case by auto
qed

lemma bilinear_black:
  assumes "rounding rnd" and "rnd (1 / 2) = 1 / 2" and "small P" and "0 \<le> c" and "0 \<le> r" and "c + 1 < width P" and "r + 1 < height P"
    and "black (px_at P (pixel_map P) r c)"
  shows "bilinear rnd P (of_int c, of_int r) = Inr (px_at P (pixel_map P) r c)"
proof -
  let ?q = "px_at P (pixel_map P)"
  have on: "on_image P r c" "on_image P r (c + 1)" "on_image P (r + 1) c" "on_image P (r + 1) (c + 1)" using assms(4-7) by (auto simp: on_image_def)
  have ri: "rnd (of_int k) = of_int k" if "0 \<le> k" "k \<le> INT_MAX" for k
    using assms(1) that by (simp add: rounding_def exact_ints_def INT_MAX_def)
  have z: "rnd 0 = 0" "rnd 1 = 1" using rounding_facts [OF assms(1)] by simp_all
  have b: "rnd (of_int c + 1) = of_int (c + 1)" "rnd (of_int r + 1) = of_int (r + 1)"
    using ri [of "c + 1"] ri [of "r + 1"] assms(3-7) by (simp_all add: small_def)
  have ax: "along_x rnd (of_int c) (of_int c) (of_int (c + 1)) a1 a2 = of_int (uint a1)" for a1 a2 :: byte
    using ri [of "uint a1"] byte_lt [of a1] by (simp add: along_x_def z INT_MAX_def)
  have ay: "along_y rnd (of_int r) (of_int r) (of_int (r + 1)) 0 v = 0" for v by (simp add: along_y_def z)
  have half: "trunc (1 / 2) = 0" by (simp add: trunc_def floor_eq_iff)
  have px: "red (?q r c) = 0" "green (?q r c) = 0" "blue (?q r c) = 0" using assms(8) by (simp_all add: black_def)
  have lt: "of_int (c + 1) < (of_int (width P) :: rat)" "of_int (r + 1) < (of_int (height P) :: rat)"
    using assms(6,7) unfolding of_int_less_iff by simp_all
  have "bilinear rnd P (of_int c, of_int r) = to_pixel (\<lambda>ch. rnd (along_y rnd (of_int r) (of_int r) (of_int (r + 1)) (of_int (uint (ch (?q r c)))) (of_int (uint (ch (?q (r + 1) c)))) + 1 / 2))"
    unfolding bilinear_def Let_def fst_conv snd_conv floor_of_int b using lt
    by (simp only: getpixel_int [OF assms(3) on(1)] getpixel_int [OF assms(3) on(2)] getpixel_int [OF assms(3) on(3)] getpixel_int [OF assms(3) on(4)]
        c_bind_simps ax simp_thms if_True)
  also have "\<dots> = Inr \<lparr>red = 0, green = 0, blue = 0\<rparr>" by (simp add: to_pixel_def px ay [simplified] to_uchar_def half assms(2))
  finally show ?thesis using px by (simp add: RGB.equality)
qed

lemma inverse_pass_copy:
  assumes "rounding rnd" and "rnd (1 / 2) = 1 / 2" and "small P" and "new_map P = pixel_map P"
    and "\<forall>(i, j)\<in>set ks. on_image P j i \<and> s i j = Inr (Some (of_int i, of_int j))"
  defines "edge \<equiv> \<lambda>(i, j). black (px_at P (pixel_map P) j i) \<and> (i + 1 = width P \<or> j + 1 = height P)"
  shows "if \<exists>k\<in>set ks. edge k then \<exists>e. inverse_pass rnd s ks P = Inl e else inverse_pass rnd s ks P = Inr P"
  using assms(5)
proof (induction ks)
  case Nil
  then show ?case by simp
next
  case (Cons k ks)
  obtain i j where k: "k = (i, j)" by (cases k)
  have ij: "on_image P j i" "s i j = Inr (Some (of_int i, of_int j))" using Cons.prems by (auto simp: k)
  have wf: "wf_image P" using assms(3) by (simp add: small_def)
  have get: "arr_get (new_map P) (j * width P + i) = Inr (px_at P (pixel_map P) j i)" using arr_get_px [OF wf ij(1)] assms(4) by simp
  have IH: "if \<exists>k\<in>set ks. edge k then \<exists>e. inverse_pass rnd s ks P = Inl e else inverse_pass rnd s ks P = Inr P" using Cons by simp
  consider (white) "\<not> black (px_at P (pixel_map P) j i)" | (edge) "edge (i, j)"
    | (inner) "black (px_at P (pixel_map P) j i)" "i + 1 < width P" "j + 1 < height P"
    using ij(1) unfolding edge_def on_image_def by fastforce
  then show ?case
  proof cases
    case white
    then have "inverse_pass rnd s (k # ks) P = inverse_pass rnd s ks P" "\<not> edge k" using get by (simp_all add: k edge_def)
    with IH show ?thesis by simp
  next
    case edge
    have "\<bar>of_int i\<bar> \<le> (2 ^ 52 :: rat)" "\<bar>of_int j\<bar> \<le> (2 ^ 52 :: rat)"
      using ij(1) assms(3) by (auto simp: on_image_def small_def INT_MAX_def simp flip: of_int_abs)
    then obtain e where "bilinear rnd P (of_int i, of_int j) = Inl e"
      using bilinear_undefined_at [OF assms(1)] edge by (fastforce simp: edge_def)
    then have "inverse_pass rnd s (k # ks) P = Inl e" using edge ij(2) get by (simp add: k edge_def)
    with edge show ?thesis by (auto simp: k)
  next
    case inner
    have "bilinear rnd P (of_int i, of_int j) = Inr (px_at P (pixel_map P) j i)"
      using bilinear_black [OF assms(1-3) _ _ inner(2,3) inner(1)] ij(1) by (simp add: on_image_def)
    moreover have "arr_set (new_map P) (j * width P + i) (px_at P (pixel_map P) j i) = Inr (new_map P)"
      using index_bounds [OF ij(1)] wf assms(4) by (simp add: arr_set_def wf_image_def px_at_def)
    ultimately have "inverse_pass rnd s (k # ks) P = inverse_pass rnd s ks P" "\<not> edge k"
      using inner ij(2) get by (simp_all add: k edge_def)
    with IH show ?thesis by simp
  qed
qed

lemma identity_places:
  assumes "rounding rnd" and "small P" and "on_image P j i"
  shows "linear_forward rnd [1, 0, 0, 1] P i j = Inr (Some (j * width P + i))"
    and "linear_inverse rnd [1, 0, 0, 1] P i j = Inr (Some (of_int i, of_int j))"
proof -
  have ri: "rnd (of_int k) = of_int k" if "\<bar>k\<bar> \<le> 2 * INT_MAX" for k
    using assms(1) that by (simp add: rounding_def exact_ints_def INT_MAX_def)
  have z: "rnd 0 = 0" "rnd 1 = 1" using rounding_facts [OF assms(1)] by simp_all
  define cx cy where "cx = width P sdiv 2" and "cy = height P sdiv 2"
  have d: "0 \<le> width P" "0 \<le> height P" "width P \<le> INT_MAX" "height P \<le> INT_MAX" using assms(2) by (auto simp: small_def wf_image_def)
  have c: "0 \<le> cx" "cx \<le> width P" "0 \<le> cy" "cy \<le> height P" using d(1,2) by (auto simp: cx_def cy_def)
  have ij: "0 \<le> i" "i < width P" "0 \<le> j" "j < height P" using assms(3) by (auto simp: on_image_def)
  have e: "rnd (of_int i) = of_int i" "rnd (of_int j) = of_int j" "rnd (of_int i - of_int cx) = of_int i - of_int cx"
    "rnd (of_int j - of_int cy) = of_int j - of_int cy"
    using ri [of i] ri [of j] ri [of "i - cx"] ri [of "j - cy"] ij c d by simp_all
  have ctr: "center P = (of_int cx, of_int cy)" by (simp add: center_def cx_def cy_def)
  have t: "trunc (of_int k) = k" for k by (simp add: trunc_def)
  note b = index_bounds [OF assms(3)]
  have nm: "on_map P (of_int i) (of_int j)" "near_map P (of_int i) (of_int j)" using ij by (auto simp: on_map_def near_map_def)
  have "linear_xy rnd [1, 0, 0, 1] (center P) (of_int i) (of_int j) = (of_int i, of_int j)"
    by (simp add: linear_xy_def ctr z e)
  then show "linear_forward rnd [1, 0, 0, 1] P i j = Inr (Some (j * width P + i))"
    using nm b by (simp add: linear_forward_def new_index_def t Let_def)
  have "linear_origin rnd [1, 0, 0, 1] (center P) (of_int i) (of_int j) = Some (of_int i, of_int j)"
    by (simp add: linear_origin_def ctr z e Let_def)
  then show "linear_inverse rnd [1, 0, 0, 1] P i j = Inr (Some (of_int i, of_int j))"
    using nm b by (simp add: linear_inverse_def index_origin_def t Let_def)
qed

text \<open>Claim C25: the identity matrix copies the image, except that the program is undefined on images with a black pixel in the last row or
  column: such a pixel counts as not yet filled, and \<open>bilinear\<close> has no value to return there. The result does not depend on the initial
  content of \<open>output_map\<close>.\<close>

theorem transformation_identity:
  assumes "rounding rnd" and "rnd (1 / 2) = 1 / 2" and "small P"
  shows "if \<exists>r c. on_image P r c \<and> black (px_at P (pixel_map P) r c) \<and> (c + 1 = width P \<or> r + 1 = height P)
    then \<exists>e. transformation rnd sine junk [1, 0, 0, 1] 2 argv P = Inl e
    else transformation rnd sine junk [1, 0, 0, 1] 2 argv P = Inr (P\<lparr>new_map := pixel_map P\<rparr>)"
proof -
  let ?P = "P\<lparr>new_map := map junk [0..<nat (width P * height P)]\<rparr>" and ?ks = "columns (width P) (height P)"
  let ?Q = "P\<lparr>new_map := pixel_map P\<rparr>"
  have sm: "small ?P" "small ?Q" and wf: "wf_image ?P" using assms(3) by (auto simp: small_def wf_image_def)
  have ks: "(i, j) \<in> set ?ks \<longleftrightarrow> on_image P j i" for i j by (auto simp: columns_set on_image_def)
  have on: "on_image ?P = on_image P" "on_image ?Q = on_image P" by (simp_all add: on_image_def fun_eq_iff)
  have fwd: "\<forall>(i, j)\<in>set ?ks. on_image ?P j i \<and> linear_forward rnd [1, 0, 0, 1] ?P i j = Inr (Some (j * width ?P + i))"
    using identity_places(1) [OF assms(1) sm(1)] by (auto simp: ks on)
  from forward_all [OF wf this] obtain m where m: "forward (linear_forward rnd [1, 0, 0, 1] ?P) ?ks ?P = Inr (?P\<lparr>new_map := m\<rparr>)" "length m = length (new_map ?P)"
    "\<And>r c. on_image P r c \<Longrightarrow> px_at P m r c = px_at P (pixel_map P) r c" by (auto simp: ks on px_at_def)
  have "m = pixel_map P"
    using m(2,3) wf by (intro px_at_eqI [OF wf]) (auto simp: wf_image_def on px_at_def)
  with m(1) have f: "forward (linear_forward rnd [1, 0, 0, 1] ?P) ?ks ?P = Inr ?Q" by simp
  have src: "linear_inverse rnd [1, 0, 0, 1] ?P = linear_inverse rnd [1, 0, 0, 1] ?Q"
  proof -
    have io: "index_origin (P\<lparr>new_map := a\<rparr>) = index_origin P" for a by (simp add: index_origin_def near_map_def fun_eq_iff)
    show ?thesis by (intro ext) (simp add: linear_inverse_def center_def io split: option.splits)
  qed
  have inv: "\<forall>(i, j)\<in>set ?ks. on_image ?Q j i \<and> linear_inverse rnd [1, 0, 0, 1] ?Q i j = Inr (Some (of_int i, of_int j))"
    using identity_places(2) [OF assms(1) sm(2)] by (auto simp: ks on)
  have run: "transformation rnd sine junk [1, 0, 0, 1] 2 argv P = inverse_pass rnd (linear_inverse rnd [1, 0, 0, 1] ?Q) ?ks ?Q"
    using f by (simp add: transformation_def Let_def src)
  have "(\<exists>k\<in>set ?ks. case k of (i, j) \<Rightarrow> black (px_at ?Q (pixel_map ?Q) j i) \<and> (i + 1 = width ?Q \<or> j + 1 = height ?Q)) \<longleftrightarrow>
      (\<exists>r c. on_image P r c \<and> black (px_at P (pixel_map P) r c) \<and> (c + 1 = width P \<or> r + 1 = height P))"
    by (simp add: Bex_def ks px_at_def) blast
  with inverse_pass_copy [OF assms(1,2) sm(2) _ inv] show ?thesis unfolding run by simp
qed

theorem transformation_identity_witness:
  "transformation (\<lambda>x. x) (\<lambda>x. 0) (\<lambda>_. demo_px 0) [1, 0, 0, 1] 2 (lit ''m'') demo_img = Inr demo_img"
proof -
  have "small demo_img" using demo_img_wf by (simp add: small_def demo_img_def INT_MAX_def)
  moreover have "\<not> black (px_at demo_img (pixel_map demo_img) r c)" if "on_image demo_img r c" for r c
  proof -
    have "px_at demo_img (pixel_map demo_img) r c \<in> set (pixel_map demo_img)"
      using index_bounds [OF that] unfolding px_at_def by (intro nth_mem) (simp add: demo_img_def nat_less_iff)
    then show ?thesis by (auto simp: demo_img_def demo_px_def black_def)
  qed
  moreover have "demo_img\<lparr>new_map := pixel_map demo_img\<rparr> = demo_img" by (simp add: demo_img_def)
  ultimately show ?thesis
    using transformation_identity [of "\<lambda>x. x" demo_img "\<lambda>x. 0" "\<lambda>_. demo_px 0" "lit ''m''"] by (auto simp: rounding_def exact_ints_def mono_def split: if_splits)
qed

subsection \<open>Translations in pr06\<close>

lemma forward_shift:
  assumes "wf_image P" and "distinct ks"
    and "\<forall>(i, j)\<in>set ks. on_image P j i \<and>
      t i j = Inr (if 0 < i + a \<and> i + a < width P \<and> 0 < j + b \<and> j + b < height P then Some ((j + b) * width P + (i + a)) else None)"
  shows "\<exists>m. forward t ks P = Inr (P\<lparr>new_map := m\<rparr>) \<and> length m = length (new_map P) \<and>
    (\<forall>r c. on_image P r c \<longrightarrow> px_at P m r c =
      (if 0 < r \<and> 0 < c \<and> (c - a, r - b) \<in> set ks then px_at P (pixel_map P) (r - b) (c - a) else px_at P (new_map P) r c))"
  using assms
proof (induction ks arbitrary: P)
  case Nil
  then show ?case by (intro exI [of _ "new_map P"]) simp
next
  case (Cons k ks)
  obtain i j where k: "k = (i, j)" by (cases k)
  have on: "on_image P j i" using Cons.prems(3) by (auto simp: k)
  let ?in = "0 < i + a \<and> i + a < width P \<and> 0 < j + b \<and> j + b < height P"
  define q where "q = (if ?in then (new_map P)[nat ((j + b) * width P + (i + a)) := px_at P (pixel_map P) j i] else new_map P)"
  have step: "forward t (k # ks) P = forward t ks (P\<lparr>new_map := q\<rparr>)"
  proof (cases ?in)
    case True
    then have "on_image P (j + b) (i + a)" by (simp add: on_image_def)
    then show ?thesis using True Cons.prems(1,3) index_bounds [of P "j + b" "i + a"]
      by (simp add: k q_def arr_get_px on arr_set_def wf_image_def)
  qed (use Cons.prems(3) in \<open>auto simp: k q_def\<close>)
  have "length q = length (new_map P)" by (simp add: q_def)
  then have "wf_image (P\<lparr>new_map := q\<rparr>)" "distinct ks" using Cons.prems by (auto simp: wf_image_def)
  moreover have "\<forall>(i, j)\<in>set ks. on_image (P\<lparr>new_map := q\<rparr>) j i \<and> t i j = Inr (if 0 < i + a \<and> i + a < width (P\<lparr>new_map := q\<rparr>) \<and>
      0 < j + b \<and> j + b < height (P\<lparr>new_map := q\<rparr>) then Some ((j + b) * width (P\<lparr>new_map := q\<rparr>) + (i + a)) else None)"
    using Cons.prems(3) by (simp add: on_image_frame cong: if_cong)
  ultimately obtain m where
    m: "forward t ks (P\<lparr>new_map := q\<rparr>) = Inr (P\<lparr>new_map := m\<rparr>)" "length m = length q"
    "\<And>r c. on_image P r c \<Longrightarrow> px_at P m r c =
      (if 0 < r \<and> 0 < c \<and> (c - a, r - b) \<in> set ks then px_at P (pixel_map P) (r - b) (c - a) else px_at P q r c)"
    using Cons.IH [of "P\<lparr>new_map := q\<rparr>"] by (auto simp: on_image_frame px_at_frame cong: if_cong)
  have "px_at P q r c = (if 0 < r \<and> 0 < c \<and> (c - a, r - b) = (i, j) then px_at P (pixel_map P) j i else px_at P (new_map P) r c)"
    if "on_image P r c" for r c
  proof (cases ?in)
    case True
    then have "on_image P (j + b) (i + a)" by (simp add: on_image_def)
    from px_at_update [OF Cons.prems(1) that this] True show ?thesis by (auto simp: q_def)
  next
    case False
    then show ?thesis using that by (auto simp: q_def on_image_def)
  qed
  with m(3) have "\<forall>r c. on_image P r c \<longrightarrow> px_at P m r c =
      (if 0 < r \<and> 0 < c \<and> (c - a, r - b) \<in> set (k # ks) then px_at P (pixel_map P) (r - b) (c - a) else px_at P (new_map P) r c)"
    by (auto simp: k)
  with step m \<open>length q = _\<close> show ?case by auto
qed

lemma shift_bounds:
  fixes w h a b i j :: int
  assumes "(w + \<bar>a\<bar>) * (h + \<bar>b\<bar>) \<le> M" and "0 \<le> i" and "i < w" and "0 \<le> j" and "j < h"
  shows "\<bar>i + a\<bar> \<le> M" and "\<bar>j + b\<bar> \<le> M" and "\<bar>(j + b) * w\<bar> \<le> M" and "\<bar>(j + b) * w + (i + a)\<bar> \<le> M"
proof -
  define x y where "x = i + a" and "y = j + b"
  have x: "\<bar>x\<bar> \<le> w + \<bar>a\<bar>" and y: "\<bar>y\<bar> + 1 \<le> h + \<bar>b\<bar>" using assms(2-5) by (auto simp: x_def y_def)
  have w: "0 < w" "w \<le> w + \<bar>a\<bar>" "1 \<le> w + \<bar>a\<bar>" "1 \<le> h + \<bar>b\<bar>" using assms(2-5) by auto
  have "(\<bar>y\<bar> + 1) * (w + \<bar>a\<bar>) \<le> (h + \<bar>b\<bar>) * (w + \<bar>a\<bar>)" using y w by (intro mult_right_mono) auto
  then have s: "\<bar>y\<bar> * (w + \<bar>a\<bar>) + (w + \<bar>a\<bar>) \<le> M" using assms(1) by (simp add: algebra_simps)
  have m: "\<bar>y\<bar> * w \<le> \<bar>y\<bar> * (w + \<bar>a\<bar>)" "\<bar>y\<bar> * 1 \<le> \<bar>y\<bar> * (w + \<bar>a\<bar>)" using w by (intro mult_left_mono; simp)+
  have yw: "\<bar>y * w\<bar> = \<bar>y\<bar> * w" using w(1) by (simp add: abs_mult)
  show "\<bar>i + a\<bar> \<le> M" "\<bar>j + b\<bar> \<le> M" using s m x w unfolding x_def [symmetric] y_def [symmetric] by linarith+
  show "\<bar>(j + b) * w\<bar> \<le> M" "\<bar>(j + b) * w + (i + a)\<bar> \<le> M"
    using s m x w yw unfolding x_def [symmetric] y_def [symmetric] by linarith+
qed

lemma translate_place:
  assumes "rounding rnd" and "wf_image P" and "(width P + \<bar>a\<bar>) * (height P + \<bar>b\<bar>) \<le> INT_MAX" and "on_image P j i"
  shows "place_index rnd P (pr06_xyz rnd [1, 0, of_int a, 0, 1, of_int b, 0, 0, 1] (center P) (of_int i) (of_int j)) =
    Inr (if 0 < i + a \<and> i + a < width P \<and> 0 < j + b \<and> j + b < height P then Some ((j + b) * width P + (i + a)) else None)"
proof -
  have ij: "0 \<le> i" "i < width P" "0 \<le> j" "j < height P" using assms(4) by (auto simp: on_image_def)
  note sb = shift_bounds [OF assms(3) ij]
  have ri: "rnd (of_int k) = of_int k" if "\<bar>k\<bar> \<le> 4 * INT_MAX" for k
    using assms(1) that by (simp add: rounding_def exact_ints_def INT_MAX_def)
  have z: "rnd 0 = 0" "rnd 1 = 1" using rounding_facts [OF assms(1)] by simp_all
  define cx cy where "cx = width P sdiv 2" and "cy = height P sdiv 2"
  have c: "0 \<le> cx" "cx \<le> width P" "0 \<le> cy" "cy \<le> height P" using ij by (auto simp: cx_def cy_def)
  have dim: "width P + \<bar>a\<bar> \<le> INT_MAX" "height P + \<bar>b\<bar> \<le> INT_MAX"
  proof -
    have "(width P + \<bar>a\<bar>) * 1 \<le> (width P + \<bar>a\<bar>) * (height P + \<bar>b\<bar>)" "1 * (height P + \<bar>b\<bar>) \<le> (width P + \<bar>a\<bar>) * (height P + \<bar>b\<bar>)"
      using ij by (intro mult_left_mono mult_right_mono; simp)+
    with assms(3) show "width P + \<bar>a\<bar> \<le> INT_MAX" "height P + \<bar>b\<bar> \<le> INT_MAX" by simp_all
  qed
  have e: "rnd (of_int i - of_int cx) = of_int i - of_int cx" "rnd (of_int j - of_int cy) = of_int j - of_int cy"
    "rnd (of_int i - of_int cx + of_int a) = of_int i - of_int cx + of_int a" "rnd (of_int j - of_int cy + of_int b) = of_int j - of_int cy + of_int b"
    using ri [of "i - cx"] ri [of "j - cy"] ri [of "i - cx + a"] ri [of "j - cy + b"] ij c dim by simp_all
  have ac: "of_int i - of_int cx + of_int a + of_int cx = (of_int i + of_int a :: rat)"
    "of_int j - of_int cy + of_int b + of_int cy = (of_int j + of_int b :: rat)" by simp_all
  have e2: "rnd (of_int i + of_int a) = of_int (i + a)" "rnd (of_int j + of_int b) = of_int (j + b)"
    using ri [of "i + a"] ri [of "j + b"] sb(1,2) by (simp_all add: INT_MAX_def)
  have "pr06_xyz rnd [1, 0, of_int a, 0, 1, of_int b, 0, 0, 1] (center P) (of_int i) (of_int j) = (of_int (i + a), of_int (j + b), 1)"
    by (simp add: pr06_xyz_def center_def cx_def [symmetric] cy_def [symmetric] z e ac e2)
  moreover have "in_int (i + a)" "in_int (j + b)" "in_int ((j + b) * width P)" "in_int ((j + b) * width P + (i + a))"
    using sb unfolding in_int_def abs_le_iff by linarith+
  moreover have "(j + b) * width P + (i + a) < width P * height P" if "0 < i + a" "i + a < width P" "0 < j + b" "j + b < height P"
    using that index_bounds [of P "j + b" "i + a"] by (simp add: on_image_def)
  moreover have "rnd (of_int (i + a)) = of_int (i + a)" "rnd (of_int (j + b)) = of_int (j + b)" using e2 by simp_all
  ultimately show ?thesis by (simp only: place_index_def prod.case div_by_1 to_int_of_int c_bind_simps Let_def of_int_0_less_iff of_int_less_iff) auto
qed

text \<open>A translation of pr06 moves the image. For a distance whose places fit into an \<open>int\<close>, each pixel of the output that has a source in the
  image gets it, except those of the first row and column, which are never written; these and the pixels without source keep the
  initial content of \<open>output_map\<close>.\<close>

theorem pr06_translation:
  assumes "rounding rnd" and "wf_image P" and "(width P + \<bar>a\<bar>) * (height P + \<bar>b\<bar>) \<le> INT_MAX"
  shows "\<exists>m. pr06_transformation rnd junk [1, 0, of_int a, 0, 1, of_int b, 0, 0, 1] 3 P = Inr (P\<lparr>new_map := m\<rparr>) \<and>
    (\<forall>r c. on_image P r c \<longrightarrow> px_at P m r c =
      (if 0 < r \<and> 0 < c \<and> on_image P (r - b) (c - a) then px_at P (pixel_map P) (r - b) (c - a) else junk (nat (r * width P + c))))"
proof -
  let ?P = "P\<lparr>new_map := map junk [0..<nat (width P * height P)]\<rparr>" and ?ks = "columns (width P) (height P)"
  have wf: "wf_image ?P" using assms(2) by (auto simp: wf_image_def)
  have ks: "(i, j) \<in> set ?ks \<longleftrightarrow> on_image P j i" for i j by (auto simp: columns_set on_image_def)
  have dist: "distinct ?ks"
  proof -
    have "?ks = List.product [0..width P - 1] [0..height P - 1]" by (simp add: columns_def product_concat_map)
    then show ?thesis by (simp add: distinct_product)
  qed
  let ?t = "\<lambda>i j. place_index rnd ?P (pr06_xyz rnd [1, 0, of_int a, 0, 1, of_int b, 0, 0, 1] (center ?P) (of_int i) (of_int j))"
  have t: "\<forall>(i, j)\<in>set ?ks. on_image ?P j i \<and>
      ?t i j = Inr (if 0 < i + a \<and> i + a < width ?P \<and> 0 < j + b \<and> j + b < height ?P then Some ((j + b) * width ?P + (i + a)) else None)"
    using translate_place [OF assms(1) wf] assms(3) by (auto simp: ks on_image_frame)
  from forward_shift [OF wf dist t] obtain m where m: "forward ?t ?ks ?P = Inr (?P\<lparr>new_map := m\<rparr>)"
    "\<And>r c. on_image P r c \<Longrightarrow> px_at P m r c = (if 0 < r \<and> 0 < c \<and> (c - a, r - b) \<in> set ?ks then px_at P (pixel_map P) (r - b) (c - a)
       else px_at P (map junk [0..<nat (width P * height P)]) r c)"
    by (auto simp: on_image_frame px_at_frame cong: if_cong)
  have "px_at P (map junk [0..<nat (width P * height P)]) r c = junk (nat (r * width P + c))" if "on_image P r c" for r c
    using index_bounds [OF that] by (simp add: px_at_def nat_less_iff)
  with m show ?thesis by (intro exI [of _ m]) (simp add: pr06_transformation_def Let_def ks cong: if_cong)
qed

theorem pr06_translation_witness:
  "\<exists>m. pr06_transformation (\<lambda>x. x) (\<lambda>_. demo_px 0) [1, 0, 1, 0, 1, 0, 0, 0, 1] 3 demo_img = Inr (demo_img\<lparr>new_map := m\<rparr>) \<and>
    px_at demo_img m 1 1 = demo_px 6"
proof -
  have "rounding (\<lambda>x. x)" by (simp add: rounding_def exact_ints_def mono_def)
  from pr06_translation [OF this demo_img_wf, of 1 0 "\<lambda>_. demo_px 0"] obtain m where
    m: "pr06_transformation (\<lambda>x. x) (\<lambda>_. demo_px 0) [1, 0, 1, 0, 1, 0, 0, 0, 1] 3 demo_img = Inr (demo_img\<lparr>new_map := m\<rparr>)"
    "\<And>r c. on_image demo_img r c \<Longrightarrow> px_at demo_img m r c = (if 0 < r \<and> 0 < c \<and> on_image demo_img (r - 0) (c - 1)
       then px_at demo_img (pixel_map demo_img) (r - 0) (c - 1) else demo_px 0)"
    by (auto simp: INT_MAX_def demo_img_def)
  from m(2) [of 1 1] have "px_at demo_img m 1 1 = demo_px 6" by (simp add: on_image_def demo_img_def px_at_def)
  with m(1) show ?thesis by blast
qed

end
