(* ===== verification/Ppm_Types.thy ===== *)
theory Ppm_Types
  imports Ppm_Transform
begin

section \<open>The well-formedness of images\<close>

text \<open>
  An image is well-formed when both of its maps have as many pixels as its dimensions say. The reader
  establishes this for files with non-negative dimensions, and every operation of the image programs that
  returns keeps it, whatever its other arguments are: kernels and windows of any size, hue maps and
  matrices of any length.
\<close>

definition keeps :: "myppm \<Rightarrow> myppm c_result \<Rightarrow> bool" where
  "keeps P res \<longleftrightarrow> (\<forall>Q. res = Inr Q \<longrightarrow> width Q = width P \<and> height Q = height P \<and>
     length (pixel_map Q) = length (pixel_map P) \<and> length (new_map Q) = length (new_map P))"

lemma keeps_wf: "keeps P (Inr Q) \<Longrightarrow> wf_image P \<Longrightarrow> wf_image Q"
  by (simp add: keeps_def wf_image_def)

lemma keeps_Inr: "keeps P (Inr P)" and keeps_Inl: "keeps P (Inl e)"
  by (simp_all add: keeps_def)

lemma keeps_comp:
  assumes "keeps P (Inr Q)" and "keeps Q res"
  shows "keeps P res"
proof -
  have e: "width Q = width P" "height Q = height P" "length (pixel_map Q) = length (pixel_map P)" "length (new_map Q) = length (new_map P)"
    using assms(1) unfolding keeps_def by blast+
  show ?thesis using assms(2) unfolding keeps_def e .
qed

lemma keeps_bind: "(\<And>a. res = Inr a \<Longrightarrow> keeps P (f a)) \<Longrightarrow> keeps P (c_bind res f)"
  by (cases res) (simp_all add: keeps_Inl)

lemma keeps_trans:
  assumes "keeps P res" and "\<And>Q. keeps Q (f Q)"
  shows "keeps P (c_bind res f)"
  by (rule keeps_bind) (use assms in \<open>auto intro: keeps_comp\<close>)

lemma arr_set_length: "arr_set xs i v = Inr ys \<Longrightarrow> length ys = length xs"
  by (auto simp: arr_set_def split: if_splits)

lemma keeps_new_map:
  assumes "keeps (P\<lparr>new_map := m\<rparr>) res" and "length m = length (new_map P)"
  shows "keeps P res"
  by (rule keeps_comp [OF _ assms(1)]) (simp add: keeps_def assms(2))

lemma keeps_set_px: "keeps P (set_px x y rgb P)"
  by (cases rgb) (auto simp: set_px_def keeps_def c_bind_Inr_iff dest: arr_set_length)

lemma keeps_each_pixel:
  assumes "\<And>P y x. keeps P (single P y x)"
  shows "keeps P (each_pixel single ps P)"
proof (induction ps arbitrary: P)
  case (Cons p ps)
  then show ?case by (cases p) (simp add: keeps_trans [OF assms])
qed (simp add: keeps_Inr)

lemmas keeps_intros = keeps_Inr keeps_Inl keeps_set_px keeps_each_pixel keeps_bind

lemma keeps_dilation: "keeps P (dilation sz P)"
  unfolding dilation_def morphological_single_pixel_def by (intro keeps_intros)

lemma keeps_conv_single_pixel: "keeps P (conv_single_pixel rnd kern sz factor bias P x y)"
  unfolding conv_single_pixel_def by (intro keeps_bind) (auto intro: keeps_set_px split: prod.splits)

lemma keeps_conv_blur: "keeps P (conv_blur rnd kern sz factor bias P)"
  unfolding conv_blur_def by (cases kern) (auto intro: keeps_intros keeps_conv_single_pixel)

lemma keeps_hue_dilation: "keeps P (hue_dilation sz hs P)"
  unfolding hue_dilation_def hue_single_pixel_def masked_single_pixel_def by (intro keeps_intros)

lemma keeps_hue_conv_blur: "keeps P (hue_conv_blur rnd sz factor bias hs P)"
  unfolding hue_conv_blur_def hue_conv_single_pixel_def pr05_conv_single_pixel_def by (intro keeps_intros) (auto intro: keeps_set_px split: prod.splits)

lemma color_loop_length: "color_loop M is m = Inr m' \<Longrightarrow> length m' = length m"
  by (induction "is" arbitrary: m) (auto simp: c_bind_Inr_iff dest!: arr_set_length)

lemma keeps_color_manipulation: "keeps P (color_manipulation M P)"
  unfolding color_manipulation_def by (rule keeps_bind) (auto simp: keeps_def dest: color_loop_length)

lemma change_loop_length: "change_loop rnd is ctl m = Inr m' \<Longrightarrow> length m' = length m"
  by (induction "is" arbitrary: m) (auto simp: c_bind_Inr_iff dest!: arr_set_length)

lemma keeps_change_hue: "keeps P (change_hue rnd control P)"
  unfolding change_hue_def by (rule keeps_bind) (auto simp: keeps_def dest: change_loop_length)

lemma keeps_store: "(\<And>P. keeps P (f P)) \<Longrightarrow> keeps P (c_bind (arr_set (new_map P) k p) (\<lambda>m. f (P\<lparr>new_map := m\<rparr>)))"
  by (rule keeps_bind) (blast intro: keeps_new_map dest: arr_set_length)

lemma keeps_forward: "keeps P (forward t ks P)"
proof (induction ks arbitrary: P)
  case (Cons k ks)
  then show ?case by (cases k) (auto intro!: keeps_bind keeps_store split: option.split)
qed (simp add: keeps_Inr)

lemma keeps_inverse_pass: "keeps P (inverse_pass rnd s ks P)"
proof (induction ks arbitrary: P)
  case (Cons k ks)
  then show ?case by (cases k) (auto intro!: keeps_bind keeps_store split: option.split)
qed (simp add: keeps_Inr)

lemma keeps_junk: "length (new_map P) = nat (width P * height P) \<Longrightarrow> keeps (P\<lparr>new_map := map junk [0..<nat (width P * height P)]\<rparr>) res \<Longrightarrow> keeps P res"
  by (rule keeps_new_map [where m = "map junk [0..<nat (width P * height P)]"]) simp_all

lemma keeps_passes: "keeps P (c_bind (forward t ks P) (inverse_pass rnd s ks))"
  by (rule keeps_trans [OF keeps_forward keeps_inverse_pass])

lemma keeps_transformation: "length (new_map P) = nat (width P * height P) \<Longrightarrow> keeps P (transformation rnd sine junk mtrx dimension argv P)"
  unfolding transformation_def Let_def
  by (auto intro!: keeps_Inl intro: keeps_junk [OF _ keeps_passes] keeps_junk [OF _ keeps_Inr])

lemma keeps_pr06_transformation: "length (new_map P) = nat (width P * height P) \<Longrightarrow> keeps P (pr06_transformation rnd junk mtrx dimension P)"
  unfolding pr06_transformation_def Let_def
  by (auto intro!: keeps_Inl intro: keeps_junk [OF _ keeps_passes] keeps_junk [OF _ keeps_forward])

lemma read_map_length: "read_map f ix s m = Inr m' \<Longrightarrow> length m' = length m"
  by (induction ix arbitrary: s m) (auto simp: c_bind_Inr_iff split: if_splits dest!: arr_set_length)

text \<open>A file with two negative dimensions passes the reader, which then reads no pixel.\<close>

lemma ppm_init_typed:
  assumes "ppm_init junk h0 file = Inr P" and "0 \<le> width P" and "0 \<le> height P"
  shows "wf_image P"
  using assms by (auto simp: ppm_init_def read_maps_split c_bind_Inr_iff wf_image_def Let_def dest!: read_map_length)

text \<open>The image programs keep images well-formed. Every filter, colour map and transformation that returns an image, applied to a
  well-formed one with any other arguments, returns a well-formed image with the same dimensions.\<close>

theorem image_operations_typed:
  assumes "wf_image P"
    and "res \<in> {dilation sz P, conv_blur rnd kern sz factor bias P, hue_dilation sz hs P, hue_conv_blur rnd sz factor bias hs P,
      color_manipulation M P, change_hue rnd control P, transformation rnd sine junk mtrx dimension argv P,
      pr06_transformation rnd junk mtrx dimension P}"
    and "res = Inr Q"
  shows "wf_image Q \<and> width Q = width P \<and> height Q = height P"
proof -
  have "keeps P res"
    using assms(2) keeps_dilation keeps_conv_blur keeps_hue_dilation keeps_hue_conv_blur keeps_color_manipulation keeps_change_hue
      keeps_transformation keeps_pr06_transformation assms(1) by (elim insertE) (auto simp: wf_image_def)
  then have k: "keeps P (Inr Q)" by (simp only: assms(3))
  with keeps_wf [OF k assms(1)] show ?thesis by (simp add: keeps_def)
qed

theorem image_operations_typed_witness:
  "\<exists>Q. dilation 3 demo_img = Inr Q \<and> wf_image Q \<and> width Q = 3"
proof -
  obtain q where q: "dilation 3 demo_img = Inr (demo_img\<lparr>new_map := q\<rparr>)" using erosion_image [of 3 demo_img] demo_img_wf by auto
  from image_operations_typed [OF demo_img_wf _ q, of 3 "\<lambda>x. x" None 1 0 "[]" _ demo_img "\<lambda>x. x" "\<lambda>_. demo_px 0" "[]" 2 "[]"] q
  show ?thesis by (simp add: demo_img_def)
qed

end
