(* ===== verification/Ppm_Pattern.thy ===== *)
theory Ppm_Pattern
  imports Ppm_Color
begin

section \<open>The colour gradient (CSCE646/pr01)\<close>

text \<open>
  Without arguments pr01 fills a square of 256 by 256 pixels with a gradient; with a file name it shows the
  image, read by the same text as in pr04. The array of the gradient has three bytes for each pixel.
\<close>

definition pattern_pixel :: "(rat \<Rightarrow> rat) \<Rightarrow> int \<Rightarrow> int \<Rightarrow> int \<Rightarrow> int \<Rightarrow> (int \<times> int \<times> int) c_result" where
  "pattern_pixel rnd w h y x =
     (if \<not> in_int (x * 255) \<or> \<not> in_int (y * 255) then Inl Signed_overflow
      else c_bind (to_int (rnd (of_int (x * 255) / of_int h))) (\<lambda>x0.
           c_bind (to_int (rnd (of_int (y * 255) / of_int w))) (\<lambda>y0.
           Inr (x0, y0, (x0 + y0) sdiv 2))))"

fun pattern_loop :: "(int \<Rightarrow> int \<Rightarrow> (int \<times> int \<times> int) c_result) \<Rightarrow> int \<Rightarrow> (int \<times> int) list \<Rightarrow> byte list \<Rightarrow> byte list c_result" where
  "pattern_loop f w [] pixmap = Inr pixmap"
| "pattern_loop f w ((y, x) # ks) pixmap =
     (let i = (y * w + x) * 3 in
      c_bind (f y x) (\<lambda>(r, g, b).
      c_bind (arr_set pixmap i (word_of_int r)) (\<lambda>m.
      c_bind (arr_set m (i + 1) (word_of_int g)) (\<lambda>m.
      c_bind (arr_set m (i + 2) (word_of_int b)) (pattern_loop f w ks)))))"

definition rows_first :: "int \<Rightarrow> int \<Rightarrow> (int \<times> int) list" where
  "rows_first w h = concat (map (\<lambda>y. map (\<lambda>x. (y, x)) [0..w - 1]) [0..h - 1])"

definition setPixels :: "int \<Rightarrow> int \<Rightarrow> byte list \<Rightarrow> byte list c_result" where
  "setPixels w h pixmap = pattern_loop (\<lambda>y x. Inr (0, 0, 0)) w (rows_first w h) pixmap"

definition coolpicture :: "(rat \<Rightarrow> rat) \<Rightarrow> int \<Rightarrow> int \<Rightarrow> byte list \<Rightarrow> byte list c_result" where
  "coolpicture rnd w h pixmap = pattern_loop (pattern_pixel rnd w h) w (rows_first w h) pixmap"

datatype shown = Picture "byte list" | Image int int "RGB list"

definition pr01_main :: "(rat \<Rightarrow> rat) \<Rightarrow> (nat \<Rightarrow> byte) \<Rightarrow> (nat \<Rightarrow> RGB) \<Rightarrow> (byte list \<Rightarrow> byte list option) \<Rightarrow> byte list list \<Rightarrow> shown c_result" where
  "pr01_main rnd junk_byte junk fs argv =
     (if length argv = 1
      then c_bind (coolpicture rnd 256 256 (map junk_byte [0..<256 * 256 * 3])) (\<lambda>pixmap. Inr (Picture pixmap))
      else if argv = [] then Inl Out_of_bounds
      else c_bind (ppm_init junk 0 (fs (argv ! 1))) (\<lambda>ppm. Inr (Image (width ppm) (height ppm) (pixel_map ppm))))"

subsection \<open>The gradient is complete\<close>


lemma rows_first_upt:
  "rows_first (int w) (int h) = map (\<lambda>k. (int (k div w), int (k mod w))) [0..<h * w]"
proof (induction h)
  case 0
  then show ?case by (simp add: rows_first_def)
next
  case (Suc h)
  have "[0..int (Suc h) - 1] = [0..int h - 1] @ [int h]" by (simp add: upto_rec2)
  then have "rows_first (int w) (int (Suc h)) = rows_first (int w) (int h) @ map (\<lambda>x. (int h, int x)) [0..<w]"
    by (simp add: rows_first_def upto_map_int o_def)
  moreover have "map (\<lambda>x. (int h, int x)) [0..<w] = map (\<lambda>k. (int (k div w), int (k mod w))) [h * w..<h * w + w]"
  proof -
    have "[h * w..<h * w + w] = map (\<lambda>x. x + h * w) [0..<w]" by (simp add: map_add_upt add.commute)
    then show ?thesis by (simp add: o_def)
  qed
  ultimately show ?case using Suc upt_add_eq_append [of 0 "h * w" w] by (simp add: add.commute del: of_nat_Suc)
qed

definition bytes3 :: "int \<times> int \<times> int \<Rightarrow> byte list" where
  "bytes3 t = (case t of (r, g, b) \<Rightarrow> [word_of_int r, word_of_int g, word_of_int b])"

lemma pattern_loop_spec:
  assumes "\<And>k. k < a + n \<Longrightarrow> f (int (k div w)) (int (k mod w)) = Inr (v k)" and "length pre = 3 * a" and "length tail = 3 * n"
  shows "pattern_loop f (int w) (map (\<lambda>k. (int (k div w), int (k mod w))) [a..<a + n]) (pre @ tail) =
    Inr (pre @ concat (map (\<lambda>k. bytes3 (v k)) [a..<a + n]))"
  using assms
proof (induction n arbitrary: a pre tail)
  case 0
  then show ?case by simp
next
  case (Suc n)
  obtain x y z tail' where tail: "tail = x # y # z # tail'" "length tail' = 3 * n"
    using Suc.prems(3) by (auto simp: length_Suc_conv numeral_eq_Suc)
  obtain r g b where v: "v a = (r, g, b)" by (cases "v a")
  have idx: "(int (a div w) * int w + int (a mod w)) * 3 = int (length pre)"
    using Suc.prems(2) by (simp flip: of_nat_mult of_nat_add)
  have fa: "f (int (a div w)) (int (a mod w)) = Inr (r, g, b)" using Suc.prems(1) [of a] v by simp
  let ?d = "pre @ bytes3 (v a)"
  have set: "arr_set (pre @ x # y # z # tail') (int (length pre)) r' = Inr (pre @ r' # y # z # tail')"
    "arr_set (pre @ r' # y # z # tail') (int (length pre) + 1) g' = Inr (pre @ r' # g' # z # tail')"
    "arr_set (pre @ r' # g' # z # tail') (int (length pre) + 2) b' = Inr (pre @ r' # g' # b' # tail')" for r' g' b'
    by (simp_all add: arr_set_def list_update_append nat_add_distrib)
  have "[a..<a + Suc n] = a # [Suc a..<Suc a + n]" by (simp add: upt_conv_Cons del: upt_Suc)
  then have "pattern_loop f (int w) (map (\<lambda>k. (int (k div w), int (k mod w))) [a..<a + Suc n]) (pre @ tail) =
      pattern_loop f (int w) (map (\<lambda>k. (int (k div w), int (k mod w))) [Suc a..<Suc a + n]) (?d @ tail')"
    by (simp only: list.map pattern_loop.simps Let_def idx fa c_bind_simps prod.case tail(1) set) (simp add: bytes3_def v)
  also have "\<dots> = Inr (?d @ concat (map (\<lambda>k. bytes3 (v k)) [Suc a..<Suc a + n]))"
    using Suc.prems tail(2) by (intro Suc.IH) (simp_all add: bytes3_def v)
  finally show ?case by (simp add: upt_conv_Cons del: upt_Suc)
qed

lemma pattern_pixel_ok:
  assumes "rounding rnd" and "0 \<le> x" and "x < 256" and "0 \<le> y" and "y < 256"
  shows "pattern_pixel rnd 256 256 y x = Inr (trunc (rnd (of_int (x * 255) / 256)), trunc (rnd (of_int (y * 255) / 256)),
      (trunc (rnd (of_int (x * 255) / 256)) + trunc (rnd (of_int (y * 255) / 256))) div 2)"
    and "0 \<le> trunc (rnd (of_int (x * 255) / 256)) \<and> trunc (rnd (of_int (x * 255) / 256)) \<le> 255"
proof -
  have t: "0 \<le> trunc (rnd (of_int (z * 255) / 256)) \<and> trunc (rnd (of_int (z * 255) / 256)) \<le> 255" if "0 \<le> z" "z < 256" for z
  proof -
    have "of_int (z * 255) \<le> (of_int (255 * 256) :: rat)" using that by (simp only: of_int_le_iff)
    then have "0 \<le> of_int (z * 255) / (256 :: rat)" "of_int (z * 255) / (256 :: rat) \<le> 255" using that by simp_all
    then have "of_int 0 \<le> rnd (of_int (z * 255) / 256)" "rnd (of_int (z * 255) / 256) \<le> of_int 255"
      using rounding_between [OF assms(1), of 0 "of_int (z * 255) / 256" 255] by simp_all
    from trunc_between [OF this] show ?thesis .
  qed
  then have "to_int (rnd (of_int (z * 255) / 256)) = Inr (trunc (rnd (of_int (z * 255) / 256)))" if "0 \<le> z" "z < 256" for z
    using t [OF that] by (simp add: to_int_def in_int_def INT_MAX_def del: of_int_mult)
  with t [of x] t [of y] assms(2-5) show
    "pattern_pixel rnd 256 256 y x = Inr (trunc (rnd (of_int (x * 255) / 256)), trunc (rnd (of_int (y * 255) / 256)),
      (trunc (rnd (of_int (x * 255) / 256)) + trunc (rnd (of_int (y * 255) / 256))) div 2)"
    by (simp add: pattern_pixel_def in_int_def INT_MAX_def del: of_int_mult)
  show "0 \<le> trunc (rnd (of_int (x * 255) / 256)) \<and> trunc (rnd (of_int (x * 255) / 256)) \<le> 255" using t assms(2,3) by blast
qed

text \<open>\<open>setPixels\<close>, which is never called, makes the picture black.\<close>

theorem setPixels_black:
  assumes "length pixmap = 3 * (h * w)"
  shows "setPixels (int w) (int h) pixmap = Inr (replicate (3 * (h * w)) 0)"
proof -
  have z: "concat (map (\<lambda>k. bytes3 (0, 0, 0)) [0..<n]) = replicate (3 * n) (0 :: byte)" for n
  proof (induction n)
    case (Suc n)
    have "replicate (3 * Suc n) (0 :: byte) = replicate (3 * n) 0 @ replicate 3 0" unfolding replicate_add [symmetric] by simp
    with Suc show ?case by (simp add: bytes3_def numeral_3_eq_3)
  qed simp
  show ?thesis
    using pattern_loop_spec [of 0 "h * w" "\<lambda>y x. Inr (0, 0, 0)" w "\<lambda>_. (0, 0, 0)" "[]" pixmap] assms z
    by (simp add: setPixels_def rows_first_upt)
qed

text \<open>With the name of a well-formed file pr01 shows the image.\<close>

theorem pr01_shows_file:
  assumes "rows_ok n rng rows" and "fs name = Some (ppm_file [] [] [] n rng rows)"
  shows "pr01_main rnd junk_byte junk fs [prog, name] = Inr (Image (int n) (int (length rows)) (concat (rev rows)))"
  using assms(2) by (simp add: pr01_main_def ppm_init_plain [OF assms(1)])

text \<open>Without arguments pr01 shows the gradient. For every correct rounding each of the three bytes of each of the
  256 times 256 pixels is set, whatever the array held before, and no access is out of bounds: red grows with the column, green with
  the row, and blue is their mean; the three values fit into a byte.\<close>

theorem pr01_gradient:
  assumes "rounding rnd"
  defines "c \<equiv> \<lambda>k. trunc (rnd (of_int (int k * 255) / 256))"
  shows "pr01_main rnd junk_byte junk fs [prog] =
    Inr (Picture (concat (map (\<lambda>k. [word_of_int (c (k mod 256)), word_of_int (c (k div 256)), word_of_int ((c (k mod 256) + c (k div 256)) div 2)])
      [0..<256 * 256]))) \<and> (\<forall>k<256. 0 \<le> c k \<and> c k \<le> 255)"
proof
  let ?v = "\<lambda>k. (c (k mod 256), c (k div 256), (c (k mod 256) + c (k div 256)) div 2)"
  let ?n = "256 * 256 :: nat"
  have px: "pattern_pixel rnd 256 256 (int (k div 256)) (int (k mod 256)) = Inr (?v k)" if "k < 0 + ?n" for k
  proof -
    have "k div 256 < 256" using that by (simp add: div_less_iff_less_mult)
    then show ?thesis using pattern_pixel_ok(1) [OF assms(1), of "int (k mod 256)" "int (k div 256)"] by (simp add: c_def)
  qed
  have "pattern_loop (pattern_pixel rnd 256 256) (int 256) (map (\<lambda>k. (int (k div 256), int (k mod 256))) [0..<0 + ?n]) ([] @ map junk_byte [0..<?n * 3]) =
      Inr ([] @ concat (map (\<lambda>k. bytes3 (?v k)) [0..<0 + ?n]))"
    by (rule pattern_loop_spec) (use px in simp_all)
  then show "pr01_main rnd junk_byte junk fs [prog] =
    Inr (Picture (concat (map (\<lambda>k. [word_of_int (c (k mod 256)), word_of_int (c (k div 256)), word_of_int ((c (k mod 256) + c (k div 256)) div 2)]) [0..<256 * 256])))"
    using rows_first_upt [of 256 256] by (simp add: pr01_main_def coolpicture_def bytes3_def del: upt_Suc)
  have "0 \<le> c k \<and> c k \<le> 255" if "k < 256" for k
    using pattern_pixel_ok(2) [OF assms(1), of "int k" 0] that by (simp add: c_def)
  then show "\<forall>k<256. 0 \<le> c k \<and> c k \<le> 255" by blast
qed

theorem pr01_gradient_witness:
  "rounding (\<lambda>q. q) \<and> pr01_main (\<lambda>q. q) (\<lambda>_. 7) (\<lambda>_. demo_px 0) (\<lambda>_. None) [[]] =
    pr01_main (\<lambda>q. q) (\<lambda>_. 0) (\<lambda>_. demo_px 0) (\<lambda>_. None) [[]]"
proof -
  have "rounding (\<lambda>q. q)" by (simp add: rounding_def exact_ints_def mono_def)
  with pr01_gradient [OF this, of "\<lambda>_. 7" "\<lambda>_. demo_px 0" "\<lambda>_. None" "[]"]
    pr01_gradient [OF this, of "\<lambda>_. 0" "\<lambda>_. demo_px 0" "\<lambda>_. None" "[]"] show ?thesis by (simp only:)
qed

end
