(* ===== verification/Ppm_Polygon.thy ===== *)
theory Ppm_Polygon
  imports Ppm_Transform
begin

section \<open>Polygons (CSCE646/pr02: shape.h, myppm.h, pr02.cpp)\<close>

text \<open>
  pr02 is unfinished: a constructor of its class is declared and not defined, so that it does not link, \<open>main\<close> shows an array that nothing
  has filled, and the polygon code is never called. What it would do is modelled here. The functions of the C library and the rounding of the machine are arguments; \<open>abs\<close> is one of them because it depends on the
  compiler whether the call means the function on \<open>int\<close> or on \<open>double\<close>. An angle that is no number is \<open>None\<close>, and every comparison
  with it fails. Messages are left out.
\<close>

type_synonym XY = "rat \<times> rat"

text \<open>The functions of the library, with the arc tangent at infinity apart.\<close>

record libm =
  m_sqrt :: "rat \<Rightarrow> rat"
  m_atan :: "rat \<Rightarrow> rat"
  m_atan_inf :: rat
  m_cos :: "rat \<Rightarrow> rat"
  m_sin :: "rat \<Rightarrow> rat"
  m_abs :: "rat \<Rightarrow> rat"

record RT =
  rho :: rat
  theta :: "rat option"

record my_poly =
  poly_vertex :: "XY list"
  v_rt :: "RT list"
  poly_center :: XY
  poly_num :: int

definition PI :: rat where
  "PI = 314159265 / 100000000"

subsection \<open>Lines and angles\<close>

definition get_a :: "(rat \<Rightarrow> rat) \<Rightarrow> XY \<Rightarrow> XY \<Rightarrow> rat c_result" where
  "get_a rnd p1 p2 =
     (let det = rnd (rnd (fst p1 * snd p2) - rnd (snd p1 * fst p2))
      in if det = 0 then Inl Exit_called else Inr (rnd (rnd (snd p2 - snd p1) / det)))"

definition get_b :: "(rat \<Rightarrow> rat) \<Rightarrow> XY \<Rightarrow> XY \<Rightarrow> rat c_result" where
  "get_b rnd p1 p2 =
     (let det = rnd (rnd (fst p1 * snd p2) - rnd (snd p1 * fst p2))
      in if det = 0 then Inl Exit_called else Inr (rnd (rnd (fst p1 - fst p2) / det)))"

text \<open>\<open>py / px\<close> is infinite or no number when \<open>px\<close> is zero, which is then a positive zero.\<close>

definition get_polar :: "(rat \<Rightarrow> rat) \<Rightarrow> libm \<Rightarrow> XY \<Rightarrow> XY \<Rightarrow> RT" where
  "get_polar rnd L c p =
     (let px = rnd (fst p - fst c);
          py = rnd (snd p - snd c);
          t = (if px \<noteq> 0 then Some (m_atan L (rnd (py / px)))
               else if py > 0 then Some (m_atan_inf L)
               else if py < 0 then Some (- m_atan_inf L)
               else None)
      in \<lparr>rho = m_sqrt L (rnd (rnd (px * px) + rnd (py * py))),
          theta = (if px < 0 \<and> py > 0 then map_option (\<lambda>t. rnd (t + rnd PI)) t
                   else if px > 0 \<and> py < 0 then map_option (\<lambda>t. rnd (t + rnd (2 * rnd PI))) t
                   else t)\<rparr>)"

definition my_poly_new :: "(rat \<Rightarrow> rat) \<Rightarrow> libm \<Rightarrow> XY list \<Rightarrow> XY \<Rightarrow> my_poly" where
  "my_poly_new rnd L v0 c0 = \<lparr>poly_vertex = v0, v_rt = map (get_polar rnd L c0) v0, poly_center = c0, poly_num = int (length v0)\<rparr>"

fun in_sector :: "rat option \<Rightarrow> rat option \<Rightarrow> rat option \<Rightarrow> bool" where
  "in_sector (Some t) (Some l) (Some r) \<longleftrightarrow> t \<ge> l \<and> t < r"
| "in_sector _ _ _ \<longleftrightarrow> False"

text \<open>The decision in a sector: a quotient by zero is infinite, and nothing is farther away.\<close>

definition behind_edge :: "(rat \<Rightarrow> rat) \<Rightarrow> libm \<Rightarrow> RT \<Rightarrow> XY \<Rightarrow> XY \<Rightarrow> bool c_result" where
  "behind_edge rnd L p p1 p2 =
     c_bind (get_a rnd p1 p2) (\<lambda>a. c_bind (get_b rnd p1 p2) (\<lambda>b.
       let d = rnd (rnd (a * m_cos L (the (theta p))) + rnd (b * m_sin L (the (theta p))))
       in Inr (d = 0 \<or> \<not> rho p > m_abs L (rnd (- 1 / d)))))"

text \<open>The loop of \<open>is_fill\<close>; behind it the function ends without a value.\<close>

fun fill_loop :: "(rat \<Rightarrow> rat) \<Rightarrow> libm \<Rightarrow> my_poly \<Rightarrow> RT \<Rightarrow> int list \<Rightarrow> bool c_result" where
  "fill_loop rnd L P p [] = Inl Uninitialised"
| "fill_loop rnd L P p (i # is) =
     c_bind (arr_get (v_rt P) (i mod poly_num P)) (\<lambda>p1.
     c_bind (arr_get (v_rt P) ((i + 1) mod poly_num P)) (\<lambda>p2.
     c_bind (arr_get (poly_vertex P) (i mod poly_num P)) (\<lambda>p1_xy.
     c_bind (arr_get (poly_vertex P) ((i + 1) mod poly_num P)) (\<lambda>p2_xy.
       if in_sector (theta p) (theta p1) (theta p2) then behind_edge rnd L p p1_xy p2_xy
       else fill_loop rnd L P p is))))"

definition is_fill :: "(rat \<Rightarrow> rat) \<Rightarrow> libm \<Rightarrow> my_poly \<Rightarrow> XY \<Rightarrow> bool c_result" where
  "is_fill rnd L P p = fill_loop rnd L P (get_polar rnd L (poly_center P) p) [0..poly_num P - 1]"

subsection \<open>The picture\<close>

text \<open>\<open>vertex\<close> of the class is \<open>None\<close> as long as nothing is assigned to it.\<close>

record poly_ppm =
  pp_width :: int
  pp_height :: int
  pp_output :: "RGB list"
  pp_center :: XY
  pp_vertex :: "XY list option"
  pp_num :: int

text \<open>\<open>shape == "star"\<close> compares addresses; \<open>same_object\<close> is its value. The array with the three vertices goes to a local variable that
  hides the member.\<close>

definition poly_ppm_init :: "(nat \<Rightarrow> RGB) \<Rightarrow> bool \<Rightarrow> int \<Rightarrow> int \<Rightarrow> poly_ppm \<Rightarrow> poly_ppm" where
  "poly_ppm_init junk same_object width0 height0 P =
     (let P1 = (if same_object then P\<lparr>pp_num := 3\<rparr> else P)
      in P1\<lparr>pp_width := width0, pp_height := height0, pp_output := map junk [0..<nat (width0 * height0)],
            pp_center := (of_int (width0 sdiv 2), of_int (height0 sdiv 2))\<rparr>)"

fun draw_loop :: "(XY \<Rightarrow> bool c_result) \<Rightarrow> int \<Rightarrow> (int \<times> int) list \<Rightarrow> RGB list \<Rightarrow> RGB list c_result" where
  "draw_loop fill w [] m = Inr m"
| "draw_loop fill w ((i, j) # ks) m =
     c_bind (fill (of_int i, of_int j)) (\<lambda>inside.
     c_bind (arr_get m (j * w + i)) (\<lambda>q.
     c_bind (arr_set m (j * w + i) (if inside then q\<lparr>red := 255\<rparr> else q\<lparr>blue := 255\<rparr>)) (draw_loop fill w ks)))"

text \<open>Fewer vertices than \<open>v_num\<close> says make the constructor read behind the array.\<close>

definition draw_poly :: "(rat \<Rightarrow> rat) \<Rightarrow> libm \<Rightarrow> poly_ppm \<Rightarrow> poly_ppm c_result" where
  "draw_poly rnd L P =
     (if pp_vertex P = None \<and> 0 < pp_num P then Inl Null_deref
      else let vs = (case pp_vertex P of None \<Rightarrow> [] | Some v \<Rightarrow> v)
           in if int (length vs) < pp_num P then Inl Out_of_bounds
              else c_bind (draw_loop (is_fill rnd L (my_poly_new rnd L (take (nat (pp_num P)) vs) (pp_center P))) (pp_width P)
                            (columns (pp_width P) (pp_height P)) (pp_output P)) (\<lambda>m. Inr (P\<lparr>pp_output := m\<rparr>)))"

text \<open>The object is global, and \<open>argv[1]\<close> is not the array of the literal.\<close>

definition poly_ppm0 :: poly_ppm where
  "poly_ppm0 = \<lparr>pp_width = 0, pp_height = 0, pp_output = [], pp_center = (0, 0), pp_vertex = None, pp_num = 0\<rparr>"

definition pr02_main :: "(nat \<Rightarrow> RGB) \<Rightarrow> byte list list \<Rightarrow> poly_ppm c_result" where
  "pr02_main junk argv = (if length argv < 2 then Inl Exit_called else Inr (poly_ppm_init junk False 800 600 poly_ppm0))"

subsection \<open>Lines\<close>




lemma fill_loop_skip:
  assumes "poly_num P = int (length (v_rt P))" and "length (poly_vertex P) = length (v_rt P)" and "v_rt P \<noteq> []"
    and "\<forall>i\<in>set is. \<not> in_sector (theta p) (theta (v_rt P ! nat (i mod poly_num P))) (theta (v_rt P ! nat ((i + 1) mod poly_num P)))"
  shows "fill_loop rnd L P p (is @ js) = fill_loop rnd L P p js"
  using assms(4)
proof (induction "is")
  case (Cons i "is")
  have n: "0 < poly_num P" using assms(1,3) by simp
  have "arr_get (v_rt P) (k mod poly_num P) = Inr (v_rt P ! nat (k mod poly_num P))"
      "arr_get (poly_vertex P) (k mod poly_num P) = Inr (poly_vertex P ! nat (k mod poly_num P))" for k
    using assms(1,2) n by (simp_all add: arr_get_def)
  with Cons show ?case by simp
qed simp








text \<open>Exact values at a point on the first axis.\<close>

definition demo_libm :: libm where
  "demo_libm = \<lparr>m_sqrt = \<lambda>x. if x = 4 then 2 else x, m_atan = \<lambda>x. x, m_atan_inf = PI / 2, m_cos = \<lambda>x. 1, m_sin = \<lambda>x. x, m_abs = abs\<rparr>"


subsection \<open>Quadrants\<close>

lemma polar_mirror:
  assumes "rounding rnd" and "rnd (fst p - fst c) > 0" and "rnd (snd p - snd c) > 0"
    and "fst q - fst c = - (fst p - fst c)" and "snd q - snd c = - (snd p - snd c)"
  shows "get_polar rnd L c q = get_polar rnd L c p"
proof -
  have "rnd (fst q - fst c) = - rnd (fst p - fst c)" "rnd (snd q - snd c) = - rnd (snd p - snd c)"
    using assms(1) unfolding assms(4,5) rounding_def by blast+
  with assms(2,3) show ?thesis by (simp add: get_polar_def Let_def)
qed

text \<open>Points of the third quadrant are taken for their mirror images in the first, although a comment names both the second and the third
  quadrant where the angle is corrected: the picture in the third quadrant is that of the first.\<close>

theorem is_fill_mirror:
  assumes "rounding rnd" and "rnd (fst p - fst (poly_center P)) > 0" and "rnd (snd p - snd (poly_center P)) > 0"
    and "fst q - fst (poly_center P) = - (fst p - fst (poly_center P))" and "snd q - snd (poly_center P) = - (snd p - snd (poly_center P))"
  shows "is_fill rnd L P q = is_fill rnd L P p"
  using polar_mirror [OF assms] by (simp add: is_fill_def)

subsection \<open>The sectors do not close\<close>

lemma fill_loop_gap:
  assumes "poly_num P = int (length (v_rt P))" and "length (poly_vertex P) = length (v_rt P)" and "v_rt P \<noteq> []"
    and "\<forall>i\<in>set is. \<not> in_sector (theta p) (theta (v_rt P ! nat (i mod poly_num P))) (theta (v_rt P ! nat ((i + 1) mod poly_num P)))"
  shows "fill_loop rnd L P p is = Inl Uninitialised"
  using fill_loop_skip [OF assms, of rnd L "[]"] by simp

text \<open>The polygon is open behind its last vertex. When the angles of the vertices increase, as they do around a convex polygon, no sector leads from
  the last vertex back to the first; for a point whose angle is at least that of the last vertex or below that of the first, \<open>is_fill\<close> ends
  without a value.\<close>

theorem is_fill_gap:
  assumes "vs \<noteq> []" and "map (\<lambda>v. theta (get_polar rnd L c v)) vs = map Some ts" and "sorted ts"
    and "theta (get_polar rnd L c p) = Some t" and "t < hd ts \<or> last ts \<le> t"
  shows "is_fill rnd L (my_poly_new rnd L vs c) p = Inl Uninitialised"
proof -
  let ?P = "my_poly_new rnd L vs c" and ?n = "length vs"
  have len: "length ts = ?n" using arg_cong [OF assms(2), of length] by simp
  then have "ts \<noteq> []" using assms(1) by auto
  then have ts: "hd ts = ts ! 0" "last ts = ts ! (?n - 1)" using len by (simp_all add: hd_conv_nth last_conv_nth)
  have th: "theta (v_rt ?P ! k) = Some (ts ! k)" if "k < ?n" for k
    using arg_cong [OF assms(2), of "\<lambda>xs. xs ! k"] that len by (simp add: my_poly_new_def)
  have mono: "ts ! k \<le> ts ! m" if "k \<le> m" "m < ?n" for k m using assms(3) that len by (simp add: sorted_iff_nth_mono)
  have "\<not> in_sector (Some t) (Some (ts ! k)) (Some (ts ! m))" if "k < ?n" "m < ?n" for k m
  proof -
    have "m \<le> ?n - 1" "?n - 1 < ?n" using that by auto
    with assms(5) ts mono [of 0 k] mono [of m "?n - 1"] that show ?thesis by auto
  qed
  note no_sector = this
  have idx: "nat (i mod poly_num ?P) < ?n" for i using assms(1) by (simp add: my_poly_new_def nat_less_iff)
  have "\<not> in_sector (Some t) (theta (v_rt ?P ! nat (i mod poly_num ?P))) (theta (v_rt ?P ! nat ((i + 1) mod poly_num ?P)))" for i
    unfolding th [OF idx] by (rule no_sector [OF idx idx])
  then have gap: "\<forall>i\<in>set [0..poly_num ?P - 1].
      \<not> in_sector (theta (get_polar rnd L c p)) (theta (v_rt ?P ! nat (i mod poly_num ?P))) (theta (v_rt ?P ! nat ((i + 1) mod poly_num ?P)))"
    unfolding assms(4) by blast
  have "poly_num ?P = int (length (v_rt ?P))" "length (poly_vertex ?P) = length (v_rt ?P)" "v_rt ?P \<noteq> []" "poly_center ?P = c"
    using assms(1) by (simp_all add: my_poly_new_def)
  from fill_loop_gap [OF this(1-3) gap] this(4) show ?thesis by (simp add: is_fill_def)
qed

theorem is_fill_gap_witness:
  "is_fill (\<lambda>x. x) demo_libm (my_poly_new (\<lambda>x. x) demo_libm [(1, 0), (1, 1), (1, 2)] (0, 0)) (1, 3) = Inl Uninitialised"
  using is_fill_gap [of "[(1, 0), (1, 1), (1, 2)]" "\<lambda>x. x" demo_libm "(0, 0)" "[0, 1, 2]" "(1, 3)" 3]
  by (simp add: get_polar_def demo_libm_def Let_def)

subsection \<open>The program\<close>

text \<open>Whatever the argument says, the program shows uninitialised memory: no vertices are stored, and with none \<open>draw_poly\<close>, if it were called,
  would end without a value at its first pixel.\<close>

theorem pr02_draws_nothing:
  "pr02_main junk [prog, shape] = Inr P \<Longrightarrow>
     pp_vertex P = None \<and> pp_output P = map junk [0..<480000] \<and> draw_poly rnd L P = Inl Uninitialised"
proof -
  assume "pr02_main junk [prog, shape] = Inr P"
  then have P: "P = poly_ppm_init junk False 800 600 poly_ppm0" by (simp add: pr02_main_def)
  have "columns 800 600 = (0, 0) # tl (columns 800 600)"
  proof -
    have "[0..600 - 1 :: int] = 0 # [1..599]" "[0..800 - 1 :: int] = 0 # [1..799]" by (simp_all add: upto_rec1)
    then show ?thesis by (simp add: columns_def)
  qed
  then obtain ks where "columns 800 600 = (0, 0) # ks" by blast
  then show ?thesis unfolding P
    by (simp add: poly_ppm_init_def poly_ppm0_def draw_poly_def is_fill_def my_poly_new_def Let_def del: upt_Suc)
qed

end
