(* ===== verification/Ppm_Display.thy ===== *)
theory Ppm_Display
  imports Ppm_Types Ppm_Pattern Ppm_Polygon
begin

section \<open>The windows of the image programs (CSCE646/pr01 to pr07)\<close>

text \<open>
  The end of every image program: it opens a window, registers its callbacks and leaves control to GLUT. GLUT and OpenGL are not part of the
  sources; the model records the calls that the program makes, in order and with their arguments, and has a function per callback. The
  result of a program is the calls of \<open>main\<close> up to \<open>glutMainLoop\<close> and those of its display callback.
\<close>

datatype gl_call =
    GlutInit | GlutInitWindowPosition int int | GlutInitWindowSize int int | GlutInitDisplayMode string | GlutCreateWindow string
  | GlutReshapeFunc string | GlutDisplayFunc string | GlutMouseFunc string | GlutMainLoop | GlClearColor nat nat nat nat
  | GlViewport int int int int | GlMatrixMode string | GlLoadIdentity | GlOrtho int int int int int int
  | GlClear string | GlRasterPos2i int int | GlPixelStorei string int | GlDrawPixels int int string string "byte list" | GlFlush

definition GLUT_UP :: int where
  "GLUT_UP = 1"

definition windowResize :: "int \<Rightarrow> int \<Rightarrow> gl_call list" where
  "windowResize w h =
     [GlViewport 0 0 w h, GlMatrixMode ''GL_PROJECTION'', GlLoadIdentity, GlOrtho 0 (w sdiv 2) 0 (h sdiv 2) 0 1,
      GlMatrixMode ''GL_MODELVIEW'', GlLoadIdentity]"

definition windowDisplay :: "int \<Rightarrow> int \<Rightarrow> byte list \<Rightarrow> gl_call list" where
  "windowDisplay w h pixels =
     [GlClear ''GL_COLOR_BUFFER_BIT'', GlRasterPos2i 0 0, GlPixelStorei ''GL_UNPACK_ALIGNMENT'' 1,
      GlDrawPixels w h ''GL_RGB'' ''GL_UNSIGNED_BYTE'' pixels, GlFlush]"

text \<open>The status of \<open>exit\<close>, if it is called.\<close>

definition processMouse :: "int \<Rightarrow> int \<Rightarrow> int \<Rightarrow> int \<Rightarrow> int option" where
  "processMouse button state x y = (if state = GLUT_UP then Some 0 else None)"

definition gl_init :: "gl_call list" where
  "gl_init = [GlClearColor 1 1 1 1]"

definition open_window :: "string \<Rightarrow> int \<Rightarrow> int \<Rightarrow> string \<Rightarrow> gl_call list" where
  "open_window title w h display =
     [GlutInit, GlutInitWindowPosition 100 100, GlutInitWindowSize w h, GlutInitDisplayMode ''GLUT_RGB | GLUT_SINGLE'', GlutCreateWindow title] @
     gl_init @ [GlutReshapeFunc ''windowResize'', GlutDisplayFunc display, GlutMouseFunc ''processMouse'', GlutMainLoop]"

definition map_bytes :: "RGB list \<Rightarrow> byte list" where
  "map_bytes m = concat (map px_bytes m)"

definition pr01_display :: "shown \<Rightarrow> gl_call list" where
  "pr01_display s = (case s of Picture pixmap \<Rightarrow> windowDisplay 256 256 pixmap | Image w h m \<Rightarrow> windowDisplay w h (map_bytes m))"

definition pr01 :: "(rat \<Rightarrow> rat) \<Rightarrow> (nat \<Rightarrow> byte) \<Rightarrow> (nat \<Rightarrow> RGB) \<Rightarrow> (byte list \<Rightarrow> byte list option) \<Rightarrow> byte list list \<Rightarrow> (gl_call list \<times> gl_call list) c_result" where
  "pr01 rnd junk_byte junk fs argv =
     c_bind (pr01_main rnd junk_byte junk fs argv) (\<lambda>s.
       case s of Picture _ \<Rightarrow> Inr (open_window ''my picture'' 256 256 ''picwindowDisplay'', pr01_display s)
       | Image w h _ \<Rightarrow> Inr (open_window ''pr01'' w h ''ppmwindowDisplay'', pr01_display s))"

definition pr02_display :: "poly_ppm \<Rightarrow> gl_call list" where
  "pr02_display P = windowDisplay (pp_width P) (pp_height P) (map_bytes (pp_output P))"

definition pr02 :: "(nat \<Rightarrow> RGB) \<Rightarrow> byte list list \<Rightarrow> (gl_call list \<times> gl_call list) c_result" where
  "pr02 junk argv = c_bind (pr02_main junk argv) (\<lambda>P. Inr (open_window ''pr02'' (pp_width P) (pp_height P) ''ppmwindowDisplay'', pr02_display P))"

definition pr03_display :: "myppm \<Rightarrow> gl_call list" where
  "pr03_display P = windowDisplay (width P) (height P) (map_bytes (pixel_map P))"

definition pr03 :: "(rat \<Rightarrow> rat) \<Rightarrow> (nat \<Rightarrow> RGB) \<Rightarrow> int \<Rightarrow> (byte list \<Rightarrow> byte list option) \<Rightarrow> byte list list \<Rightarrow> (gl_call list \<times> gl_call list) c_result" where
  "pr03 rnd junk h0 fs argv = c_bind (pr03_main rnd junk h0 fs argv) (\<lambda>P. Inr (open_window ''pr03'' (width P) (height P) ''ppmwindowDisplay'', pr03_display P))"

definition pr04_display :: "myppm \<Rightarrow> gl_call list" where
  "pr04_display P = windowDisplay (width P) (height P) (map_bytes (new_map P))"

definition pr04 :: "(rat \<Rightarrow> rat) \<Rightarrow> (nat \<Rightarrow> RGB) \<Rightarrow> (byte list \<Rightarrow> byte list option) \<Rightarrow> byte list list \<Rightarrow> (gl_call list \<times> gl_call list) c_result" where
  "pr04 rnd junk fs argv = c_bind (pr04_main rnd junk fs argv) (\<lambda>P. Inr (open_window ''pr04'' (width P) (height P) ''ppmwindowDisplay'', pr04_display P))"

definition pr05_display :: "myppm \<Rightarrow> gl_call list" where
  "pr05_display P = windowDisplay (width P) (height P) (map_bytes (new_map P))"

definition pr05 :: "(rat \<Rightarrow> rat) \<Rightarrow> (nat \<Rightarrow> RGB) \<Rightarrow> (nat \<Rightarrow> rat) \<Rightarrow> (byte list \<Rightarrow> byte list option) \<Rightarrow> byte list list \<Rightarrow> (gl_call list \<times> gl_call list) c_result" where
  "pr05 rnd junk junk_hue fs argv =
     c_bind (pr05_main rnd junk junk_hue fs argv) (\<lambda>P. Inr (open_window ''pr05'' (width P) (height P) ''ppmwindowDisplay'', pr05_display P))"

text \<open>\<open>output_map\<close> of pr06 and pr07 is the field \<open>new_map\<close>.\<close>

definition pr06_display :: "myppm \<Rightarrow> gl_call list" where
  "pr06_display P = windowDisplay (width P) (height P) (map_bytes (new_map P))"

definition pr06 :: "(rat \<Rightarrow> rat) \<Rightarrow> (rat \<Rightarrow> rat) \<Rightarrow> (rat \<Rightarrow> rat) \<Rightarrow> (nat \<Rightarrow> RGB) \<Rightarrow> (byte list \<Rightarrow> byte list option) \<Rightarrow> byte list list \<Rightarrow>
    (gl_call list \<times> gl_call list) c_result" where
  "pr06 rnd sine cosine junk fs argv =
     c_bind (pr06_main rnd sine cosine junk fs argv) (\<lambda>P. Inr (open_window ''pr06'' (width P) (height P) ''ppmwindowDisplay'', pr06_display P))"

definition pr07_display :: "myppm \<Rightarrow> gl_call list" where
  "pr07_display P = windowDisplay (width P) (height P) (map_bytes (new_map P))"

definition pr07 :: "(rat \<Rightarrow> rat) \<Rightarrow> (rat \<Rightarrow> rat) \<Rightarrow> (rat \<Rightarrow> rat) \<Rightarrow> (nat \<Rightarrow> RGB) \<Rightarrow> (byte list \<Rightarrow> byte list option) \<Rightarrow> byte list list \<Rightarrow>
    (gl_call list \<times> gl_call list) c_result" where
  "pr07 rnd sine cosine junk fs argv =
     c_bind (pr07_main rnd sine cosine junk fs argv) (\<lambda>P. Inr (open_window ''pr07'' (width P) (height P) ''ppmwindowDisplay'', pr07_display P))"

lemma length_map_bytes [simp]: "length (map_bytes m) = 3 * length m"
  by (induction m) (simp_all add: map_bytes_def px_bytes_def)

subsection \<open>The maps have the right size\<close>

definition sized :: "myppm \<Rightarrow> bool" where
  "sized P \<longleftrightarrow> length (pixel_map P) = nat (width P * height P) \<and> length (new_map P) = nat (width P * height P)"

lemma init_sized: "ppm_init junk h0 file = Inr P \<Longrightarrow> sized P"
  by (auto simp: ppm_init_def read_maps_split c_bind_Inr_iff sized_def Let_def dest!: read_map_length)

lemma keeps_sized: "keeps P res \<Longrightarrow> res = Inr Q \<Longrightarrow> sized P \<Longrightarrow> sized Q"
  by (auto simp: keeps_def sized_def)

lemma pr03_sized: "pr03_main rnd junk h0 fs argv = Inr P \<Longrightarrow> sized P"
  by (auto simp: pr03_main_def c_bind_Inr_iff Let_def ppm0_def sized_def [of "\<lparr>width = 0, height = 0, RGB_range = 0, pixel_map = [], new_map = []\<rparr>"]
      split: if_splits intro: keeps_sized [OF keeps_color_manipulation] keeps_sized [OF keeps_change_hue] dest: init_sized)

lemma pr04_sized: "pr04_main rnd junk fs argv = Inr P \<Longrightarrow> sized P"
  by (auto simp: pr04_main_def c_bind_Inr_iff split: if_splits intro: keeps_sized [OF keeps_conv_blur] keeps_sized [OF keeps_dilation] dest: init_sized)

lemma pr05_sized: "pr05_main rnd junk junk_hue fs argv = Inr P \<Longrightarrow> sized P"
  by (auto simp: pr05_main_def c_bind_Inr_iff split: if_splits intro: keeps_sized [OF keeps_hue_conv_blur] keeps_sized [OF keeps_hue_dilation] dest: init_sized)

lemma transformed_sized:
  assumes "sized P"
  shows "transformation rnd sine junk mtrx dimension argv P = Inr Q \<Longrightarrow> sized Q"
    and "pr06_transformation rnd junk mtrx dimension P = Inr Q \<Longrightarrow> sized Q"
proof -
  have len: "length (new_map P) = nat (width P * height P)" using assms by (simp add: sized_def)
  show "transformation rnd sine junk mtrx dimension argv P = Inr Q \<Longrightarrow> sized Q"
    by (rule keeps_sized [OF keeps_transformation [OF len] _ assms])
  show "pr06_transformation rnd junk mtrx dimension P = Inr Q \<Longrightarrow> sized Q"
    by (rule keeps_sized [OF keeps_pr06_transformation [OF len] _ assms])
qed

lemma pr06_sized: "pr06_main rnd sine cosine junk fs argv = Inr P \<Longrightarrow> sized P"
  by (auto simp: pr06_main_def c_bind_Inr_iff split: if_splits option.splits dest: transformed_sized [OF init_sized])

lemma pr07_sized: "pr07_main rnd sine cosine junk fs argv = Inr P \<Longrightarrow> sized P"
  by (auto simp: pr07_main_def c_bind_Inr_iff split: if_splits option.splits dest: transformed_sized [OF init_sized])

lemma pattern_loop_length: "pattern_loop f w ks m = Inr m' \<Longrightarrow> length m' = length m"
  by (induction ks arbitrary: m) (auto simp: c_bind_Inr_iff Let_def split: prod.splits dest!: arr_set_length)

subsection \<open>What the programs show\<close>

text \<open>The array that a program hands to \<open>glDrawPixels\<close> has three bytes for every pixel of the window, so that with the alignment of one that
  is set before it, nothing outside the array is asked for. For pr02 the array holds whatever was there: nothing fills it.\<close>

definition draws_all :: "gl_call list \<Rightarrow> bool" where
  "draws_all calls \<longleftrightarrow> (\<exists>w h pixels. calls = windowDisplay w h pixels \<and> length pixels = 3 * nat (w * h))"

lemma draws_allI: "length pixels = 3 * nat (w * h) \<Longrightarrow> draws_all (windowDisplay w h pixels)"
  by (auto simp: draws_all_def)

lemma sized_draws:
  assumes "sized P"
  shows "draws_all (windowDisplay (width P) (height P) (map_bytes (pixel_map P)))"
    and "draws_all (windowDisplay (width P) (height P) (map_bytes (new_map P)))"
  using assms by (auto simp: sized_def intro!: draws_allI)

lemma pr01_sized:
  "pr01_main rnd junk_byte junk fs argv = Inr (Picture pm) \<Longrightarrow> length pm = 3 * nat (256 * 256)"
  "pr01_main rnd junk_byte junk fs argv = Inr (Image w h m) \<Longrightarrow> length m = nat (w * h)"
  by (auto simp: pr01_main_def coolpicture_def c_bind_Inr_iff sized_def split: if_splits dest!: pattern_loop_length init_sized)

theorem pr01_draws: "pr01 rnd junk_byte junk fs argv = Inr (calls, display) \<Longrightarrow> draws_all display"
proof (cases "pr01_main rnd junk_byte junk fs argv")
  case (Inr s)
  then show "pr01 rnd junk_byte junk fs argv = Inr (calls, display) \<Longrightarrow> draws_all display"
    using pr01_sized by (cases s) (auto simp: pr01_def pr01_display_def intro!: draws_allI)
qed (simp add: pr01_def)

theorem pr02_draws: "pr02 junk argv = Inr (calls, display) \<Longrightarrow> draws_all display"
  by (auto simp: pr02_def pr02_display_def pr02_main_def poly_ppm_init_def Let_def split: if_splits intro!: draws_allI)

theorem pr03_draws: "pr03 rnd junk h0 fs argv = Inr (calls, display) \<Longrightarrow> draws_all display"
  by (auto simp: pr03_def pr03_display_def c_bind_Inr_iff intro: sized_draws dest: pr03_sized)

theorem pr04_draws: "pr04 rnd junk fs argv = Inr (calls, display) \<Longrightarrow> draws_all display"
  by (auto simp: pr04_def pr04_display_def c_bind_Inr_iff intro: sized_draws dest: pr04_sized)

theorem pr05_draws: "pr05 rnd junk junk_hue fs argv = Inr (calls, display) \<Longrightarrow> draws_all display"
  by (auto simp: pr05_def pr05_display_def c_bind_Inr_iff intro: sized_draws dest: pr05_sized)

theorem pr06_draws: "pr06 rnd sine cosine junk fs argv = Inr (calls, display) \<Longrightarrow> draws_all display"
  by (auto simp: pr06_def pr06_display_def c_bind_Inr_iff intro: sized_draws dest: pr06_sized)

theorem pr07_draws: "pr07 rnd sine cosine junk fs argv = Inr (calls, display) \<Longrightarrow> draws_all display"
  by (auto simp: pr07_def pr07_display_def c_bind_Inr_iff intro: sized_draws dest: pr07_sized)

end
