(* ===== verification/Ppm_Readers.thy ===== *)
theory Ppm_Readers
  imports Ppm_Transform
begin

section \<open>The readers of the other image programs (CSCE646/pr01, pr03, pr05, pr06 and pr07: myppm.h)\<close>

text \<open>
  Every image program has its own copy of \<open>ppm_init\<close>. The copies differ in the members they fill: one map in pr01 and pr03, two
  in pr05, and the number of pixels and the centre besides the map in pr06 and pr07. Their loops are written out here
  as the code has them, row by row from the last one, and compared with the reader of pr04, on which the models of the
  programs rest.
\<close>

record plain_ppm =
  p_width :: int
  p_height :: int
  p_range :: int
  p_map :: "RGB list"

record sized_ppm = plain_ppm +
  p_size :: int
  p_center :: "rat \<times> rat"
  p_translation :: "rat \<times> rat"

subsection \<open>The loops\<close>

text \<open>\<open>file_in.read(colors, sizeof colors)\<close>.\<close>

definition read3 :: "ifs \<Rightarrow> (RGB \<times> ifs) c_result" where
  "read3 s =
     (if \<not> good s \<or> length (rest s) < 3 then Inl Uninitialised
      else Inr (\<lparr>red = rest s ! 0, green = rest s ! 1, blue = rest s ! 2\<rparr>, s\<lparr>rest := drop 3 (rest s)\<rparr>))"

function pixel_row :: "int \<Rightarrow> int \<Rightarrow> int \<Rightarrow> ifs \<Rightarrow> RGB list \<Rightarrow> (ifs \<times> RGB list) c_result" where
  "pixel_row w i j s m =
     (if j < w then
        c_bind (read3 s) (\<lambda>(colors, s1). c_bind (arr_set m (i * w + j) colors) (pixel_row w i (j + 1) s1))
      else Inr (s, m))"
  by pat_completeness auto

termination pixel_row
  by (relation "measure (\<lambda>(w, i, j, s, m). nat (w - j))") auto

function pixel_rows :: "int \<Rightarrow> int \<Rightarrow> ifs \<Rightarrow> RGB list \<Rightarrow> RGB list c_result" where
  "pixel_rows w i s m =
     (if 0 \<le> i then c_bind (pixel_row w i 0 s m) (\<lambda>(s1, m1). pixel_rows w (i - 1) s1 m1) else Inr m)"
  by pat_completeness auto

termination pixel_rows
  by (relation "measure (\<lambda>(w, i, s, m). nat (i + 1))") auto

text \<open>The loops of pr05, which store every pixel in both maps.\<close>

function both_row :: "int \<Rightarrow> int \<Rightarrow> int \<Rightarrow> ifs \<Rightarrow> RGB list \<Rightarrow> RGB list \<Rightarrow> (ifs \<times> RGB list \<times> RGB list) c_result" where
  "both_row w i j s m n =
     (if j < w then
        c_bind (read3 s) (\<lambda>(colors, s1).
        c_bind (arr_set m (i * w + j) colors) (\<lambda>m1. c_bind (arr_set n (i * w + j) colors) (both_row w i (j + 1) s1 m1)))
      else Inr (s, m, n))"
  by pat_completeness auto

termination both_row
  by (relation "measure (\<lambda>(w, i, j, s, m, n). nat (w - j))") auto

function both_rows :: "int \<Rightarrow> int \<Rightarrow> ifs \<Rightarrow> RGB list \<Rightarrow> RGB list \<Rightarrow> (RGB list \<times> RGB list) c_result" where
  "both_rows w i s m n =
     (if 0 \<le> i then c_bind (both_row w i 0 s m n) (\<lambda>(s1, m1, n1). both_rows w (i - 1) s1 m1 n1) else Inr (m, n))"
  by pat_completeness auto

termination both_rows
  by (relation "measure (\<lambda>(w, i, s, m, n). nat (i + 1))") auto

declare pixel_row.simps [simp del] pixel_rows.simps [simp del] both_row.simps [simp del] both_rows.simps [simp del]

subsection \<open>The readers\<close>

definition pr01_ppm_init :: "(nat \<Rightarrow> RGB) \<Rightarrow> int \<Rightarrow> byte list option \<Rightarrow> plain_ppm c_result" where
  "pr01_ppm_init junk height0 file =
     c_bind (read_header height0 file) (\<lambda>(w, h, range, s).
     c_bind (pixel_rows w (h - 1) s (map junk [0..<nat (w * h)])) (\<lambda>m.
     Inr \<lparr>p_width = w, p_height = h, p_range = range, p_map = m\<rparr>))"

definition pr03_ppm_init :: "(nat \<Rightarrow> RGB) \<Rightarrow> int \<Rightarrow> byte list option \<Rightarrow> plain_ppm c_result" where
  "pr03_ppm_init junk height0 file =
     c_bind (read_header height0 file) (\<lambda>(w, h, range, s).
     c_bind (pixel_rows w (h - 1) s (map junk [0..<nat (w * h)])) (\<lambda>m.
     Inr \<lparr>p_width = w, p_height = h, p_range = range, p_map = m\<rparr>))"

definition pr05_ppm_init :: "(nat \<Rightarrow> RGB) \<Rightarrow> (nat \<Rightarrow> RGB) \<Rightarrow> int \<Rightarrow> byte list option \<Rightarrow> myppm c_result" where
  "pr05_ppm_init junk junk1 height0 file =
     c_bind (read_header height0 file) (\<lambda>(w, h, range, s).
     c_bind (both_rows w (h - 1) s (map junk [0..<nat (w * h)]) (map junk1 [0..<nat (w * h)])) (\<lambda>(m, n).
     Inr \<lparr>width = w, height = h, RGB_range = range, pixel_map = m, new_map = n\<rparr>))"

text \<open>\<open>width/2\<close> and \<open>height/2\<close> are divisions of whole numbers.\<close>

definition pr06_ppm_init :: "(nat \<Rightarrow> RGB) \<Rightarrow> int \<Rightarrow> byte list option \<Rightarrow> sized_ppm c_result" where
  "pr06_ppm_init junk height0 file =
     c_bind (read_header height0 file) (\<lambda>(w, h, range, s).
     let size = w * h; centre = (of_int (w sdiv 2), of_int (h sdiv 2)); shift = (0, 0)
     in c_bind (pixel_rows w (h - 1) s (map junk [0..<nat size])) (\<lambda>m.
        Inr \<lparr>p_width = w, p_height = h, p_range = range, p_map = m, p_size = size, p_center = centre, p_translation = shift\<rparr>))"

definition pr07_ppm_init :: "(nat \<Rightarrow> RGB) \<Rightarrow> int \<Rightarrow> byte list option \<Rightarrow> sized_ppm c_result" where
  "pr07_ppm_init junk height0 file =
     c_bind (read_header height0 file) (\<lambda>(w, h, range, s).
     let size = w * h; centre = (of_int (w sdiv 2), of_int (h sdiv 2)); shift = (0, 0)
     in c_bind (pixel_rows w (h - 1) s (map junk [0..<nat size])) (\<lambda>m.
        Inr \<lparr>p_width = w, p_height = h, p_range = range, p_map = m, p_size = size, p_center = centre, p_translation = shift\<rparr>))"

subsection \<open>The loops are the loop of pr04\<close>

lemma read_map_step:
  "read_map (\<lambda>q. q) (k # ks) s m = c_bind (read3 s) (\<lambda>(colors, s1). c_bind (arr_set m k colors) (read_map (\<lambda>q. q) ks s1))"
  by (simp add: read3_def)

lemma pixel_row_map:
  "read_map (\<lambda>q. q) (map (\<lambda>j. i * w + j) [j..w - 1] @ ks) s m = c_bind (pixel_row w i j s m) (\<lambda>(s1, m1). read_map (\<lambda>q. q) ks s1 m1)"
proof (induction w i j s m rule: pixel_row.induct)
  case (1 w i j s m)
  show ?case
  proof (cases "j < w")
    case True
    then have "[j..w - 1] = j # [j + 1..w - 1]" by (simp add: upto_rec1)
    then show ?thesis using 1 True
      by (subst pixel_row.simps) (auto simp: read_map_step c_bind_def simp del: read_map.simps split: sum.splits)
  qed (subst pixel_row.simps, simp)
qed

lemma pixel_rows_map: "pixel_rows w i s m = read_map (\<lambda>q. q) (pixel_order w (i + 1)) s m"
proof (induction w i s m rule: pixel_rows.induct)
  case (1 w i s m)
  show ?case
  proof (cases "0 \<le> i")
    case True
    then have "pixel_order w (i + 1) = map (\<lambda>j. i * w + j) [0..w - 1] @ pixel_order w i" by (simp add: pixel_order_def upto_rec2)
    then show ?thesis using 1 True
      by (subst pixel_rows.simps) (auto simp: pixel_row_map c_bind_def split: sum.splits)
  qed (subst pixel_rows.simps, simp add: pixel_order_def)
qed

text \<open>Two maps of the same length that are filled together: the second gets what the first gets.\<close>

lemma read_maps_step:
  "read_maps (k # ks) s m n =
     c_bind (read3 s) (\<lambda>(colors, s1). c_bind (arr_set m k colors) (\<lambda>m1. c_bind (arr_set n k colors) (read_maps ks s1 m1)))"
  by (simp add: read3_def Let_def)

lemma both_row_maps:
  "read_maps (map (\<lambda>j. i * w + j) [j..w - 1] @ ks) s m n = c_bind (both_row w i j s m n) (\<lambda>(s1, m1, n1). read_maps ks s1 m1 n1)"
proof (induction w i j s m n rule: both_row.induct)
  case (1 w i j s m n)
  show ?case
  proof (cases "j < w")
    case True
    then have "[j..w - 1] = j # [j + 1..w - 1]" by (simp add: upto_rec1)
    then show ?thesis using 1 True by (subst both_row.simps) (auto simp: read_maps_step c_bind_def simp del: read_maps.simps split: sum.splits)
  qed (subst both_row.simps, simp)
qed

lemma both_rows_maps: "both_rows w i s m n = read_maps (pixel_order w (i + 1)) s m n"
proof (induction w i s m n rule: both_rows.induct)
  case (1 w i s m n)
  show ?case
  proof (cases "0 \<le> i")
    case True
    then have "pixel_order w (i + 1) = map (\<lambda>j. i * w + j) [0..w - 1] @ pixel_order w i" by (simp add: pixel_order_def upto_rec2)
    then show ?thesis using 1 True by (subst both_rows.simps) (auto simp: both_row_maps c_bind_def split: sum.splits)
  qed (subst both_rows.simps, simp add: pixel_order_def)
qed

lemma read_maps_fails: "length m = length n \<Longrightarrow> read_map (\<lambda>q. q) ks s m = Inl u \<Longrightarrow> read_maps ks s m n = Inl u"
proof (induction ks arbitrary: s m n)
  case (Cons k ks)
  then show ?case
    by (auto simp: read_map_step read_maps_step arr_set_def c_bind_def simp del: read_map.simps read_maps.simps split: sum.splits if_splits)
qed simp

lemma read_maps_agree:
  assumes "length m = length n" and "read_map (\<lambda>q. q) ks s m = Inr m'" and "\<forall>k\<in>D. m ! k = n ! k"
  shows "\<exists>n'. read_maps ks s m n = Inr (m', n') \<and> length n' = length m' \<and> (\<forall>k\<in>D \<union> nat ` set ks. k < length m' \<longrightarrow> m' ! k = n' ! k)"
  using assms
proof (induction ks arbitrary: s m n D)
  case (Cons k ks)
  from Cons.prems(2) obtain colors s1 where r: "read3 s = Inr (colors, s1)" "0 \<le> k" "k < int (length m)"
      "read_map (\<lambda>q. q) ks s1 (m[nat k := colors]) = Inr m'"
    by (auto simp: read_map_step arr_set_def c_bind_Inr_iff simp del: read_map.simps split: if_splits)
  have "\<forall>d\<in>insert (nat k) D. m[nat k := colors] ! d = n[nat k := colors] ! d"
    using Cons.prems(1,3) r(2,3) by (auto simp: nth_list_update nth_list_update_neq intro: disjE [of "nat k = _" "nat k \<noteq> _"])
  from Cons.IH [OF _ r(4) this] Cons.prems(1) obtain n' where
    "read_maps ks s1 (m[nat k := colors]) (n[nat k := colors]) = Inr (m', n')" "length n' = length m'"
    "\<forall>d\<in>insert (nat k) D \<union> nat ` set ks. d < length m' \<longrightarrow> m' ! d = n' ! d" by auto
  with r(1-3) Cons.prems(1) show ?case by (auto simp: read_maps_step arr_set_def simp del: read_maps.simps)
qed auto

lemma pixel_order_all:
  assumes "0 \<le> w" and "0 \<le> h" and "k < nat (w * h)"
  shows "k \<in> nat ` set (pixel_order w h)"
proof -
  let ?k = "int k"
  have k: "?k < w * h" using assms by (simp add: zless_nat_eq_int_zless)
  then have w: "0 < w" using assms by (cases "w = 0") auto
  have split: "?k div w * w = ?k - ?k mod w" by (simp add: minus_mod_eq_div_mult)
  have m: "0 \<le> ?k mod w" "?k mod w < w" "0 \<le> ?k div w" using w by (simp_all add: pos_imp_zdiv_nonneg_iff)
  have "?k div w < h"
  proof (rule ccontr)
    assume "\<not> ?k div w < h"
    then have "h * w \<le> ?k div w * w" using w by (intro mult_right_mono) auto
    with split m(1) k show False by (simp add: mult.commute)
  qed
  with m split have "?k \<in> (\<lambda>j. ?k div w * w + j) ` {0..w - 1}" "?k div w \<in> {0..h - 1}" by (auto intro: image_eqI [of _ _ "?k mod w"])
  then have "?k \<in> set (pixel_order w h)" unfolding pixel_order_def by auto
  then show ?thesis by force
qed

lemma read_map_len: "read_map f ks s m = Inr m' \<Longrightarrow> length m' = length m"
  by (induction ks arbitrary: s m) (auto simp: c_bind_Inr_iff arr_set_def split: if_splits)

lemma read_maps_same:
  assumes "0 \<le> w" and "0 \<le> h" and "length m = nat (w * h)" and "length n = nat (w * h)"
  shows "read_maps (pixel_order w h) s m n = c_bind (read_map (\<lambda>q. q) (pixel_order w h) s m) (\<lambda>m'. Inr (m', m'))"
proof (cases "read_map (\<lambda>q. q) (pixel_order w h) s m")
  case (Inl u)
  with read_maps_fails [of m n _ s u] assms(3,4) show ?thesis by simp
next
  case (Inr m')
  have len: "length m' = nat (w * h)" using read_map_len [OF Inr] assms(3) by simp
  obtain n' where n': "read_maps (pixel_order w h) s m n = Inr (m', n')" "length n' = length m'"
      "\<forall>k\<in>nat ` set (pixel_order w h). k < length m' \<longrightarrow> m' ! k = n' ! k"
    using read_maps_agree [OF _ Inr, of n "{}"] assms(3,4) by auto
  have "m' ! k = n' ! k" if "k < length m'" for k
    using bspec [OF n'(3) pixel_order_all [OF assms(1,2)], of k] that len by simp
  with n'(2) have "m' = n'" by (intro nth_equalityI) auto
  with n'(1) Inr show ?thesis by simp
qed

subsection \<open>All readers agree\<close>

definition plain_of :: "myppm \<Rightarrow> plain_ppm" where
  "plain_of P = \<lparr>p_width = width P, p_height = height P, p_range = RGB_range P, p_map = pixel_map P\<rparr>"

definition sized_of :: "myppm \<Rightarrow> sized_ppm" where
  "sized_of P = \<lparr>p_width = width P, p_height = height P, p_range = RGB_range P, p_map = pixel_map P,
     p_size = width P * height P, p_center = center P, p_translation = (0, 0)\<rparr>"

lemma sdiv_nat: "int a sdiv 2 = int (a div 2)"
  by (cases a) (simp_all add: signed_divide_int_def zdiv_int)

text \<open>The six readers agree on every file that does not give a negative dimension, whether it can be read or not. pr01 and pr03 read the map that
  pr04 reads, pr06 and pr07 the same map with the number of pixels and the centre that their transformations use; pr04 and pr05, which
  fill two maps pixel by pixel, get two equal ones whatever the memory held.\<close>

theorem readers_agree:
  assumes "\<forall>w h range s. read_header h0 file = Inr (w, h, range, s) \<longrightarrow> 0 \<le> w \<and> 0 \<le> h"
  shows "pr01_ppm_init junk h0 file = c_bind (ppm_init junk h0 file) (\<lambda>P. Inr (plain_of P)) \<and>
    pr03_ppm_init junk h0 file = c_bind (ppm_init junk h0 file) (\<lambda>P. Inr (plain_of P)) \<and>
    pr05_ppm_init junk junk1 h0 file = ppm_init junk h0 file \<and>
    pr06_ppm_init junk h0 file = c_bind (ppm_init junk h0 file) (\<lambda>P. Inr (sized_of P)) \<and>
    pr07_ppm_init junk h0 file = c_bind (ppm_init junk h0 file) (\<lambda>P. Inr (sized_of P))"
proof (cases "read_header h0 file")
  case (Inl u)
  then show ?thesis
    by (simp add: ppm_init_def pr01_ppm_init_def pr03_ppm_init_def pr05_ppm_init_def pr06_ppm_init_def pr07_ppm_init_def)
next
  case (Inr x)
  obtain w h range s where x: "x = (w, h, range, s)" by (cases x)
  with Inr assms have "0 \<le> w" "0 \<le> h" by auto
  from read_maps_same [OF this] Inr x show ?thesis
    by (auto simp: ppm_init_def pr01_ppm_init_def pr03_ppm_init_def pr05_ppm_init_def pr06_ppm_init_def pr07_ppm_init_def
        pixel_rows_map both_rows_maps plain_of_def sized_of_def center_def c_bind_def Let_def split: sum.splits)
qed

text \<open>Claim C37: every image program reads a well-formed file as it was written. For a file with the header P6, any comment lines between the
  header lines, the dimensions and the range in decimal and the rows from top to bottom, where the first byte of the first pixel is not a
  comment sign, the readers of pr01 and pr03 return the dimensions, the range and the rows from bottom to top; that of pr05 the rows in both of
  its maps, whatever these held; those of pr06 and pr07 also the number of pixels, the pixel in the middle and no shift.\<close>

theorem readers_read:
  assumes "\<forall>c\<in>set (c1 @ c2 @ c3). 10 \<notin> set c" and "\<forall>r\<in>set rows. length r = n" and "0 < n" and "rows \<noteq> []"
    and "int n * int (length rows) \<le> INT_MAX" and "int rng \<le> INT_MAX" and "red (hd (hd rows)) \<noteq> 35"
  shows "let file = Some (ppm_file c1 c2 c3 n rng rows);
      plain = \<lparr>p_width = int n, p_height = int (length rows), p_range = int rng, p_map = concat (rev rows)\<rparr>;
      full = \<lparr>p_width = int n, p_height = int (length rows), p_range = int rng, p_map = concat (rev rows),
        p_size = int (n * length rows), p_center = (of_nat (n div 2), of_nat (length rows div 2)), p_translation = (0, 0)\<rparr>
    in pr01_ppm_init junk h0 file = Inr plain \<and> pr03_ppm_init junk h0 file = Inr plain \<and>
      pr05_ppm_init junk junk1 h0 file =
        Inr \<lparr>width = int n, height = int (length rows), RGB_range = int rng, pixel_map = concat (rev rows), new_map = concat (rev rows)\<rparr> \<and>
      pr06_ppm_init junk h0 file = Inr full \<and> pr07_ppm_init junk h0 file = Inr full"
proof -
  have "\<forall>w h range s. read_header h0 (Some (ppm_file c1 c2 c3 n rng rows)) = Inr (w, h, range, s) \<longrightarrow> 0 \<le> w \<and> 0 \<le> h"
    using file_parsed [OF assms, of h0 "\<lambda>c. c"] by auto
  from readers_agree [OF this, of junk junk1] init_read [OF assms, of junk h0] show ?thesis
    by (simp add: plain_of_def sized_of_def center_def sdiv_nat)
qed

theorem readers_read_witness:
  "pr05_ppm_init (\<lambda>_. demo_px 1) (\<lambda>_. demo_px 2) 0 (Some (ppm_file [] [] [] 2 255 [[demo_px 7, demo_px 8]])) =
     Inr \<lparr>width = 2, height = 1, RGB_range = 255, pixel_map = [demo_px 7, demo_px 8], new_map = [demo_px 7, demo_px 8]\<rparr> \<and>
   pr06_ppm_init (\<lambda>_. demo_px 1) 0 (Some (ppm_file [] [] [] 2 255 [[demo_px 7, demo_px 8]])) =
     Inr \<lparr>p_width = 2, p_height = 1, p_range = 255, p_map = [demo_px 7, demo_px 8], p_size = 2, p_center = (1, 0), p_translation = (0, 0)\<rparr>"
  using readers_read [of "[]" "[]" "[]" "[[demo_px 7, demo_px 8]]" 2 255 "\<lambda>_. demo_px 1" 0 "\<lambda>_. demo_px 2"]
  by (simp add: INT_MAX_def demo_px_def Let_def)

subsection \<open>Interpolation in pr06\<close>

text \<open>\<open>getpixel\<close> and \<open>bilinear\<close> of pr06, which its transformations do not use; \<open>out\<close> is \<open>output_map\<close>.\<close>

definition pr06_getpixel :: "sized_ppm \<Rightarrow> rat \<times> rat \<Rightarrow> RGB c_result" where
  "pr06_getpixel P point =
     c_bind (to_int (snd point)) (\<lambda>y. c_bind (to_int (fst point)) (\<lambda>x.
       let index = y * p_width P + x
       in if index \<ge> 0 \<and> index \<le> p_width P * p_height P then arr_get (p_map P) index else Inl Exit_called))"

definition pr06_bilinear :: "(rat \<Rightarrow> rat) \<Rightarrow> sized_ppm \<Rightarrow> RGB list \<Rightarrow> rat \<times> rat \<Rightarrow> RGB c_result" where
  "pr06_bilinear rnd P out point =
     (let x = fst point; y = snd point;
          x1 = of_int \<lfloor>x\<rfloor>; x2 = rnd (x1 + 1); y1 = of_int \<lfloor>y\<rfloor>; y2 = rnd (y1 + 1);
          wx1 = (\<lambda>v. rnd (rnd (of_int (uint v) * rnd (x2 - x)) / rnd (x2 - x1)));
          wx2 = (\<lambda>v. rnd (rnd (of_int (uint v) * rnd (x - x1)) / rnd (x2 - x1)));
          wy1 = rnd (rnd (y2 - y) / rnd (y2 - y1)); wy2 = rnd (rnd (y - y1) / rnd (y2 - y1))
      in if x2 < of_int (p_width P) \<and> y2 < of_int (p_height P)
         then c_bind (pr06_getpixel P (x1, y1)) (\<lambda>q11. c_bind (pr06_getpixel P (x2, y1)) (\<lambda>q21.
              c_bind (pr06_getpixel P (x1, y2)) (\<lambda>q12. c_bind (pr06_getpixel P (x2, y2)) (\<lambda>q22.
              to_pixel (\<lambda>ch. rnd (rnd (rnd (wy1 * rnd (wx1 (ch q11) + wx2 (ch q21))) + rnd (wy2 * rnd (wx1 (ch q12) + wx2 (ch q22)))) + 1 / 2))))))
         else if x2 = of_int (p_width P) \<and> y2 < of_int (p_height P)
         then c_bind (pr06_getpixel P (x1, y1)) (\<lambda>q11. c_bind (pr06_getpixel P (x1, y2)) (\<lambda>q12.
              c_bind (to_pixel (\<lambda>ch. rnd (rnd (rnd (wy1 * of_int (uint (ch q11))) + rnd (wy2 * of_int (uint (ch q12)))) + 1 / 2))) (\<lambda>_. Inl Uninitialised)))
         else if x2 < of_int (p_width P) \<and> y2 = of_int (p_width P)
         then c_bind (pr06_getpixel P (x1, y1)) (\<lambda>q11. c_bind (pr06_getpixel P (x2, y1)) (\<lambda>q21.
              c_bind (to_pixel (\<lambda>ch. rnd (rnd (wx1 (ch q11) + wx2 (ch q21)) + 1 / 2))) (\<lambda>_. Inl Uninitialised)))
         else c_bind (arr_get out (p_width P * p_width P - 1)) (\<lambda>_. Inl Uninitialised))"

theorem pr06_bilinear_agrees: "pr06_bilinear rnd (sized_of Q) (new_map Q) point = bilinear rnd Q point"
proof -
  have f: "p_width (sized_of Q) = width Q" "p_height (sized_of Q) = height Q" "p_map (sized_of Q) = pixel_map Q" by (simp_all add: sized_of_def)
  have "pr06_getpixel (sized_of Q) = getpixel Q" unfolding fun_eq_iff pr06_getpixel_def getpixel_def f by simp
  then show ?thesis unfolding pr06_bilinear_def bilinear_def along_x_def along_y_def Let_def f by simp
qed

end
