(* ===== verification/Ppm_Tests.thy ===== *)
theory Ppm_Tests
  imports Ppm_Color
begin

section \<open>The test programs (CSCE646/pr03/test.cpp, pr04/test.cpp)\<close>

text \<open>
  Small programs in which the tables of pr03 and a convolution on one channel were tried out. Their functions are earlier versions of the
  ones in myppm.h and print every entry; what they print is part of their result.
\<close>

subsection \<open>Tables (pr03/test.cpp)\<close>

text \<open>The value of a cubic curve is taken at the old entry of the table, where pr03 takes the index.\<close>

fun test_cubic_loop :: "(rat \<Rightarrow> rat) \<Rightarrow> (rat \<times> rat) list \<Rightarrow> int list \<Rightarrow> int list \<Rightarrow> (int \<times> int) list \<Rightarrow> (int list \<times> (int \<times> int) list) c_result" where
  "test_cubic_loop rnd point [] m printed = Inr (m, printed)"
| "test_cubic_loop rnd point (i # is) m printed =
     c_bind (arr_get m i) (\<lambda>x.
     if \<not> distinct (map fst point) then Inl Signed_overflow
     else c_bind (to_int (rnd (cubic_value rnd point x * 255))) (\<lambda>v.
          c_bind (arr_set m i v) (\<lambda>m1. test_cubic_loop rnd point is m1 (printed @ [(i, v)]))))"

definition test_cubic_curve_single :: "(rat \<Rightarrow> rat) \<Rightarrow> (rat \<times> rat) list \<Rightarrow> int list \<Rightarrow> (int list \<times> (int \<times> int) list) c_result" where
  "test_cubic_curve_single rnd point color_map = test_cubic_loop rnd point [0..255] color_map []"

function test_segment_loop :: "(int \<Rightarrow> rat) \<Rightarrow> rat \<Rightarrow> rat \<Rightarrow> int \<Rightarrow> int list \<Rightarrow> (int \<times> int) list \<Rightarrow> (int \<times> int list \<times> (int \<times> int) list) c_result" where
  "test_segment_loop v l r rgb_index m printed =
     (if l \<le> of_int rgb_index \<and> of_int rgb_index < r
      then c_bind (to_int (v rgb_index)) (\<lambda>a. c_bind (arr_set m rgb_index a) (\<lambda>m1.
           test_segment_loop v l r (rgb_index + 1) m1 (printed @ [(rgb_index, a)])))
      else Inr (rgb_index, m, printed))"
  by pat_completeness auto

termination test_segment_loop
  by (relation "measure (\<lambda>(v, l, r, i, m, out). nat (\<lceil>r\<rceil> - i))") (auto simp: less_ceiling_iff zless_nat_conj)

declare test_segment_loop.simps [simp del]

fun test_segments :: "(rat \<Rightarrow> rat) \<Rightarrow> int \<Rightarrow> rat list \<Rightarrow> int list \<Rightarrow> int \<Rightarrow> int list \<Rightarrow> (int \<times> int) list \<Rightarrow> (int \<times> int list \<times> (int \<times> int) list) c_result" where
  "test_segments rnd n rn [] rgb_index m printed = Inr (rgb_index, m, printed)"
| "test_segments rnd n rn (i # is) rgb_index m printed =
     c_bind (test_segment_loop (segment_value rnd (linear_slope rnd n rn i) (dot_x rnd n i) (rn ! nat i))
              (rnd (dot_x rnd n i * 255)) (rnd (dot_x rnd n (i + 1) * 255)) rgb_index m printed)
       (\<lambda>(rgb_index, m, printed). test_segments rnd n rn is rgb_index m printed)"

definition test_piecewise_linear :: "(rat \<Rightarrow> rat) \<Rightarrow> int \<Rightarrow> rat list \<Rightarrow> int list \<Rightarrow> (int list \<times> (int \<times> int) list) c_result" where
  "test_piecewise_linear rnd n rn color_map =
     (if n < 0 then Inl Exit_called
      else if int (length rn) \<le> n then Inl Out_of_bounds
      else c_bind (test_segments rnd n rn [0..n - 1] 0 color_map []) (\<lambda>(rgb_index, m, printed).
           c_bind (to_int (rnd (255 * rn ! nat n))) (\<lambda>v. c_bind (arr_set m rgb_index v) (\<lambda>m1. Inr (m1, printed @ [(rgb_index, v)])))))"

text \<open>What the program does for a value of the variable \<open>testcase\<close>, which is 4: the first case reads numbers for ever.\<close>

datatype test_output = Reads_for_ever | Prints_number int | Prints_table "(int \<times> int) list" | Prints_nothing

definition pr03_test_main :: "(rat \<Rightarrow> rat) \<Rightarrow> (nat \<Rightarrow> int) \<Rightarrow> int \<Rightarrow> test_output c_result" where
  "pr03_test_main rnd junk testcase =
     (if testcase = 1 then Inr Reads_for_ever
      else if testcase = 2 then Inr (Prints_number ((51 - 48) mod 48))
      else if testcase = 3
      then c_bind (test_piecewise_linear rnd 5 (map rnd [0, 1 / 2, 2 / 5, 3 / 5, 4 / 5, 1 / 2]) (map junk [0..<256])) (\<lambda>(_, out). Inr (Prints_table out))
      else if testcase = 4
      then c_bind (test_cubic_curve_single rnd [(0, 1 / 2), (1 / 4, 1 / 4), (3 / 4, 3 / 4), (1, 1 / 2)] [0..255]) (\<lambda>(_, out). Inr (Prints_table out))
      else Inr Prints_nothing)"

text \<open>What is printed is what is stored.\<close>

lemma test_segment_loop_agrees:
  "c_bind (test_segment_loop v l r k m printed) (\<lambda>(k', m', out). Inr (k', m')) = segment_loop v l r k m"
proof (induction v l r k m printed rule: test_segment_loop.induct)
  case (1 v l r k m printed)
  then show ?case
    by (subst test_segment_loop.simps, subst segment_loop.simps) (auto simp: c_bind_def split: sum.splits)
qed

lemma test_segments_agrees:
  "c_bind (test_segments rnd n rn is k m printed) (\<lambda>(k', m', out). Inr (k', m')) = segments rnd n rn is k m"
proof (induction "is" arbitrary: k m printed)
  case (Cons i "is")
  let ?loop = "test_segment_loop (segment_value rnd (linear_slope rnd n rn i) (dot_x rnd n i) (rn ! nat i))
    (rnd (dot_x rnd n i * 255)) (rnd (dot_x rnd n (i + 1) * 255)) k m printed"
  show ?case
  proof (cases ?loop)
    case (Inl u)
    with test_segment_loop_agrees [of _ _ _ k m printed] show ?thesis by (simp flip: test_segment_loop_agrees [where printed = printed])
  next
    case (Inr x)
    obtain k' m' out where "x = (k', m', out)" by (cases x)
    with Inr Cons [of k' m' out] show ?thesis by (simp flip: test_segment_loop_agrees [where printed = printed])
  qed
qed simp

lemma test_cubic_loop_agrees:
  assumes "\<forall>i\<in>set is. 0 \<le> i \<and> i < int (length m) \<and> m ! nat i = i" and "distinct is"
  shows "test_cubic_loop rnd point is m printed =
    c_bind (cubic_loop rnd point is m) (\<lambda>m'. Inr (m', printed @ map (\<lambda>i. (i, m' ! nat i)) is))"
  using assms
proof (induction "is" arbitrary: m printed)
  case (Cons i "is")
  have keep: "cubic_loop rnd point is m1 = Inr m' \<Longrightarrow> i \<notin> set is \<Longrightarrow> \<forall>j\<in>set is. 0 \<le> j \<Longrightarrow> 0 \<le> i \<Longrightarrow> m' ! nat i = m1 ! nat i" for m1 m'
    by (induction "is" arbitrary: m1) (auto simp: c_bind_Inr_iff arr_set_def nth_list_update split: if_splits)
  have "i < int (length m)" "0 \<le> i" "m ! nat i = i" using Cons.prems(1) by auto
  moreover have "test_cubic_loop rnd point is (m[nat i := v]) (printed @ [(i, v)]) =
      c_bind (cubic_loop rnd point is (m[nat i := v])) (\<lambda>m'. Inr (m', (printed @ [(i, v)]) @ map (\<lambda>i. (i, m' ! nat i)) is))" for v
  proof (rule Cons.IH)
    show "\<forall>j\<in>set is. 0 \<le> j \<and> j < int (length (m[nat i := v])) \<and> m[nat i := v] ! nat j = j"
      using Cons.prems by (auto simp: nth_list_update)
  qed (use Cons.prems in simp)
  moreover have "m' ! nat i = v" if "cubic_loop rnd point is (m[nat i := v]) = Inr m'" for v m'
    using keep [OF that] Cons.prems by auto
  ultimately show ?case by (auto simp: arr_get_def arr_set_def c_bind_def split: sum.splits)
qed simp

text \<open>The test program of pr03 computes the tables of pr03. On the table that maps every value to itself its cubic curve is that of pr03, entry by entry and
  for every rounding, failures included, although it reads the table it is filling; its piecewise linear curve stores what pr03 stores; and what the
  program prints for its test case is the finished table.\<close>

theorem pr03_test_agrees:
  "c_bind (test_cubic_curve_single rnd point [0..255]) (\<lambda>(m, out). Inr m) = cubic_curve_single rnd point [0..255] \<and>
   c_bind (test_piecewise_linear rnd n rn m) (\<lambda>(m, out). Inr m) = piecewise_linear_single rnd n rn m \<and>
   pr03_test_main rnd junk 4 =
     c_bind (cubic_curve_single rnd [(0, 1 / 2), (1 / 4, 1 / 4), (3 / 4, 3 / 4), (1, 1 / 2)] [0..255])
       (\<lambda>m. Inr (Prints_table (map (\<lambda>i. (i, m ! nat i)) [0..255])))"
proof -
  have id: "\<forall>i\<in>set [0..255]. 0 \<le> i \<and> i < int (length [0..255 :: int]) \<and> [0..255 :: int] ! nat i = i" by (simp add: nth_upto)
  have cubic: "test_cubic_curve_single rnd point [0..255] =
      c_bind (cubic_curve_single rnd point [0..255]) (\<lambda>m'. Inr (m', map (\<lambda>i. (i, m' ! nat i)) [0..255]))" for point
    unfolding test_cubic_curve_single_def cubic_curve_single_def by (simp only: test_cubic_loop_agrees [OF id distinct_upto] append_Nil)
  have "c_bind (test_piecewise_linear rnd n rn m) (\<lambda>(m, out). Inr m) = piecewise_linear_single rnd n rn m"
    unfolding test_piecewise_linear_def piecewise_linear_single_def test_segments_agrees [symmetric, where printed = "[]"]
    by (auto simp: c_bind_def split: sum.splits)
  moreover have "c_bind (test_cubic_curve_single rnd point [0..255]) (\<lambda>(m, out). Inr m) = cubic_curve_single rnd point [0..255]"
    unfolding cubic by (simp add: c_bind_def split: sum.splits)
  moreover have "pr03_test_main rnd junk 4 =
     c_bind (cubic_curve_single rnd [(0, 1 / 2), (1 / 4, 1 / 4), (3 / 4, 3 / 4), (1, 1 / 2)] [0..255])
       (\<lambda>m. Inr (Prints_table (map (\<lambda>i. (i, m ! nat i)) [0..255])))"
    unfolding pr03_test_main_def cubic by (simp add: c_bind_def split: sum.splits)
  ultimately show ?thesis by blast
qed

subsection \<open>A convolution (pr04/test.cpp)\<close>

definition test_width :: int where
  "test_width = 5"

fun test_window_loop :: "int list \<Rightarrow> int \<Rightarrow> byte list \<Rightarrow> int \<Rightarrow> int \<Rightarrow> (int \<times> int) list \<Rightarrow> int \<Rightarrow> int c_result" where
  "test_window_loop kern sz pixels x0 y0 [] acc = Inr acc"
| "test_window_loop kern sz pixels x0 y0 ((xk, yk) # ks) acc =
     c_bind (arr_get pixels ((x0 + xk) * test_width + (y0 + yk))) (\<lambda>p.
     c_bind (arr_get kern (xk * sz + yk)) (\<lambda>k.
     c_bind (mac acc p k) (test_window_loop kern sz pixels x0 y0 ks)))"

definition test_conv_single_pixel :: "(rat \<Rightarrow> rat) \<Rightarrow> int list \<Rightarrow> int \<Rightarrow> int \<Rightarrow> int \<Rightarrow> byte list \<Rightarrow> byte list \<Rightarrow> byte list c_result" where
  "test_conv_single_pixel rnd kern sz x y pixels new_pixels =
     c_bind (test_window_loop kern sz pixels (x - conv_range sz) (y - conv_range sz) (window sz) 0) (\<lambda>acc.
     c_bind (to_int (rnd (of_int acc / of_int (sz * sz)))) (\<lambda>avg.
     arr_set new_pixels (x * test_width + y) (word_of_int avg)))"

fun test_conv_loop :: "(rat \<Rightarrow> rat) \<Rightarrow> int list \<Rightarrow> byte list \<Rightarrow> (int \<times> int) list \<Rightarrow> byte list \<Rightarrow> byte list c_result" where
  "test_conv_loop rnd kern pixels [] new_pixels = Inr new_pixels"
| "test_conv_loop rnd kern pixels ((i, j) # ps) new_pixels =
     c_bind (test_conv_single_pixel rnd kern 3 i j pixels new_pixels) (test_conv_loop rnd kern pixels ps)"

definition test_map :: "byte list" where
  "test_map = lit ''0000009990099900999000000''"

definition pr04_test_main :: "(rat \<Rightarrow> rat) \<Rightarrow> byte list c_result" where
  "pr04_test_main rnd =
     test_conv_loop rnd (replicate 9 1) test_map (concat (map (\<lambda>i. map (\<lambda>j. (i, j)) [1..3]) [1..3])) test_map"

text \<open>The square of nines is blurred: its corners become fours, its edges sixes, and its middle stays a nine; the border is not touched. Every sum of
  nine digits is a multiple of nine here, so that no rounding matters.\<close>

theorem pr04_test_blurs:
  assumes "exact_ints rnd"
  shows "pr04_test_main rnd = Inr (lit ''0000004640069600464000000'')"
proof -
  have map: "test_map = [48, 48, 48, 48, 48, 48, 57, 57, 57, 48, 48, 57, 57, 57, 48, 48, 57, 57, 57, 48, 48, 48, 48, 48, 48]"
    by (simp add: test_map_def lit_def byte_of_char_def)
  have ex: "rnd 52 = 52" "rnd 54 = 54" "rnd 57 = 57"
    using assms [unfolded exact_ints_def, rule_format, of 52] assms [unfolded exact_ints_def, rule_format, of 54]
      assms [unfolded exact_ints_def, rule_format, of 57] by simp_all
  have win: "window 3 = [(0, 0), (1, 0), (2, 0), (0, 1), (1, 1), (2, 1), (0, 2), (1, 2), (2, 2)]"
    by (simp add: window_def upto.simps)
  have cells: "concat (map (\<lambda>i. map (\<lambda>j. (i, j)) [1..3]) [1..3 :: int]) = [(1, 1), (1, 2), (1, 3), (2, 1), (2, 2), (2, 3), (3, 1), (3, 2), (3, 3 :: int)]"
    by (simp add: upto.simps)
  have range: "conv_range 3 = 1" by (simp add: conv_range_def)
  show ?thesis
    unfolding pr04_test_main_def cells map
    by (simp add: test_conv_single_pixel_def win range test_width_def arr_get_def arr_set_def mac_def in_int_def INT_MAX_def to_int_def trunc_def ex
        lit_def byte_of_char_def)
qed

end
