(* ===== verification/Spec2Isabelle.thy ===== *)
theory Spec2Isabelle
  imports Ir_Race Ir_Receiver Tftp_Programs Web_Session Sbcp_System Echo_Session Xparameters Board Fpga_Lab1 Ppm_Display Ppm_Readers Ppm_Tests
begin

text \<open>
  \<^bold>\<open>A verification library for the programs of this repository\<close>

  The repository holds the programs of three courses: network programs (ECEN602), embedded and kernel
  programs for a Zynq board (ECEN749) and image programs (CSCE646). They are separate programs that
  talk to each other over sockets, device files or registers. This library models them, one theory per program
  or component, in the order below.

  \<^bold>\<open>Conventions\<close> (\<open>Prelude\<close>). A C function is a HOL function on an explicit state, translated in the order of
  its statements. What C leaves undefined is never given a value: the result \<open>Inl u\<close> of type \<open>c_result\<close> says
  what went wrong (an access out of bounds, an indeterminate value used, a freed object used, a null
  pointer, a wrong \<open>kfree\<close>, a signed overflow). What a system call, the network, the clock, a device register or
  uninitialised memory delivers is an argument, so that a theorem holds for everything they may do.
  A loop is a recursive function on its data or with a termination proof; where a loop may run forever
  it either consumes a list of inputs (and every statement is for lists of any length), or is a
  \<open>partial_function\<close> whose value \<open>None\<close> means that it does not return; where the result is promised the
  theorem says that it is \<open>Some\<close>. Output on a console is modelled where it is what the program is for.
  \<open>C_Numbers\<close> has the reading of decimal numbers (\<open>atoi\<close> and stream extraction), which several programs share.

  \<^bold>\<open>Infrared receiver\<close> (ECEN749/lab8: ir\_demod\_v2\_0\_S00\_AXI.v, msg\_queue.h, ir\_dev.c, ir\_dev.h, devtest.c).
    \<^item> \<open>Ir_Demod\<close>: the demodulator, one step per clock period; the signal of a remote control becomes the twelve bits that were sent.
    \<^item> \<open>Ir_Axi\<close>: its bus interface and the interrupt block, on the transactions of a bus master.
    \<^item> \<open>Fifo_Interface\<close>: the contract of a bounded first-in first-out queue, a locale, with what its clients use.
    \<^item> \<open>Msg_Queue\<close>: the ring buffer with all its operations; it satisfies the contract (interpretation \<open>mq\<close>) up
      to the point where the read index reaches the last slot, and then leaves its array.
    \<^item> \<open>Ir_Dev\<close>: load, unload, open, release, read, write and the interrupt handler of the driver and the test
      program's decoding; a burst of interrupts is printed in order; lengths, failing opens and the polling
      loop of the handler.
    \<^item> \<open>Ir_Race\<close>: opens, closes and interrupts of several processes interleaved, a step relation; at most one
      process is inside, but the queue can be freed under it and used after it was freed.
    \<^item> \<open>Ir_Test\<close>: the whole test program on top of the driver; a session of interrupts and one-digit numbers refines a
      mailbox; longer lines overrun its input, and \<open>q\<close> does not end it.
    \<^item> \<open>Ir_Receiver\<close>: the circuit, the driver and the test program together: what a remote control sends is what the user reads. A message
      that arrives while the handler acknowledges the one before is lost.

  \<^bold>\<open>TFTP servers\<close> (ECEN602/assignment3: tftps.c, server.c).
    \<^item> \<open>Tftp_Common\<close>: the state of the forked child, datagrams, the stop-and-wait sender as a specification, the
      locales for a source of blocks (\<open>block_reader\<close>) and for a child that refines the sender
      (\<open>sending_child\<close>), and the proof rules for results.
    \<^item> \<open>Tftps\<close>, \<open>Tftp_Server\<close>: the two versions, every branch of the child from the request to its cleanup. Read
      transfers in both modes refine the sender; write transfers store what is stated, for all payloads, the byte 255 included, which
      both versions take for the end of a file; the two versions agree on read transfers; the cleanup, the copying of names and of error texts are unsafe.
      \<open>dec2bin\<close> runs on at most 32 bits of its argument, which is the fuel of its loop.
    \<^item> \<open>Tftp_Delivery\<close>: a server, a network that loses datagrams in both directions and a client that keeps to the protocol, which
      is a specification. The file arrives, complete and unchanged, if never ten datagrams in a row are lost; a late
      acknowledgement costs a block.
    \<^item> \<open>Tftp_Programs\<close>: the \<open>main\<close> of both programs; every one of any number of clients that ask for text is
      served by a child of its own, and every child ends in a cleanup that is undefined. \<open>tft_transfer\<close> and \<open>srv_transfer\<close> are the children up to that cleanup.

  \<^bold>\<open>Web proxy\<close> (ECEN602/assignment4: query\_cache.cpp, proxy.cpp, proxy\_main.cpp, client.c).
    \<^item> \<open>Query_Cache\<close>: the doubly linked list on a heap of nodes; up to ten pages it refines a list of pages
      (locale \<open>page_cache\<close>, interpretation \<open>qc\<close>); the eleventh page leaves a dangling pointer.
    \<^item> \<open>Proxy\<close>: parsing, building requests, receiving, storing and serving, composed as in the code; a miss is
      fetched and stored, a hit is served from the file, an expired page is revalidated. Two defects of the code are arguments: the number of unused bytes
      behind the array for the file name, which is one byte too short (\<open>vla_slack\<close>; with none the access is out of bounds), and the stale bytes behind a request
      in the receive buffer. The theorems name what they need of them: one unused byte, and bytes that are \<open>harmless\<close>.
    \<^item> \<open>Http_Client\<close>: the request built from the command line, which the proxy understands, and the received file.
    \<^item> \<open>Web_Programs\<close>: the constructor, the loop around \<open>select\<close> and the \<open>main\<close> of the proxy, the \<open>main\<close> of the client, and
      both together, from the command line to the stored file.
    \<^item> \<open>Web_Session\<close>: any sequence of rounds of \<open>select\<close>, with several clients connected and asking at a time, for at most ten
      unexpired pages; every page is requested once and everybody gets it, provided that no two pages share a file name, as pages do
      that differ in a slash and an underscore.

  \<^bold>\<open>Chat\<close> (ECEN602/assignment2: server.h, server.cpp, server\_main.cpp, client.c).
    \<^item> \<open>Sbcp_Server\<close>: the client table, messages and all events of the server's loop. Within a room whose slot
      behind the last client is reset, any session of messages and idle notices refines an abstract room;
      joining works for two clients and fails with the third; leaving makes a hole. At every forward the server asks \<open>FD_ISSET\<close> about the
      descriptor -1, which is undefined: the answer is an argument, and the theorems on rooms hold for either answer, if there is one.
    \<^item> \<open>Sbcp_Client\<close>: its messages, its display and its loop; a typed line appears at all other clients.
      The loop over the table when a client hangs up has the number of clients as fuel, which bounds
      its steps because the count only shrinks.
    \<^item> \<open>Sbcp_Program\<close>: the loop around \<open>select\<close> and the \<open>main\<close> of the server; rounds with messages of any members refine
      the abstract room.
    \<^item> \<open>Sbcp_System\<close>: the \<open>main\<close> of the client, and the server with two clients from the start of all programs.

  \<^bold>\<open>Echo service\<close> (ECEN602/assignment1: echo.c, server.cpp, server\_main.cpp). \<open>Echo\<close>: \<open>writen\<close>, \<open>readline\<close>, the child of the server
  and the client, separately and end to end. \<open>Echo_Server\<close>: the server with its children, for any mixture of clients; every client that sends texts gets them back. \<open>Echo_Session\<close>: the \<open>main\<close> of the client, and a
  session of client and server from their start to the end of the user's input, in whatever pieces the lines arrive.

  \<^bold>\<open>Board programs\<close> (ECEN749/lab1, 2, 3, 5, 6, 7). \<open>Multiplier\<close>: the driver, its test program and the module of
  lab5; the multiplier core is a parameter with its documented behaviour as the hypothesis \<open>multiplies\<close>.
  \<open>Board\<close>: the button counter, which refines a description of its panel, the core test with the glue of the vendor around it, and the
  message display. \<open>Xparameters\<close>: the address map of the board (lab6: xparameters.h, xparameters\_ps.h), in which the registers of the multiplier
  belong to no other peripheral whose range is known, and what the driver reads depends on them alone. \<open>Fpga_Lab1\<close>: the circuits of lab1, with the rules of the jackpot game.

  \<^bold>\<open>Image programs\<close> (CSCE646/pr01 to pr07). A \<open>double\<close> is a rational number, and the rounding of the machine is an argument \<open>rnd\<close>
  of the definitions, applied after every operation that may round. Theorems hold for every rounding, for every rounding that
  is monotone, symmetric and exact on integers (\<open>rounding\<close>), with a bounded relative error (\<open>precise\<close>), or in exact arithmetic (the
  identity), as each of them says. The files that are read are arguments as well.
    \<^item> \<open>Ppm\<close>: the reader (pr04/myppm.h): lines, comments, numbers and pixels of a
      C++ stream. A file is read as it was written, unless its first byte is taken for a comment sign.
    \<^item> \<open>Ppm_Filter\<close>: convolution, erosion and \<open>main\<close> of pr04. The locale \<open>pixel_filter\<close> turns the treatment of one pixel into a
      statement on the whole image; interpretations \<open>erosion\<close> and \<open>convolution\<close>.
    \<^item> \<open>Ppm_Hue\<close>: the hue map, the eight kernels, which are lines, the filters and \<open>main\<close> of pr05; interpretations
      \<open>hue_erosion\<close> and \<open>hue_convolution\<close>.
    \<^item> \<open>Ppm_Color\<close>: the tables and the change of hue of pr03. The loop that fills a piecewise linear table ends for every correct
      rounding; \<open>segment_loop\<close> has the distance to its right boundary as measure.
    \<^item> \<open>Ppm_Transform\<close>: interpolation, matrices and the forward and inverse passes of pr07, and those of pr06.
    \<^item> \<open>Ppm_Types\<close>: every operation on images that returns keeps them well-formed.
    \<^item> \<open>Ppm_Pattern\<close>: the gradient of pr01, every byte of which is set.
    \<^item> \<open>Ppm_Readers\<close>: the readers of the other five programs, which read a file as it was written and agree with that of pr04 on every file
      without negative dimensions, and the interpolation of pr06.
    \<^item> \<open>Ppm_Polygon\<close>: the unfinished polygons of pr02. In exact arithmetic and in the first quadrant around the origin, the polygon is filled
      triangle by triangle; but the sectors do not close, and the third quadrant is taken for the first. The program does not link (a constructor is missing).
    \<^item> \<open>Ppm_Tests\<close>: the programs test.cpp of pr03, which agrees with the tables of pr03, and of pr04.
    \<^item> \<open>Ppm_Display\<close>: the end of every \<open>main\<close> and the callbacks, as the calls of GLUT and OpenGL they make; the array that is handed over has three bytes
      for every pixel of the window.

  \<^bold>\<open>Not modelled.\<close> What is not in this repository: the kernel, the network, GLUT and OpenGL, the processor and its bus. Their results and events
  are arguments of the models, and what is sent to them is recorded. Prompts and error messages
  on consoles and closing at the end of programs are left out; console logs and constraint files hold no program.
\<close>

end
